(* ===== verification/Prelude.thy ===== *)
theory Prelude
  imports Main "HOL-Library.Word" "HOL-Library.Char_ord" "HOL-Library.List_Lexorder"
    "HOL-Library.Product_Lexorder" "HOL-Library.Multiset"
begin

text \<open>
  The vocabulary shared by the theories of the development.

  \<^item> Exceptions of the C++ code are values of \<open>exn\<close>, and a call that may throw has the type
    \<open>'a res\<close>.  \<open>bindE\<close> sequences two such calls and \<open>fc_assert\<close> is the FC_ASSERT macro; its
    number is the line of the assertion in the source file the definition is mapped to.
  \<^item> The fixed-width integer conversions of C++ on \<open>int\<close>, and the overflow-checked
    \<open>fc::safe<int64_t>\<close> of src/src/base/fc/include/fc/safe.hpp (\<open>share_type\<close>).
  \<^item> Tables: the objects of one chainbase index in the order of their ids, with creation,
    modification and removal as in \<open>chainbase::generic_index\<close>, and the lemmas on sums over the
    rows that the conservation proofs rest on.
\<close>

named_theorems res_simps \<open>inversion of successful runs\<close>

section \<open>Exceptions and results\<close>

datatype exn =
    Assert_exception nat
  | Overflow_exception
  | Underflow_exception
  | Divide_by_zero_exception
  | Out_of_range
  | Logic_error
  | Unlinkable_block_exception
  | Tx_missing_active_auth
  | Tx_missing_owner_auth
  | Tx_missing_posting_auth
  | Tx_missing_other_auth
  | Tx_irrelevant_sig
  | Tx_duplicate_sig
  | Transaction_tapos_exception
  | Transaction_expiration_exception

type_synonym 'a res = "exn + 'a"

definition bindE :: "'a res \<Rightarrow> ('a \<Rightarrow> 'b res) \<Rightarrow> 'b res" where
  "bindE m f = (case m of Inl e \<Rightarrow> Inl e | Inr x \<Rightarrow> f x)"

definition fc_assert :: "nat \<Rightarrow> bool \<Rightarrow> 'a res \<Rightarrow> 'a res" where
  "fc_assert l c k = (if c then k else Inl (Assert_exception l))"

fun foldE :: "('a \<Rightarrow> 'b \<Rightarrow> 'b res) \<Rightarrow> 'a list \<Rightarrow> 'b \<Rightarrow> 'b res" where
  "foldE f [] s = Inr s"
| "foldE f (x # xs) s = bindE (f x s) (foldE f xs)"

definition isOK :: "'a res \<Rightarrow> bool" where
  "isOK m = (case m of Inl _ \<Rightarrow> False | Inr _ \<Rightarrow> True)"

lemma bindE_Inl [simp]: "bindE (Inl e) f = Inl e"
  by (simp add: bindE_def)

lemma bindE_Inr [simp]: "bindE (Inr x) f = f x"
  by (simp add: bindE_def)

lemma bindE_eq_Inr [res_simps]: "bindE m f = Inr y \<longleftrightarrow> (\<exists>x. m = Inr x \<and> f x = Inr y)"
  by (cases m) auto

lemma bindE_eq_Inl: "bindE m f = Inl e \<longleftrightarrow> m = Inl e \<or> (\<exists>x. m = Inr x \<and> f x = Inl e)"
  by (cases m) auto

lemma bindE_assoc: "bindE (bindE m f) g = bindE m (\<lambda>x. bindE (f x) g)"
  by (cases m) auto

lemma bindE_if: "bindE (if c then a else b) f = (if c then bindE a f else bindE b f)"
  by simp

lemma bindE_cong [fundef_cong]:
  "m = m' \<Longrightarrow> (\<And>x. m' = Inr x \<Longrightarrow> f x = f' x) \<Longrightarrow> bindE m f = bindE m' f'"
  by (cases m') auto

lemma fc_assert_True [simp]: "fc_assert l True k = k"
  by (simp add: fc_assert_def)

lemma fc_assert_False [simp]: "fc_assert l False k = Inl (Assert_exception l)"
  by (simp add: fc_assert_def)

lemma fc_assert_eq_Inr [res_simps]: "fc_assert l c k = Inr y \<longleftrightarrow> c \<and> k = Inr y"
  by (simp add: fc_assert_def)

lemma fc_assert_cong [fundef_cong]:
  "c = c' \<Longrightarrow> (c' \<Longrightarrow> k = k') \<Longrightarrow> fc_assert l c k = fc_assert l c' k'"
  by (simp add: fc_assert_def)

lemma if_eq_Inr [res_simps]:
  "(if c then a else b) = Inr y \<longleftrightarrow> (if c then a = Inr y else b = Inr y)"
  by simp

lemma foldE_append: "foldE f (xs @ ys) s = bindE (foldE f xs s) (foldE f ys)"
  by (induction xs arbitrary: s) (auto simp: bindE_assoc intro: bindE_cong)

lemma foldE_invariant:
  assumes "foldE f xs s = Inr s'" and "P s"
    and "\<And>x s s'. x \<in> set xs \<Longrightarrow> P s \<Longrightarrow> f x s = Inr s' \<Longrightarrow> P s'"
  shows "P s'"
  using assms
proof (induction xs arbitrary: s)
  case (Cons x xs)
  then obtain t where "f x s = Inr t" "foldE f xs t = Inr s'"
    by (auto simp: res_simps)
  with Cons show ?case by (meson list.set_intros)
qed simp

lemma case_prod_Inr: "(case p of (a, b) \<Rightarrow> f a b) = (Inr y :: 'b res) \<longleftrightarrow> (\<exists>a b. p = (a, b) \<and> f a b = Inr y)"
  by (cases p) auto

lemmas run_simps = Let_def bindE_eq_Inr fc_assert_eq_Inr case_prod_Inr

lemma isOK_simps [simp]: "isOK (Inr x)" "\<not> isOK (Inl e)"
  by (simp_all add: isOK_def)

lemma isOK_iff: "isOK m \<longleftrightarrow> (\<exists>x. m = Inr x)"
  by (cases m) simp_all

section \<open>Fixed-width integers\<close>

abbreviation (input) int64_max :: int where "int64_max \<equiv> 9223372036854775807"
abbreviation (input) int64_min :: int where "int64_min \<equiv> -9223372036854775808"
abbreviation (input) two64 :: int where "two64 \<equiv> 18446744073709551616"
abbreviation (input) two128 :: int where
  "two128 \<equiv> 340282366920938463463374607431768211456"

definition in_int64 :: "int \<Rightarrow> bool" where
  "in_int64 x \<longleftrightarrow> int64_min \<le> x \<and> x \<le> int64_max"

definition to_uint8 :: "int \<Rightarrow> int" where "to_uint8 x = x mod 256"
definition to_uint16 :: "int \<Rightarrow> int" where "to_uint16 x = x mod 65536"
definition to_uint32 :: "int \<Rightarrow> int" where "to_uint32 x = x mod 4294967296"
definition to_uint64 :: "int \<Rightarrow> int" where "to_uint64 x = x mod two64"
definition to_uint128 :: "int \<Rightarrow> int" where "to_uint128 x = x mod two128"

definition to_int64 :: "int \<Rightarrow> int" where
  "to_int64 x = (x + 9223372036854775808) mod two64 - 9223372036854775808"

text \<open>Division and remainder of C++ truncate towards zero.\<close>

definition cdiv :: "int \<Rightarrow> int \<Rightarrow> int" where
  "cdiv a b = sgn a * sgn b * (\<bar>a\<bar> div \<bar>b\<bar>)"

definition crem :: "int \<Rightarrow> int \<Rightarrow> int" where
  "crem a b = a - b * cdiv a b"

lemma in_int64_0 [simp]: "in_int64 0"
  by (simp add: in_int64_def)

lemma cdiv_nonneg [simp]: "0 \<le> a \<Longrightarrow> 0 < b \<Longrightarrow> cdiv a b = a div b"
  by (cases "a = 0") (simp_all add: cdiv_def)

lemma cdiv_0 [simp]: "cdiv 0 b = 0" "cdiv a 0 = 0"
  by (simp_all add: cdiv_def)

lemma to_uint128_small [simp]: "0 \<le> x \<Longrightarrow> x < two128 \<Longrightarrow> to_uint128 x = x"
  by (simp add: to_uint128_def)

lemma to_uint64_small [simp]: "0 \<le> x \<Longrightarrow> x < two64 \<Longrightarrow> to_uint64 x = x"
  by (simp add: to_uint64_def)

lemma to_uint32_small [simp]: "0 \<le> x \<Longrightarrow> x < 4294967296 \<Longrightarrow> to_uint32 x = x"
  by (simp add: to_uint32_def)

lemma to_uint16_small [simp]: "0 \<le> x \<Longrightarrow> x < 65536 \<Longrightarrow> to_uint16 x = x"
  by (simp add: to_uint16_def)

lemma to_int64_small [simp]: "in_int64 x \<Longrightarrow> to_int64 x = x"
  by (simp add: to_int64_def in_int64_def)

lemma to_int64_range [simp]: "in_int64 (to_int64 x)"
  by (simp add: to_int64_def in_int64_def)

section \<open>Overflow-checked arithmetic\<close>

definition safe_add :: "int \<Rightarrow> int \<Rightarrow> int res" where
  "safe_add a b =
     (if b > 0 \<and> a > int64_max - b then Inl Overflow_exception
      else if b < 0 \<and> a < int64_min - b then Inl Underflow_exception
      else Inr (a + b))"

definition safe_sub :: "int \<Rightarrow> int \<Rightarrow> int res" where
  "safe_sub a b =
     (if b > 0 \<and> a < int64_min + b then Inl Underflow_exception
      else if b < 0 \<and> a > int64_max + b then Inl Overflow_exception
      else Inr (a - b))"

definition safe_mul :: "int \<Rightarrow> int \<Rightarrow> int res" where
  "safe_mul a b =
     (if a > 0 then
        if b > 0 then
          if a > cdiv int64_max b then Inl Overflow_exception else Inr (a * b)
        else if b < cdiv int64_min a then Inl Underflow_exception else Inr (a * b)
      else
        if b > 0 then
          if a < cdiv int64_min b then Inl Underflow_exception else Inr (a * b)
        else if a \<noteq> 0 \<and> b < cdiv int64_max a then Inl Overflow_exception else Inr (a * b))"

definition safe_div :: "int \<Rightarrow> int \<Rightarrow> int res" where
  "safe_div a b =
     (if b = 0 then Inl Divide_by_zero_exception
      else if a = int64_min \<and> b = -1 then Inl Overflow_exception
      else Inr (cdiv a b))"

definition safe_mod :: "int \<Rightarrow> int \<Rightarrow> int res" where
  "safe_mod a b =
     (if b = 0 then Inl Divide_by_zero_exception
      else if a = int64_min \<and> b = -1 then Inl Overflow_exception
      else Inr (crem a b))"

definition safe_neg :: "int \<Rightarrow> int res" where
  "safe_neg a = (if a = int64_min then Inl Overflow_exception else Inr (- a))"

lemma safe_add_Inr [res_simps]:
  "in_int64 a \<Longrightarrow> in_int64 b \<Longrightarrow> safe_add a b = Inr c \<longleftrightarrow> c = a + b \<and> in_int64 (a + b)"
  by (auto simp: safe_add_def in_int64_def)

lemma safe_add_value: "safe_add a b = Inr c \<Longrightarrow> c = a + b"
  by (simp add: safe_add_def split: if_splits)

lemma safe_sub_value: "safe_sub a b = Inr c \<Longrightarrow> c = a - b"
  by (simp add: safe_sub_def split: if_splits)

lemma safe_neg_value: "safe_neg a = Inr c \<Longrightarrow> c = - a"
  by (simp add: safe_neg_def split: if_splits)

lemma safe_mul_value: "safe_mul a b = Inr c \<Longrightarrow> c = a * b"
  by (simp add: safe_mul_def split: if_splits)

lemma safe_sub_Inr [res_simps]:
  "in_int64 a \<Longrightarrow> in_int64 b \<Longrightarrow> safe_sub a b = Inr c \<longleftrightarrow> c = a - b \<and> in_int64 (a - b)"
  by (auto simp: safe_sub_def in_int64_def)

lemma safe_neg_Inr [res_simps]:
  "in_int64 a \<Longrightarrow> safe_neg a = Inr c \<longleftrightarrow> c = - a \<and> in_int64 (- a)"
  by (auto simp: safe_neg_def in_int64_def)

lemma safe_div_Inr:
  "safe_div a b = Inr c \<longleftrightarrow> b \<noteq> 0 \<and> \<not> (a = int64_min \<and> b = -1) \<and> c = cdiv a b"
  by (auto simp: safe_div_def)

section \<open>Tables\<close>

record 'v table =
  rows :: "'v list"
  next_id :: nat

definition empty_table :: "'v table" where
  "empty_table = \<lparr> rows = [], next_id = 0 \<rparr>"

definition tbl_find :: "('v \<Rightarrow> bool) \<Rightarrow> 'v table \<Rightarrow> 'v option" where
  "tbl_find P t = List.find P (rows t)"

definition tbl_get :: "('v \<Rightarrow> bool) \<Rightarrow> 'v table \<Rightarrow> 'v res" where
  "tbl_get P t = (case tbl_find P t of None \<Rightarrow> Inl Out_of_range | Some v \<Rightarrow> Inr v)"

text \<open>\<open>clash\<close> says that two rows agree on a key of a unique index of the table.\<close>

definition tbl_create :: "('v \<Rightarrow> 'v \<Rightarrow> bool) \<Rightarrow> (nat \<Rightarrow> 'v) \<Rightarrow> 'v table \<Rightarrow> 'v table res" where
  "tbl_create clash mk t =
     (let v = mk (next_id t) in
      if list_ex (clash v) (rows t) then Inl Logic_error
      else Inr (t\<lparr> rows := rows t @ [v], next_id := Suc (next_id t) \<rparr>))"

fun modify_first :: "('v \<Rightarrow> bool) \<Rightarrow> ('v \<Rightarrow> 'v res) \<Rightarrow> 'v list \<Rightarrow> 'v list res" where
  "modify_first P f [] = Inl Out_of_range"
| "modify_first P f (v # vs) =
     (if P v then bindE (f v) (\<lambda>v'. Inr (v' # vs))
      else bindE (modify_first P f vs) (\<lambda>vs'. Inr (v # vs')))"

definition tbl_modify :: "('v \<Rightarrow> bool) \<Rightarrow> ('v \<Rightarrow> 'v res) \<Rightarrow> 'v table \<Rightarrow> 'v table res" where
  "tbl_modify P f t = bindE (modify_first P f (rows t)) (\<lambda>vs. Inr (t\<lparr> rows := vs \<rparr>))"

fun remove_first :: "('v \<Rightarrow> bool) \<Rightarrow> 'v list \<Rightarrow> 'v list" where
  "remove_first P [] = []"
| "remove_first P (v # vs) = (if P v then vs else v # remove_first P vs)"

definition tbl_remove :: "('v \<Rightarrow> bool) \<Rightarrow> 'v table \<Rightarrow> 'v table" where
  "tbl_remove P t = t\<lparr> rows := remove_first P (rows t) \<rparr>"

text \<open>Removal of a row that is at hand, by a reference or an iterator.\<close>

definition tbl_erase :: "'v \<Rightarrow> 'v table \<Rightarrow> 'v table" where
  "tbl_erase v t = t\<lparr> rows := remove1 v (rows t) \<rparr>"

definition tbl_sum :: "('v \<Rightarrow> int) \<Rightarrow> 'v table \<Rightarrow> int" where
  "tbl_sum g t = sum_list (map g (rows t))"

lemma tbl_get_Inr: "tbl_get P t = Inr v \<longleftrightarrow> tbl_find P t = Some v"
  by (auto simp: tbl_get_def split: option.splits)

lemma find_Some_split:
  "List.find P xs = Some v \<Longrightarrow>
   \<exists>us vs. xs = us @ v # vs \<and> P v \<and> (\<forall>u\<in>set us. \<not> P u)"
proof (induction xs)
  case (Cons x xs)
  show ?case
  proof (cases "P x")
    case True
    with Cons.prems show ?thesis by (intro exI[of _ "[]"] exI[of _ xs]) simp
  next
    case False
    with Cons obtain us vs where "xs = us @ v # vs" "P v" "\<forall>u\<in>set us. \<not> P u" by auto
    with False show ?thesis by (intro exI[of _ "x # us"] exI[of _ vs]) simp
  qed
qed simp

lemma find_append_first:
  "P v \<Longrightarrow> (\<forall>u\<in>set us. \<not> P u) \<Longrightarrow> List.find P (us @ v # vs) = Some v"
  by (induction us) simp_all

lemma modify_first_split:
  "modify_first P f xs = Inr ys \<Longrightarrow>
   \<exists>us v v' vs. xs = us @ v # vs \<and> ys = us @ v' # vs \<and> P v \<and> f v = Inr v' \<and>
     (\<forall>u\<in>set us. \<not> P u)"
proof (induction xs arbitrary: ys)
  case (Cons x xs)
  show ?case
  proof (cases "P x")
    case True
    with Cons.prems show ?thesis
      by (intro exI[of _ "[]"]) (auto simp: res_simps)
  next
    case False
    with Cons.prems obtain zs where zs: "modify_first P f xs = Inr zs" "ys = x # zs"
      by (auto simp: res_simps)
    from Cons.IH[OF this(1)] obtain us v v' vs where
      "xs = us @ v # vs" "zs = us @ v' # vs" "P v" "f v = Inr v'" "\<forall>u\<in>set us. \<not> P u" by blast
    with False zs(2) show ?thesis by (intro exI[of _ "x # us"]) auto
  qed
qed simp

lemma modify_first_OK:
  "List.find P xs = Some v \<Longrightarrow> f v = Inr v' \<Longrightarrow> \<exists>ys. modify_first P f xs = Inr ys"
  by (induction xs) (auto split: if_splits)

lemma modify_first_None:
  "List.find P xs = None \<Longrightarrow> modify_first P f xs = Inl Out_of_range"
  by (induction xs) (auto split: if_splits)

lemma tbl_modify_find:
  "tbl_modify P f t = Inr t' \<Longrightarrow> \<exists>v v'. tbl_find P t = Some v \<and> f v = Inr v'"
  unfolding tbl_modify_def tbl_find_def
  by (auto simp: res_simps find_append_first dest!: modify_first_split)

lemma tbl_modify_sum:
  assumes "tbl_modify P f t = Inr t'" and "tbl_find P t = Some v" and "f v = Inr v'"
  shows "tbl_sum g t' = tbl_sum g t - g v + g v'"
proof -
  from assms(1) obtain ys where "modify_first P f (rows t) = Inr ys" and t': "t' = t\<lparr> rows := ys \<rparr>"
    by (auto simp: tbl_modify_def res_simps)
  from modify_first_split[OF this(1)] obtain us w w' vs where
    s: "rows t = us @ w # vs" "ys = us @ w' # vs" "P w" "f w = Inr w'" "\<forall>u\<in>set us. \<not> P u"
    by blast
  from s(1,3,5) assms(2) have "w = v" by (simp add: tbl_find_def find_append_first)
  with s assms(3) t' show ?thesis by (simp add: tbl_sum_def)
qed

lemma tbl_modify_sum_same:
  assumes "tbl_modify P f t = Inr t'" and "\<And>v v'. f v = Inr v' \<Longrightarrow> g v' = g v"
  shows "tbl_sum g t' = tbl_sum g t"
proof -
  from tbl_modify_find[OF assms(1)] obtain v v' where "tbl_find P t = Some v" "f v = Inr v'"
    by blast
  with tbl_modify_sum[OF assms(1) this] assms(2) show ?thesis by simp
qed

lemma tbl_modify_next_id: "tbl_modify P f t = Inr t' \<Longrightarrow> next_id t' = next_id t"
  by (auto simp: tbl_modify_def res_simps)

lemma tbl_create_sum:
  "tbl_create clash mk t = Inr t' \<Longrightarrow> tbl_sum g t' = tbl_sum g t + g (mk (next_id t))"
  by (auto simp: tbl_create_def tbl_sum_def Let_def split: if_splits)

lemma remove_first_sum:
  "List.find P xs = Some v \<Longrightarrow>
   sum_list (map g (remove_first P xs)) = sum_list (map g xs) - (g v :: int)"
  by (induction xs) (auto split: if_splits)

lemma tbl_remove_sum:
  "tbl_find P t = Some v \<Longrightarrow> tbl_sum g (tbl_remove P t) = tbl_sum g t - g v"
  by (simp add: tbl_find_def tbl_remove_def tbl_sum_def remove_first_sum)

lemma find_in_set: "List.find P xs = Some v \<Longrightarrow> v \<in> set xs \<and> P v"
  by (auto simp: find_Some_iff)

lemma tbl_find_Some: "tbl_find P t = Some v \<Longrightarrow> v \<in> set (rows t) \<and> P v"
  by (simp add: tbl_find_def find_in_set)

lemma remove_first_subset: "set (remove_first P xs) \<subseteq> set xs"
  by (induction xs) auto

lemma remove_first_length:
  "List.find P xs = Some v \<Longrightarrow> Suc (length (remove_first P xs)) = length xs"
  by (induction xs) (auto split: if_splits)

lemma tbl_modify_rows:
  assumes "tbl_modify P f t = Inr t'" and "v' \<in> set (rows t')"
  shows "v' \<in> set (rows t) \<or> (\<exists>v\<in>set (rows t). P v \<and> f v = Inr v')"
  using assms by (auto simp: tbl_modify_def res_simps dest!: modify_first_split)

lemma remove_first_append:
  "\<forall>u\<in>set us. \<not> P u \<Longrightarrow> P v \<Longrightarrow> remove_first P (us @ v # vs) = us @ vs"
  by (induction us) auto

lemma tbl_modify_remove_first:
  assumes "tbl_modify P f t = Inr t'" and "tbl_find P t = Some v" and "f v = Inr v'" and "P v'"
  shows "remove_first P (rows t') = remove_first P (rows t)"
proof -
  from assms(1) obtain ys where m: "modify_first P f (rows t) = Inr ys" and t': "t' = t\<lparr> rows := ys \<rparr>"
    by (auto simp: tbl_modify_def res_simps)
  from modify_first_split[OF m] obtain us w w' vs where
    s: "rows t = us @ w # vs" "ys = us @ w' # vs" "P w" "f w = Inr w'" "\<forall>u\<in>set us. \<not> P u" by blast
  from s(1,3,5) assms(2) have "w = v" by (simp add: tbl_find_def find_append_first)
  with s assms t' show ?thesis by (simp add: remove_first_append)
qed

lemma tbl_modify_find_after:
  assumes "tbl_modify P f t = Inr t'" and "tbl_find P t = Some v" and "f v = Inr v'" and "P v'"
  shows "tbl_find P t' = Some v'"
proof -
  from assms(1) obtain ys where m: "modify_first P f (rows t) = Inr ys" and t': "t' = t\<lparr> rows := ys \<rparr>"
    by (auto simp: tbl_modify_def res_simps)
  from modify_first_split[OF m] obtain us w w' vs where
    s: "rows t = us @ w # vs" "ys = us @ w' # vs" "P w" "f w = Inr w'" "\<forall>u\<in>set us. \<not> P u" by blast
  from s(1,3,5) assms(2) have "w = v" by (simp add: tbl_find_def find_append_first)
  with s assms t' show ?thesis by (simp add: tbl_find_def find_append_first)
qed

text \<open>With distinct keys a modification changes exactly the row with the key.\<close>

lemma tbl_modify_find_other:
  assumes "tbl_modify P f t = Inr t'" "\<And>v v'. P v \<Longrightarrow> f v = Inr v' \<Longrightarrow> \<not> Q v \<and> \<not> Q v'"
  shows "tbl_find Q t' = tbl_find Q t"
proof -
  from assms(1) obtain ys where m: "modify_first P f (rows t) = Inr ys" "t' = t\<lparr> rows := ys \<rparr>"
    by (auto simp: tbl_modify_def bindE_eq_Inr)
  from modify_first_split[OF m(1)] obtain us v v' vs where
    s: "rows t = us @ v # vs" "ys = us @ v' # vs" "P v" "f v = Inr v'" by blast
  have "List.find Q (us @ x # vs) = List.find Q (us @ vs)" if "\<not> Q x" for x
    using that by (induction us) auto
  with assms(2)[OF s(3,4)] show ?thesis by (simp add: tbl_find_def m(2) s)
qed

lemma modify_first_key:
  assumes "modify_first (\<lambda>v. key v = k) f xs = Inr ys" and "distinct (map key xs)"
  shows "\<exists>v v'. v \<in> set xs \<and> key v = k \<and> f v = Inr v' \<and> ys = map (\<lambda>x. if key x = k then v' else x) xs"
proof -
  from modify_first_split[OF assms(1)] obtain us w w' vs where
    s: "xs = us @ w # vs" "ys = us @ w' # vs" "key w = k" "f w = Inr w'" "\<forall>u\<in>set us. key u \<noteq> k" by blast
  moreover have "\<forall>u\<in>set vs. key u \<noteq> k"
    using assms(2) s(1,3) by (auto simp: image_iff)
  ultimately have "ys = map (\<lambda>x. if key x = k then w' else x) xs"
    by (auto intro: map_idI[symmetric])
  with s show ?thesis by (intro exI[of _ w] exI[of _ w']) auto
qed

lemma tbl_modify_key:
  assumes "tbl_modify (\<lambda>v. key v = k) f t = Inr t'" and "distinct (map key (rows t))"
  obtains v v' where "v \<in> set (rows t)" "key v = k" "f v = Inr v'"
    "rows t' = map (\<lambda>x. if key x = k then v' else x) (rows t)"
  using assms modify_first_key[of key k f "rows t"] by (auto simp: tbl_modify_def res_simps)

lemma find_remove_first_all:
  "List.find P xs = Some v \<Longrightarrow> list_all Q xs \<longleftrightarrow> Q v \<and> list_all Q (remove_first P xs)"
  by (induction xs) (auto split: if_splits)

lemma tbl_erase_sum: "v \<in> set (rows t) \<Longrightarrow> tbl_sum g (tbl_erase v t) = tbl_sum g t - g v"
  by (simp add: tbl_erase_def tbl_sum_def sum_list_map_remove1)

lemma tbl_erase_rows [simp]: "rows (tbl_erase v t) = remove1 v (rows t)" "next_id (tbl_erase v t) = next_id t"
  by (simp_all add: tbl_erase_def)

lemma tbl_create_rows:
  "tbl_create clash mk t = Inr t' \<Longrightarrow> rows t' = rows t @ [mk (next_id t)] \<and> \<not> list_ex (clash (mk (next_id t))) (rows t)"
  by (auto simp: tbl_create_def Let_def split: if_splits)

section \<open>Loops over the tables\<close>

lemma foldE_sum:
  assumes "foldE f xs t = Inr t'" and "\<And>x t t'. x \<in> set xs \<Longrightarrow> f x t = Inr t' \<Longrightarrow> h t' = h t + (g x :: int)"
  shows "h t' = h t + sum_list (map g xs)"
  using assms
proof (induction xs arbitrary: t)
  case (Cons x xs)
  then obtain u where "f x t = Inr u" "foldE f xs u = Inr t'" by (auto simp: res_simps)
  with Cons.IH[of u] Cons.prems(2) show ?case by simp
qed simp

lemma foldE_pres:
  assumes "foldE f xs t = Inr t'" and "\<And>x t t'. f x t = Inr t' \<Longrightarrow> h t' = h t"
  shows "h t' = h t"
  using assms
proof (induction xs arbitrary: t)
  case (Cons x xs)
  then obtain u where "f x t = Inr u" "foldE f xs u = Inr t'" by (auto simp: res_simps)
  with Cons.IH[of u] Cons.prems(2) show ?case by simp
qed simp

lemma foldE_rel:
  assumes "foldE f xs t = Inr t'" and "\<And>x t t'. x \<in> set xs \<Longrightarrow> f x t = Inr t' \<Longrightarrow> R t t'"
    and refl: "\<And>t. R t t" and trans: "\<And>a b c. R a b \<Longrightarrow> R b c \<Longrightarrow> R a c"
  shows "R t t'"
  using assms(1,2)
proof (induction xs arbitrary: t)
  case (Cons x xs)
  then obtain u where "f x t = Inr u" "foldE f xs u = Inr t'" by (auto simp: res_simps)
  with Cons.IH[of u] Cons.prems(2) show ?case by (meson list.set_intros trans)
qed (simp add: refl)

text \<open>A loop that consumes rows of a table: each step erases the row it handles.\<close>

lemma foldE_erase:
  assumes "foldE f ws t = Inr t'" and "mset ws \<subseteq># mset (rows (tab t))"
    and step: "\<And>w t t'. w \<in> set (rows (tab t)) \<Longrightarrow> f w t = Inr t' \<Longrightarrow>
      R t t' \<and> rows (tab t') = remove1 w (rows (tab t))"
    and refl: "\<And>t. R t t" and trans: "\<And>a b c. R a b \<Longrightarrow> R b c \<Longrightarrow> R a c"
  shows "R t t'"
  using assms(1,2)
proof (induction ws arbitrary: t)
  case (Cons w ws)
  then obtain u where u: "f w t = Inr u" "foldE f ws u = Inr t'" by (auto simp: res_simps)
  have w: "w \<in> set (rows (tab t))" using Cons.prems(2) by (simp add: insert_subset_eq_iff)
  from step[OF w u(1)] have s: "R t u" "rows (tab u) = remove1 w (rows (tab t))" by auto
  have "mset ws \<subseteq># mset (rows (tab u))" using Cons.prems(2) s(2) by (simp add: insert_subset_eq_iff)
  with Cons.IH[OF u(2)] s(1) show ?case by (blast intro: trans)
qed (simp add: refl)

lemma mset_takeWhile_sort: "mset (takeWhile P (sort_key k xs)) \<subseteq># mset xs"
  by (metis mset_append mset_sort mset_subset_eq_add_left takeWhile_dropWhile_id)

lemma mset_filter_sort: "mset (filter P (sort_key k xs)) \<subseteq># mset xs"
  by (simp add: multiset_filter_subset)

lemma sum_list_sort_key: "sum_list (map g (sort_key k xs)) = (sum_list (map g xs) :: int)"
  by (metis mset_map mset_sort sum_mset_sum_list)

lemma find_distinct:
  assumes "distinct (map k xs)" "x \<in> set xs"
  shows "List.find (\<lambda>y. k y = k x) xs = Some x"
  using assms
proof (induction xs)
  case (Cons y ys)
  show ?case
  proof (cases "k y = k x")
    case True
    with Cons.prems have "y = x" by (metis distinct.simps(2) image_eqI list.set_map list.simps(9) set_ConsD)
    with True show ?thesis by simp
  qed (use Cons in auto)
qed simp

lemma find_append: "List.find P (xs @ ys) = (case List.find P xs of None \<Rightarrow> List.find P ys | Some x \<Rightarrow> Some x)"
  by (induction xs) auto

lemma modify_first_map:
  assumes "distinct (map k xs)" "x \<in> set xs" "k x = i"
  shows "modify_first (\<lambda>v. k v = i) (\<lambda>v. Inr (g v)) xs = Inr (map (\<lambda>v. if k v = i then g v else v) xs)"
  using assms
proof (induction xs)
  case (Cons y ys)
  show ?case
  proof (cases "k y = i")
    case True
    with Cons.prems have "\<forall>v\<in>set ys. k v \<noteq> i" by (auto simp: image_iff)
    then have "map (\<lambda>v. if k v = i then g v else v) ys = ys" by (intro map_idI) auto
    with True show ?thesis by simp
  qed (use Cons in auto)
qed simp

lemma safe_add_le: "safe_add a b = Inr c \<Longrightarrow> 0 < b \<Longrightarrow> a + b \<le> int64_max"
  by (auto simp: safe_add_def split: if_splits)

lemma to_uint128_le: "0 \<le> x \<Longrightarrow> to_uint128 x \<le> x"
  by (simp add: to_uint128_def zmod_le_nonneg_dividend)

lemma to_int64_le: "0 \<le> x \<Longrightarrow> x < two64 \<Longrightarrow> to_int64 x \<le> x"
  using zmod_le_nonneg_dividend[of "x + 9223372036854775808" two64] by (simp add: to_int64_def)

lemma remove_first_gone:
  "distinct (map k xs) \<Longrightarrow> y \<in> set (remove_first (\<lambda>x. k x = i) xs) \<Longrightarrow> k y \<noteq> i"
  by (induction xs) (auto split: if_splits simp: image_iff)

end
