(* ===== verification/Config.thy ===== *)
theory Config
  imports Prelude
begin

text \<open>
  The protocol constants of src/src/core/protocol/include/steem/protocol/config.hpp, with the values
  of the live network (IS_TEST_NET undefined).  Durations are in seconds.  They are abbreviations,
  so that proofs and evaluations see the numbers.
\<close>

abbreviation (input) STEEM_GENESIS_TIME :: int where "STEEM_GENESIS_TIME \<equiv> 1458835200"
abbreviation (input) STEEM_CASHOUT_WINDOW_SECONDS :: int where "STEEM_CASHOUT_WINDOW_SECONDS \<equiv> 604800"
abbreviation (input) STEEM_UPVOTE_LOCKOUT :: int where "STEEM_UPVOTE_LOCKOUT \<equiv> 43200"
abbreviation (input) STEEM_MIN_ACCOUNT_CREATION_FEE :: int where "STEEM_MIN_ACCOUNT_CREATION_FEE \<equiv> 1"
abbreviation (input) STEEM_OWNER_AUTH_RECOVERY_PERIOD :: int where "STEEM_OWNER_AUTH_RECOVERY_PERIOD \<equiv> 2592000"
abbreviation (input) STEEM_ACCOUNT_RECOVERY_REQUEST_EXPIRATION_PERIOD :: int where "STEEM_ACCOUNT_RECOVERY_REQUEST_EXPIRATION_PERIOD \<equiv> 86400"
abbreviation (input) STEEM_OWNER_UPDATE_LIMIT :: int where "STEEM_OWNER_UPDATE_LIMIT \<equiv> 3600"
abbreviation (input) STEEM_OWNER_AUTH_HISTORY_TRACKING_START_BLOCK_NUM :: int where "STEEM_OWNER_AUTH_HISTORY_TRACKING_START_BLOCK_NUM \<equiv> 3186477"
abbreviation (input) STEEM_BLOCK_INTERVAL :: int where "STEEM_BLOCK_INTERVAL \<equiv> 3"
abbreviation (input) STEEM_BLOCKS_PER_YEAR :: int where "STEEM_BLOCKS_PER_YEAR \<equiv> 10512000"
abbreviation (input) STEEM_BLOCKS_PER_DAY :: int where "STEEM_BLOCKS_PER_DAY \<equiv> 28800"
abbreviation (input) STEEM_START_VESTING_BLOCK :: int where "STEEM_START_VESTING_BLOCK \<equiv> 201600"
abbreviation (input) STEEM_START_WITNESS_VOTING_BLOCK :: int where "STEEM_START_WITNESS_VOTING_BLOCK \<equiv> 201600"
abbreviation (input) STEEM_MAX_WITNESSES :: nat where "STEEM_MAX_WITNESSES \<equiv> 21"
abbreviation (input) STEEM_MAX_VOTED_WITNESSES :: int where "STEEM_MAX_VOTED_WITNESSES \<equiv> 20"
abbreviation (input) STEEM_HARDFORK_REQUIRED_WITNESSES :: int where "STEEM_HARDFORK_REQUIRED_WITNESSES \<equiv> 17"
abbreviation (input) STEEM_MAX_TIME_UNTIL_EXPIRATION :: int where "STEEM_MAX_TIME_UNTIL_EXPIRATION \<equiv> 3600"
abbreviation (input) STEEM_MAX_MEMO_SIZE :: nat where "STEEM_MAX_MEMO_SIZE \<equiv> 2048"
abbreviation (input) STEEM_MAX_PROXY_RECURSION_DEPTH :: nat where "STEEM_MAX_PROXY_RECURSION_DEPTH \<equiv> 4"
abbreviation (input) STEEM_VESTING_WITHDRAW_INTERVALS :: int where "STEEM_VESTING_WITHDRAW_INTERVALS \<equiv> 13"
abbreviation (input) STEEM_VESTING_WITHDRAW_INTERVAL_SECONDS :: int where "STEEM_VESTING_WITHDRAW_INTERVAL_SECONDS \<equiv> 604800"
abbreviation (input) STEEM_MAX_WITHDRAW_ROUTES :: int where "STEEM_MAX_WITHDRAW_ROUTES \<equiv> 10"
abbreviation (input) STEEM_SAVINGS_WITHDRAW_TIME :: int where "STEEM_SAVINGS_WITHDRAW_TIME \<equiv> 259200"
abbreviation (input) STEEM_SAVINGS_WITHDRAW_REQUEST_LIMIT :: int where "STEEM_SAVINGS_WITHDRAW_REQUEST_LIMIT \<equiv> 100"
abbreviation (input) STEEM_VOTE_REGENERATION_SECONDS :: int where "STEEM_VOTE_REGENERATION_SECONDS \<equiv> 432000"
abbreviation (input) STEEM_MAX_VOTE_CHANGES :: int where "STEEM_MAX_VOTE_CHANGES \<equiv> 5"
abbreviation (input) STEEM_REVERSE_AUCTION_WINDOW_SECONDS :: int where "STEEM_REVERSE_AUCTION_WINDOW_SECONDS \<equiv> 1800"
abbreviation (input) STEEM_MIN_VOTE_INTERVAL_SEC :: int where "STEEM_MIN_VOTE_INTERVAL_SEC \<equiv> 3"
abbreviation (input) STEEM_MIN_VOTE_VESTING_SHARES :: int where "STEEM_MIN_VOTE_VESTING_SHARES \<equiv> 1000000"
abbreviation (input) STEEM_VOTE_DUST_THRESHOLD :: int where "STEEM_VOTE_DUST_THRESHOLD \<equiv> 1000"
abbreviation (input) STEEM_MIN_ROOT_COMMENT_INTERVAL :: int where "STEEM_MIN_ROOT_COMMENT_INTERVAL \<equiv> 300"
abbreviation (input) STEEM_MIN_REPLY_INTERVAL :: int where "STEEM_MIN_REPLY_INTERVAL \<equiv> 3"
abbreviation (input) STEEM_POST_AVERAGE_WINDOW :: int where "STEEM_POST_AVERAGE_WINDOW \<equiv> 86400"
abbreviation (input) STEEM_POST_WEIGHT_CONSTANT :: int where "STEEM_POST_WEIGHT_CONSTANT \<equiv> 1600000000"
abbreviation (input) STEEM_MAX_ACCOUNT_WITNESS_VOTES :: int where "STEEM_MAX_ACCOUNT_WITNESS_VOTES \<equiv> 30"
abbreviation (input) STEEM_100_PERCENT :: int where "STEEM_100_PERCENT \<equiv> 10000"
abbreviation (input) STEEM_1_PERCENT :: int where "STEEM_1_PERCENT \<equiv> 100"
abbreviation (input) STEEM_DEFAULT_SBD_INTEREST_RATE :: int where "STEEM_DEFAULT_SBD_INTEREST_RATE \<equiv> 1000"
abbreviation (input) STEEM_INFLATION_RATE_START_PERCENT :: int where "STEEM_INFLATION_RATE_START_PERCENT \<equiv> 978"
abbreviation (input) STEEM_INFLATION_RATE_STOP_PERCENT :: int where "STEEM_INFLATION_RATE_STOP_PERCENT \<equiv> 95"
abbreviation (input) STEEM_INFLATION_NARROWING_PERIOD :: int where "STEEM_INFLATION_NARROWING_PERIOD \<equiv> 250000"
abbreviation (input) STEEM_CONTENT_REWARD_PERCENT :: int where "STEEM_CONTENT_REWARD_PERCENT \<equiv> 7500"
abbreviation (input) STEEM_VESTING_FUND_PERCENT :: int where "STEEM_VESTING_FUND_PERCENT \<equiv> 1500"
abbreviation (input) STEEM_MIN_REWARD_VESTING_SHARES :: int where "STEEM_MIN_REWARD_VESTING_SHARES \<equiv> 1000000000000"
abbreviation (input) STEEM_BOOTSTRAP_FIXED_BLOCK_REWARD :: int where "STEEM_BOOTSTRAP_FIXED_BLOCK_REWARD \<equiv> 10000"
abbreviation (input) STEEM_BOOTSTRAP_SUPPLY_THRESHOLD :: int where "STEEM_BOOTSTRAP_SUPPLY_THRESHOLD \<equiv> 100000000000"
abbreviation (input) STEEM_MAX_COMMENT_DEPTH :: int where "STEEM_MAX_COMMENT_DEPTH \<equiv> 65535"
abbreviation (input) STEEM_SOFT_MAX_COMMENT_DEPTH :: int where "STEEM_SOFT_MAX_COMMENT_DEPTH \<equiv> 255"
abbreviation (input) STEEM_CREATE_ACCOUNT_WITH_STEEM_MODIFIER :: int where "STEEM_CREATE_ACCOUNT_WITH_STEEM_MODIFIER \<equiv> 30"
abbreviation (input) STEEM_CREATE_ACCOUNT_DELEGATION_RATIO :: int where "STEEM_CREATE_ACCOUNT_DELEGATION_RATIO \<equiv> 5"
abbreviation (input) STEEM_CREATE_ACCOUNT_DELEGATION_TIME :: int where "STEEM_CREATE_ACCOUNT_DELEGATION_TIME \<equiv> 2592000"
abbreviation (input) STEEM_RECENT_RSHARES_DECAY_TIME :: int where "STEEM_RECENT_RSHARES_DECAY_TIME \<equiv> 1296000"
abbreviation (input) STEEM_CONTENT_CONSTANT :: int where "STEEM_CONTENT_CONSTANT \<equiv> 2000000000000"
abbreviation (input) STEEM_SBD_STOP_PERCENT :: int where "STEEM_SBD_STOP_PERCENT \<equiv> 500"
abbreviation (input) STEEM_SBD_START_PERCENT :: int where "STEEM_SBD_START_PERCENT \<equiv> 200"
abbreviation (input) STEEM_MIN_ACCOUNT_NAME_LENGTH :: nat where "STEEM_MIN_ACCOUNT_NAME_LENGTH \<equiv> 3"
abbreviation (input) STEEM_MAX_ACCOUNT_NAME_LENGTH :: nat where "STEEM_MAX_ACCOUNT_NAME_LENGTH \<equiv> 16"
abbreviation (input) STEEM_MIN_PERMLINK_LENGTH :: nat where "STEEM_MIN_PERMLINK_LENGTH \<equiv> 0"
abbreviation (input) STEEM_MAX_PERMLINK_LENGTH :: nat where "STEEM_MAX_PERMLINK_LENGTH \<equiv> 256"
abbreviation (input) STEEM_MAX_WITNESS_URL_LENGTH :: nat where "STEEM_MAX_WITNESS_URL_LENGTH \<equiv> 2048"
abbreviation (input) STEEM_MAX_SHARE_SUPPLY :: int where "STEEM_MAX_SHARE_SUPPLY \<equiv> 1000000000000000"
abbreviation (input) STEEM_MAX_SATOSHIS :: int where "STEEM_MAX_SATOSHIS \<equiv> 4611686018427387903"
abbreviation (input) STEEM_MAX_SIG_CHECK_DEPTH :: nat where "STEEM_MAX_SIG_CHECK_DEPTH \<equiv> 2"
abbreviation (input) STEEM_MAX_SIG_CHECK_ACCOUNTS :: nat where "STEEM_MAX_SIG_CHECK_ACCOUNTS \<equiv> 125"
abbreviation (input) STEEM_SECONDS_PER_YEAR :: int where "STEEM_SECONDS_PER_YEAR \<equiv> 31536000"
abbreviation (input) STEEM_SBD_INTEREST_COMPOUND_INTERVAL_SEC :: int where "STEEM_SBD_INTEREST_COMPOUND_INTERVAL_SEC \<equiv> 2592000"
abbreviation (input) STEEM_MAX_TRANSACTION_SIZE :: int where "STEEM_MAX_TRANSACTION_SIZE \<equiv> 65536"
abbreviation (input) STEEM_MIN_BLOCK_SIZE_LIMIT :: int where "STEEM_MIN_BLOCK_SIZE_LIMIT \<equiv> 65536"
abbreviation (input) STEEM_MAX_BLOCK_SIZE :: int where "STEEM_MAX_BLOCK_SIZE \<equiv> 393216000"
abbreviation (input) STEEM_SOFT_MAX_BLOCK_SIZE :: int where "STEEM_SOFT_MAX_BLOCK_SIZE \<equiv> 2097152"
abbreviation (input) STEEM_BLOCKS_PER_HOUR :: int where "STEEM_BLOCKS_PER_HOUR \<equiv> 1200"
abbreviation (input) STEEM_FEED_INTERVAL_BLOCKS :: int where "STEEM_FEED_INTERVAL_BLOCKS \<equiv> 1200"
abbreviation (input) STEEM_FEED_HISTORY_WINDOW :: nat where "STEEM_FEED_HISTORY_WINDOW \<equiv> 84"
abbreviation (input) STEEM_MAX_FEED_AGE_SECONDS :: int where "STEEM_MAX_FEED_AGE_SECONDS \<equiv> 604800"
abbreviation (input) STEEM_MIN_FEEDS :: nat where "STEEM_MIN_FEEDS \<equiv> 7"
abbreviation (input) STEEM_CONVERSION_DELAY :: int where "STEEM_CONVERSION_DELAY \<equiv> 302400"
abbreviation (input) STEEM_MAX_UNDO_HISTORY :: int where "STEEM_MAX_UNDO_HISTORY \<equiv> 10000"
abbreviation (input) STEEM_MAX_AUTHORITY_MEMBERSHIP :: nat where "STEEM_MAX_AUTHORITY_MEMBERSHIP \<equiv> 40"
abbreviation (input) STEEM_IRREVERSIBLE_THRESHOLD :: int where "STEEM_IRREVERSIBLE_THRESHOLD \<equiv> 7500"
abbreviation (input) STEEM_INITIAL_VOTE_POWER_RATE :: int where "STEEM_INITIAL_VOTE_POWER_RATE \<equiv> 40"
abbreviation (input) STEEM_MAX_LIMIT_ORDER_EXPIRATION :: int where "STEEM_MAX_LIMIT_ORDER_EXPIRATION \<equiv> 2419200"
abbreviation (input) STEEM_DELEGATION_RETURN_PERIOD :: int where "STEEM_DELEGATION_RETURN_PERIOD \<equiv> 864000"

abbreviation (input) STEEM_NULL_ACCOUNT :: string where "STEEM_NULL_ACCOUNT \<equiv> ''null''"
abbreviation (input) STEEM_TEMP_ACCOUNT :: string where "STEEM_TEMP_ACCOUNT \<equiv> ''temp''"
abbreviation (input) STEEM_PROXY_TO_SELF_ACCOUNT :: string where "STEEM_PROXY_TO_SELF_ACCOUNT \<equiv> []"
abbreviation (input) STEEM_ROOT_POST_PARENT :: string where "STEEM_ROOT_POST_PARENT \<equiv> []"
abbreviation (input) STEEM_GENESIS_WITNESS_NAME :: string where
  "STEEM_GENESIS_WITNESS_NAME \<equiv> ''genesis''"
abbreviation (input) STEEM_POST_REWARD_FUND_NAME :: string where
  "STEEM_POST_REWARD_FUND_NAME \<equiv> ''post''"

end
