(* ===== verification/Assets.thy ===== *)
theory Assets
  imports Config Complex_Main
begin

text \<open>
  Assets, asset symbols and prices: src/src/core/protocol/asset.cpp,
  src/src/core/protocol/include/steem/protocol/asset.hpp and asset_symbol.hpp.

  An asset symbol is its \<open>asset_num\<close>; an amount is a \<open>share_type\<close>, so every addition and
  subtraction is overflow-checked.  Byte streams are lists of bytes and a \<open>char*\<close> argument is the
  string before its terminating NUL.
\<close>

section \<open>Symbols\<close>

type_synonym asset_symbol_type = int

abbreviation (input) SMT_MAX_NAI :: int where "SMT_MAX_NAI \<equiv> 99999999"
abbreviation (input) SMT_MIN_NAI :: int where "SMT_MIN_NAI \<equiv> 1"
abbreviation (input) STEEM_NAI_SBD :: int where "STEEM_NAI_SBD \<equiv> 1"
abbreviation (input) STEEM_NAI_STEEM :: int where "STEEM_NAI_STEEM \<equiv> 2"
abbreviation (input) STEEM_NAI_VESTS :: int where "STEEM_NAI_VESTS \<equiv> 3"
abbreviation (input) STEEM_ASSET_MAX_DECIMALS :: int where "STEEM_ASSET_MAX_DECIMALS \<equiv> 12"

definition SBD_SYMBOL :: asset_symbol_type where "SBD_SYMBOL = (SMT_MAX_NAI + STEEM_NAI_SBD) * 16 + 3"
definition STEEM_SYMBOL :: asset_symbol_type where "STEEM_SYMBOL = (SMT_MAX_NAI + STEEM_NAI_STEEM) * 16 + 3"
definition VESTS_SYMBOL :: asset_symbol_type where "VESTS_SYMBOL = (SMT_MAX_NAI + STEEM_NAI_VESTS) * 16 + 6"

definition symbol_decimals :: "asset_symbol_type \<Rightarrow> int" where
  "symbol_decimals s = s mod 16"

definition symbol_validate :: "asset_symbol_type \<Rightarrow> unit res" where
  "symbol_validate s =
     fc_assert 259 (s = STEEM_SYMBOL \<or> s = SBD_SYMBOL \<or> s = VESTS_SYMBOL) (Inr ())"

definition is_vesting :: "asset_symbol_type \<Rightarrow> bool res" where
  "is_vesting s =
     (if s = STEEM_SYMBOL then Inr False
      else if s = SBD_SYMBOL then Inr False
      else if s = VESTS_SYMBOL then Inr True
      else Inl (Assert_exception 231))"

definition get_paired_symbol :: "asset_symbol_type \<Rightarrow> asset_symbol_type res" where
  "get_paired_symbol s =
     (if s = STEEM_SYMBOL then Inr VESTS_SYMBOL
      else if s = SBD_SYMBOL then Inr s
      else if s = VESTS_SYMBOL then Inr STEEM_SYMBOL
      else Inl (Assert_exception 246))"

section \<open>Numerical asset identifiers\<close>

definition damm_table :: "int list" where
  "damm_table =
    [ 0, 30, 10, 70, 50, 90, 80, 60, 40, 20,
     70,  0, 90, 20, 10, 50, 40, 80, 60, 30,
     40, 20,  0, 60, 80, 70, 10, 30, 50, 90,
     10, 70, 50,  0, 90, 80, 30, 40, 20, 60,
     60, 10, 20, 30,  0, 40, 50, 90, 70, 80,
     30, 60, 70, 40, 20,  0, 90, 50, 80, 10,
     50, 80, 60, 90, 70, 20,  0, 10, 30, 40,
     80, 90, 40, 50, 30, 60, 20,  0, 10, 70,
     90, 40, 30, 80, 60, 10, 70, 20,  0, 50,
     20, 50, 80, 10, 40, 30, 60, 70, 90,  0]"

definition damm_checksum_8digit :: "int \<Rightarrow> int res" where
  "damm_checksum_8digit v =
     fc_assert 128 (v < 100000000)
      (let q0 = v div 10;  d0 = v mod 10;
           q1 = q0 div 10; d1 = q0 mod 10;
           q2 = q1 div 10; d2 = q1 mod 10;
           q3 = q2 div 10; d3 = q2 mod 10;
           q4 = q3 div 10; d4 = q3 mod 10;
           q5 = q4 div 10; d5 = q4 mod 10;
           d6 = q5 mod 10; d7 = q5 div 10;
           x = damm_table ! nat d7;
           x = damm_table ! nat (x + d6);
           x = damm_table ! nat (x + d5);
           x = damm_table ! nat (x + d4);
           x = damm_table ! nat (x + d3);
           x = damm_table ! nat (x + d2);
           x = damm_table ! nat (x + d1);
           x = damm_table ! nat (x + d0)
       in Inr (x div 10))"

definition asset_num_from_nai :: "int \<Rightarrow> int \<Rightarrow> int res" where
  "asset_num_from_nai nai decimal_places =
     (let nai_check_digit = nai mod 10; nai_data_digits = nai div 10 in
      fc_assert 175 (SMT_MIN_NAI \<le> nai_data_digits \<and> nai_data_digits \<le> SMT_MAX_NAI)
      (bindE (damm_checksum_8digit nai_data_digits) (\<lambda>c.
       fc_assert 176 (nai_check_digit = c)
       (if nai_data_digits = STEEM_NAI_STEEM then
          fc_assert 181 (decimal_places = 3) (Inr STEEM_SYMBOL)
        else if nai_data_digits = STEEM_NAI_SBD then
          fc_assert 184 (decimal_places = 3) (Inr SBD_SYMBOL)
        else if nai_data_digits = STEEM_NAI_VESTS then
          fc_assert 187 (decimal_places = 6) (Inr VESTS_SYMBOL)
        else
          fc_assert 190 (decimal_places \<le> STEEM_ASSET_MAX_DECIMALS)
            (Inr (to_uint32 (nai_data_digits * 32 + 16 + decimal_places)))))))"

definition to_nai :: "asset_symbol_type \<Rightarrow> int res" where
  "to_nai s =
     bindE (if s = STEEM_SYMBOL then Inr STEEM_NAI_STEEM
            else if s = SBD_SYMBOL then Inr STEEM_NAI_SBD
            else if s = VESTS_SYMBOL then Inr STEEM_NAI_VESTS
            else Inl (Assert_exception 212)) (\<lambda>nai_data_digits.
     bindE (damm_checksum_8digit nai_data_digits) (\<lambda>nai_check_digit.
     Inr (nai_data_digits * 10 + nai_check_digit)))"

definition digit_char :: "int \<Rightarrow> char" where
  "digit_char d = char_of (nat (d + 48))"

definition is_digit :: "char \<Rightarrow> bool" where
  "is_digit c \<longleftrightarrow> 48 \<le> (of_char c :: nat) \<and> (of_char c :: nat) \<le> 57"

definition digit_val :: "char \<Rightarrow> int" where
  "digit_val c = int (of_char c) - 48"

definition to_nai_string :: "asset_symbol_type \<Rightarrow> string res" where
  "to_nai_string s =
     bindE (to_nai s) (\<lambda>x.
       Inr [CHR ''@'', CHR ''@'',
            digit_char (x div 100000000),
            digit_char (x div 10000000 mod 10), digit_char (x div 1000000 mod 10),
            digit_char (x div 100000 mod 10), digit_char (x div 10000 mod 10),
            digit_char (x div 1000 mod 10), digit_char (x div 100 mod 10),
            digit_char (x div 10 mod 10), digit_char (x mod 10)])"

definition is_space :: "char \<Rightarrow> bool" where
  "is_space c \<longleftrightarrow> c = CHR '' '' \<or> c = CHR 0x09 \<or> c = CHR 0x0A \<or> c = CHR 0x0D"

fun parse_nai_digits :: "string \<Rightarrow> int \<Rightarrow> nat \<Rightarrow> (int \<times> nat \<times> string) res" where
  "parse_nai_digits [] nai n = Inr (nai, n, [])"
| "parse_nai_digits (c # p) nai n =
     (if is_digit c then
        (let new_nai = to_uint64 (nai * 10 + digit_val c) in
         fc_assert 83 (new_nai \<ge> nai)
         (fc_assert 84 (new_nai \<le> SMT_MAX_NAI)
          (parse_nai_digits p new_nai (n + 1))))
      else Inr (nai, n, c # p))"

definition from_nai_string :: "string \<Rightarrow> int \<Rightarrow> asset_symbol_type res" where
  "from_nai_string p decimal_places =
     (case dropWhile is_space p of
        [] \<Rightarrow> Inl (Assert_exception 100)
      | c # q \<Rightarrow>
          if c \<noteq> CHR ''@'' then Inl (Assert_exception 100)
          else (case q of [] \<Rightarrow> Inl (Assert_exception 71)
            | d # r \<Rightarrow>
                fc_assert 71 (d = CHR ''@'')
                (bindE (parse_nai_digits r 0 0) (\<lambda>(nai, digit_count, rest).
                 fc_assert 95 (digit_count = 9)
                 (bindE (asset_num_from_nai (to_uint32 nai) decimal_places) (\<lambda>asset_num.
                  fc_assert 114 (dropWhile is_space rest = [])
                  (Inr asset_num)))))))"

section \<open>Serialization of symbols\<close>

definition VESTS_SYMBOL_U64 :: int where
  "VESTS_SYMBOL_U64 = 86 + 69 * 2^8 + 83 * 2^16 + 84 * 2^24 + 83 * 2^32"
definition STEEM_SYMBOL_U64 :: int where
  "STEEM_SYMBOL_U64 = 83 + 84 * 2^8 + 69 * 2^16 + 69 * 2^24 + 77 * 2^32"
definition SBD_SYMBOL_U64 :: int where
  "SBD_SYMBOL_U64 = 83 + 66 * 2^8 + 68 * 2^16"

definition VESTS_SYMBOL_SER :: int where "VESTS_SYMBOL_SER = 6 + VESTS_SYMBOL_U64 * 2^8"
definition STEEM_SYMBOL_SER :: int where "STEEM_SYMBOL_SER = 3 + STEEM_SYMBOL_U64 * 2^8"
definition SBD_SYMBOL_SER :: int where "SBD_SYMBOL_SER = 3 + SBD_SYMBOL_U64 * 2^8"

fun le_bytes :: "nat \<Rightarrow> int \<Rightarrow> int list" where
  "le_bytes 0 x = []"
| "le_bytes (Suc n) x = x mod 256 # le_bytes n (x div 256)"

fun of_le_bytes :: "int list \<Rightarrow> int" where
  "of_le_bytes [] = 0"
| "of_le_bytes (b # bs) = b + 256 * of_le_bytes bs"

definition read_bytes :: "nat \<Rightarrow> int list \<Rightarrow> (int list \<times> int list) res" where
  "read_bytes n s = (if n \<le> length s then Inr (take n s, drop n s) else Inl Out_of_range)"

definition pack_symbol :: "asset_symbol_type \<Rightarrow> int list res" where
  "pack_symbol s =
     bindE (if s = STEEM_SYMBOL then Inr STEEM_SYMBOL_SER
            else if s = SBD_SYMBOL then Inr SBD_SYMBOL_SER
            else if s = VESTS_SYMBOL then Inr VESTS_SYMBOL_SER
            else Inl (Assert_exception 142)) (\<lambda>ser. Inr (le_bytes 8 ser))"

definition unpack_symbol :: "int list \<Rightarrow> (asset_symbol_type \<times> int list) res" where
  "unpack_symbol s =
     bindE (read_bytes 4 s) (\<lambda>(b, s1).
       let ser = of_le_bytes b;
           rest = (\<lambda>full line num.
             bindE (read_bytes 4 s1) (\<lambda>(b', s2).
               fc_assert line (ser + 2^32 * of_le_bytes b' = full) (Inr (num, s2))))
       in bindE
            (if ser = STEEM_SYMBOL_SER mod 2^32 then rest STEEM_SYMBOL_SER 157 STEEM_SYMBOL
             else if ser = SBD_SYMBOL_SER mod 2^32 then rest SBD_SYMBOL_SER 162 SBD_SYMBOL
             else if ser = VESTS_SYMBOL_SER mod 2^32 then rest VESTS_SYMBOL_SER 167 VESTS_SYMBOL
             else Inr (to_uint32 ser, s1)) (\<lambda>(num, s2).
          bindE (symbol_validate num) (\<lambda>_. Inr (num, s2))))"

section \<open>Assets\<close>

record asset =
  amount :: int
  symbol :: asset_symbol_type

definition mk_asset :: "int \<Rightarrow> asset_symbol_type \<Rightarrow> asset" where
  "mk_asset a s = \<lparr> amount = a, symbol = s \<rparr>"

definition asset_add :: "asset \<Rightarrow> asset \<Rightarrow> asset res" where
  "asset_add a b =
     fc_assert 80 (symbol a = symbol b)
      (bindE (safe_add (amount a) (amount b)) (\<lambda>x. Inr \<lparr> amount = x, symbol = symbol a \<rparr>))"

definition asset_sub :: "asset \<Rightarrow> asset \<Rightarrow> asset res" where
  "asset_sub a b =
     fc_assert 75 (symbol a = symbol b)
      (bindE (safe_sub (amount a) (amount b)) (\<lambda>x. Inr \<lparr> amount = x, symbol = symbol a \<rparr>))"

definition asset_neg :: "asset \<Rightarrow> asset res" where
  "asset_neg a = bindE (safe_neg (amount a)) (\<lambda>x. Inr \<lparr> amount = x, symbol = symbol a \<rparr>)"

definition asset_lt :: "asset \<Rightarrow> asset \<Rightarrow> bool res" where
  "asset_lt a b = fc_assert 45 (symbol a = symbol b) (Inr (amount a < amount b))"

definition asset_le :: "asset \<Rightarrow> asset \<Rightarrow> bool res" where
  "asset_le a b = fc_assert 51 (symbol a = symbol b) (Inr (amount a \<le> amount b))"

definition asset_ne :: "asset \<Rightarrow> asset \<Rightarrow> bool res" where
  "asset_ne a b = fc_assert 57 (symbol a = symbol b) (Inr (amount a \<noteq> amount b))"

definition asset_gt :: "asset \<Rightarrow> asset \<Rightarrow> bool res" where
  "asset_gt a b = fc_assert 63 (symbol a = symbol b) (Inr (amount a > amount b))"

definition asset_ge :: "asset \<Rightarrow> asset \<Rightarrow> bool res" where
  "asset_ge a b = fc_assert 69 (symbol a = symbol b) (Inr (amount a \<ge> amount b))"

definition asset_validate :: "asset \<Rightarrow> unit res" where
  "asset_validate a =
     bindE (symbol_validate (symbol a)) (\<lambda>_.
     fc_assert 266 (amount a \<ge> 0)
     (fc_assert 267 (amount a \<le> STEEM_MAX_SATOSHIS) (Inr ())))"

section \<open>Prices\<close>

record price =
  base :: asset
  quote :: asset

definition default_price :: price where
  "default_price = \<lparr> base = mk_asset 0 STEEM_SYMBOL, quote = mk_asset 0 STEEM_SYMBOL \<rparr>"

definition price_validate :: "price \<Rightarrow> unit res" where
  "price_validate p =
     fc_assert 324 (amount (base p) > 0)
     (fc_assert 325 (amount (quote p) > 0)
     (fc_assert 326 (symbol (base p) \<noteq> symbol (quote p)) (Inr ())))"

definition mk_price :: "asset \<Rightarrow> asset \<Rightarrow> price res" where
  "mk_price b q =
     bindE (price_validate \<lparr> base = b, quote = q \<rparr>) (\<lambda>_. Inr \<lparr> base = b, quote = q \<rparr>)"

definition asset_div :: "asset \<Rightarrow> asset \<Rightarrow> price res" where
  "asset_div b q = fc_assert 313 (symbol b \<noteq> symbol q) (mk_price b q)"

definition BQ :: "price \<Rightarrow> asset_symbol_type \<times> asset_symbol_type" where
  "BQ p = (symbol (base p), symbol (quote p))"

definition BQ_lt :: "price \<Rightarrow> price \<Rightarrow> bool" where
  "BQ_lt a b \<longleftrightarrow> fst (BQ a) < fst (BQ b) \<or> (fst (BQ a) = fst (BQ b) \<and> snd (BQ a) < snd (BQ b))"

definition price_amult :: "price \<Rightarrow> price \<Rightarrow> int" where
  "price_amult a b = to_uint128 (to_uint128 (amount (quote b)) * to_uint128 (amount (base a)))"

definition price_bmult :: "price \<Rightarrow> price \<Rightarrow> int" where
  "price_bmult a b = to_uint128 (to_uint128 (amount (quote a)) * to_uint128 (amount (base b)))"

definition price_eq :: "price \<Rightarrow> price \<Rightarrow> bool" where
  "price_eq a b = (if BQ a \<noteq> BQ b then False else price_amult a b = price_bmult a b)"

definition price_lt :: "price \<Rightarrow> price \<Rightarrow> bool" where
  "price_lt a b = (if BQ a \<noteq> BQ b then BQ_lt a b else price_amult a b < price_bmult a b)"

definition price_le :: "price \<Rightarrow> price \<Rightarrow> bool" where
  "price_le a b = (if BQ a \<noteq> BQ b then BQ_lt a b else price_amult a b \<le> price_bmult a b)"

definition price_gt :: "price \<Rightarrow> price \<Rightarrow> bool" where
  "price_gt a b = (if BQ a \<noteq> BQ b then BQ_lt b a else price_amult a b > price_bmult a b)"

definition price_ge :: "price \<Rightarrow> price \<Rightarrow> bool" where
  "price_ge a b = (if BQ a \<noteq> BQ b then BQ_lt b a else price_amult a b \<ge> price_bmult a b)"

definition price_max :: "asset_symbol_type \<Rightarrow> asset_symbol_type \<Rightarrow> price res" where
  "price_max b q = asset_div (mk_asset STEEM_MAX_SATOSHIS b) (mk_asset 1 q)"

definition price_min :: "asset_symbol_type \<Rightarrow> asset_symbol_type \<Rightarrow> price res" where
  "price_min b q = asset_div (mk_asset 1 b) (mk_asset STEEM_MAX_SATOSHIS q)"

definition price_is_null :: "price \<Rightarrow> bool" where
  "price_is_null p = price_eq p default_price"

text \<open>\<open>asset * price\<close>.  The 64-bit result is converted to the signed \<open>share_type\<close>.\<close>

definition scale_amount :: "int \<Rightarrow> int \<Rightarrow> int \<Rightarrow> int" where
  "scale_amount a n d = to_uint128 (to_uint128 a * to_uint128 n) div to_uint128 d"

definition asset_mul_price :: "asset \<Rightarrow> price \<Rightarrow> asset res" where
  "asset_mul_price a b =
     (if symbol a = symbol (base b) then
        fc_assert 296 (amount (base b) > 0)
        (let result = scale_amount (amount a) (amount (quote b)) (amount (base b)) in
         fc_assert 298 (result < two64)
         (Inr \<lparr> amount = to_int64 result, symbol = symbol (quote b) \<rparr>))
      else if symbol a = symbol (quote b) then
        fc_assert 303 (amount (quote b) > 0)
        (let result = scale_amount (amount a) (amount (base b)) (amount (quote b)) in
         fc_assert 305 (result < two64)
         (Inr \<lparr> amount = to_int64 result, symbol = symbol (base b) \<rparr>))
      else Inl (Assert_exception 308))"

section \<open>Lemmas on symbols and checked asset arithmetic\<close>

lemma symbols_distinct [simp]:
  "STEEM_SYMBOL \<noteq> SBD_SYMBOL" "SBD_SYMBOL \<noteq> STEEM_SYMBOL" "STEEM_SYMBOL \<noteq> VESTS_SYMBOL"
  "VESTS_SYMBOL \<noteq> STEEM_SYMBOL" "SBD_SYMBOL \<noteq> VESTS_SYMBOL" "VESTS_SYMBOL \<noteq> SBD_SYMBOL"
  by (simp_all add: STEEM_SYMBOL_def SBD_SYMBOL_def VESTS_SYMBOL_def)

lemma mk_asset_sel [simp]: "amount (mk_asset a s) = a" "symbol (mk_asset a s) = s"
  by (simp_all add: mk_asset_def)

lemma asset_add_value:
  "asset_add a b = Inr c \<Longrightarrow> symbol b = symbol a \<and> symbol c = symbol a \<and> amount c = amount a + amount b"
  by (auto simp: asset_add_def res_simps dest: safe_add_value)

lemma asset_sub_value:
  "asset_sub a b = Inr c \<Longrightarrow> symbol b = symbol a \<and> symbol c = symbol a \<and> amount c = amount a - amount b"
  by (auto simp: asset_sub_def res_simps dest: safe_sub_value)

lemma asset_neg_value:
  "asset_neg a = Inr c \<Longrightarrow> symbol c = symbol a \<and> amount c = - amount a"
  by (auto simp: asset_neg_def res_simps dest: safe_neg_value)

lemma asset_cmp_Inr [res_simps]:
  "asset_lt a b = Inr c \<longleftrightarrow> symbol a = symbol b \<and> c = (amount a < amount b)"
  "asset_le a b = Inr c \<longleftrightarrow> symbol a = symbol b \<and> c = (amount a \<le> amount b)"
  "asset_gt a b = Inr c \<longleftrightarrow> symbol a = symbol b \<and> c = (amount a > amount b)"
  "asset_ge a b = Inr c \<longleftrightarrow> symbol a = symbol b \<and> c = (amount a \<ge> amount b)"
  "asset_ne a b = Inr c \<longleftrightarrow> symbol a = symbol b \<and> c = (amount a \<noteq> amount b)"
  by (auto simp: asset_lt_def asset_le_def asset_gt_def asset_ge_def asset_ne_def res_simps)

lemma asset_validate_Inr [res_simps]:
  "asset_validate a = Inr u \<longleftrightarrow>
     symbol a \<in> {STEEM_SYMBOL, SBD_SYMBOL, VESTS_SYMBOL} \<and> 0 \<le> amount a \<and> amount a \<le> STEEM_MAX_SATOSHIS"
  by (auto simp: asset_validate_def symbol_validate_def res_simps)

lemma mk_price_Inr [res_simps]:
  "mk_price b q = Inr p \<longleftrightarrow>
     0 < amount b \<and> 0 < amount q \<and> symbol b \<noteq> symbol q \<and> p = \<lparr> base = b, quote = q \<rparr>"
  by (auto simp: mk_price_def price_validate_def res_simps)

section \<open>Prices as ratios\<close>

definition price_ok :: "price \<Rightarrow> bool" where
  "price_ok p \<longleftrightarrow> 0 < amount (base p) \<and> amount (base p) \<le> int64_max \<and>
     0 < amount (quote p) \<and> amount (quote p) \<le> int64_max \<and> symbol (base p) \<noteq> symbol (quote p)"

definition price_ratio :: "price \<Rightarrow> real" where
  "price_ratio p = real_of_int (amount (base p)) / real_of_int (amount (quote p))"

lemma mult_int64_lt:
  fixes a b :: int
  assumes "0 \<le> a" "a \<le> int64_max" "0 \<le> b" "b \<le> int64_max"
  shows "0 \<le> a * b" "a * b < two128"
proof -
  show "0 \<le> a * b" using assms by simp
  have "a * b \<le> int64_max * int64_max" using assms by (intro mult_mono) simp_all
  also have "\<dots> < two128" by simp
  finally show "a * b < two128" .
qed

lemma price_mults:
  assumes "price_ok a" "price_ok b"
  shows "price_amult a b = amount (quote b) * amount (base a)"
    and "price_bmult a b = amount (quote a) * amount (base b)"
  using assms mult_int64_lt[of "amount (quote b)" "amount (base a)"]
    mult_int64_lt[of "amount (quote a)" "amount (base b)"]
  by (simp_all add: price_ok_def price_amult_def price_bmult_def)

lemma ratio_less_iff:
  fixes a b c d :: int
  assumes "0 < b" "0 < d"
  shows "real_of_int a / real_of_int b < real_of_int c / real_of_int d \<longleftrightarrow> d * a < b * c"
proof -
  have "real_of_int a / real_of_int b < real_of_int c / real_of_int d
      \<longleftrightarrow> real_of_int a * real_of_int d < real_of_int c * real_of_int b"
    using assms by (simp add: field_simps)
  also have "\<dots> \<longleftrightarrow> d * a < b * c"
    by (simp flip: of_int_mult add: mult.commute)
  finally show ?thesis .
qed

lemma price_lt_ratio:
  assumes "price_ok a" "price_ok b" "BQ a = BQ b"
  shows "price_lt a b \<longleftrightarrow> price_ratio a < price_ratio b"
  using assms
  by (simp add: price_lt_def price_mults price_ratio_def ratio_less_iff price_ok_def)

lemma price_eq_ratio:
  assumes "price_ok a" "price_ok b" "BQ a = BQ b"
  shows "price_eq a b \<longleftrightarrow> price_ratio a = price_ratio b"
proof -
  have "price_eq a b \<longleftrightarrow> \<not> price_lt a b \<and> \<not> price_lt b a"
    using assms by (auto simp: price_eq_def price_lt_def price_mults mult.commute)
  also have "\<dots> \<longleftrightarrow> price_ratio a = price_ratio b"
    using price_lt_ratio[OF assms] price_lt_ratio[OF assms(2,1) assms(3)[symmetric]] by auto
  finally show ?thesis .
qed

lemma price_derived_comparisons:
  assumes "price_ok a" "price_ok b"
  shows "price_gt a b \<longleftrightarrow> price_lt b a" "price_le a b \<longleftrightarrow> price_lt a b \<or> price_eq a b"
    "price_ge a b \<longleftrightarrow> price_lt b a \<or> price_eq a b"
  using assms
  by (auto simp: price_gt_def price_ge_def price_le_def price_lt_def price_eq_def price_mults
      mult.commute)

section \<open>Conversion of amounts\<close>

lemma scale_amount_nonneg:
  assumes "0 \<le> a" "a \<le> int64_max" "0 \<le> n" "n \<le> int64_max" "0 < d" "d \<le> int64_max"
  shows "scale_amount a n d = a * n div d"
  using assms mult_int64_lt[of a n] by (simp add: scale_amount_def)

lemma to_int64_eq: "0 \<le> x \<Longrightarrow> x < two64 \<Longrightarrow> to_int64 x = (if x \<le> int64_max then x else x - two64)"
proof -
  assume x: "0 \<le> x" "x < two64"
  show ?thesis
  proof (cases "x \<le> int64_max")
    case True
    with x show ?thesis by (simp add: in_int64_def)
  next
    case False
    have "(x + 9223372036854775808) mod two64 = (x + 9223372036854775808 - two64) mod two64"
      by (metis minus_mod_self2)
    also have "\<dots> = x + 9223372036854775808 - two64"
      using False x by (intro mod_pos_pos_trivial) simp_all
    finally show ?thesis using False by (simp add: to_int64_def)
  qed
qed

lemma asset_mul_price_base:
  assumes "price_ok p" "symbol a = symbol (base p)" "0 \<le> amount a" "amount a \<le> int64_max"
  shows "asset_mul_price a p =
    (let r = amount a * amount (quote p) div amount (base p) in
     if r < two64 then Inr \<lparr> amount = (if r \<le> int64_max then r else r - two64), symbol = symbol (quote p) \<rparr>
     else Inl (Assert_exception 298))"
proof -
  have "0 \<le> amount a * amount (quote p) div amount (base p)"
    using assms by (simp add: price_ok_def pos_imp_zdiv_nonneg_iff)
  then show ?thesis
    using assms by (simp add: asset_mul_price_def price_ok_def scale_amount_nonneg to_int64_eq Let_def)
qed

lemma asset_mul_price_quote:
  assumes "price_ok p" "symbol a = symbol (quote p)" "0 \<le> amount a" "amount a \<le> int64_max"
  shows "asset_mul_price a p =
    (let r = amount a * amount (base p) div amount (quote p) in
     if r < two64 then Inr \<lparr> amount = (if r \<le> int64_max then r else r - two64), symbol = symbol (base p) \<rparr>
     else Inl (Assert_exception 305))"
proof -
  have "0 \<le> amount a * amount (base p) div amount (quote p)"
    using assms by (simp add: price_ok_def pos_imp_zdiv_nonneg_iff)
  then show ?thesis
    using assms by (auto simp: asset_mul_price_def price_ok_def scale_amount_nonneg to_int64_eq Let_def)
qed

lemma asset_mul_price_symbol:
  "asset_mul_price a p = Inr r \<Longrightarrow>
     (symbol a = symbol (base p) \<and> symbol r = symbol (quote p)) \<or>
     (symbol a = symbol (quote p) \<and> symbol r = symbol (base p))"
  by (auto simp: asset_mul_price_def res_simps Let_def split: if_splits)

lemma floor_back_le:
  fixes a n d :: int
  assumes "0 < n" "0 < d"
  shows "(a * n div d) * d div n \<le> a"
proof -
  have "(a * n div d) * d \<le> a * n"
    using assms by (simp add: minus_mod_eq_div_mult[symmetric])
  then have "(a * n div d) * d div n \<le> a * n div n" using assms by (intro zdiv_mono1) auto
  also have "\<dots> = a" using assms by simp
  finally show ?thesis .
qed

section \<open>The check digit of numerical asset identifiers\<close>

definition damm_step :: "int \<Rightarrow> int \<Rightarrow> int" where
  "damm_step x d = damm_table ! nat (x + d)"

definition damm_states :: "int list" where
  "damm_states = [0, 10, 20, 30, 40, 50, 60, 70, 80, 90]"

definition dec_digits :: "int list" where
  "dec_digits = [0, 1, 2, 3, 4, 5, 6, 7, 8, 9]"

definition nai_of_digits :: "int list \<Rightarrow> int" where
  "nai_of_digits = foldl (\<lambda>a d. a * 10 + d) 0"

lemma dec_digits_iff: "d \<in> set dec_digits \<longleftrightarrow> 0 \<le> d \<and> d < 10"
  by (simp add: dec_digits_def) presburger

lemma damm_rows:
  "\<forall>x\<in>set damm_states. distinct (map (damm_step x) dec_digits) \<and>
     (\<forall>d\<in>set dec_digits. damm_step x d \<in> set damm_states) \<and> damm_step x (x div 10) = 0"
  by code_simp

lemma damm_columns:
  "\<forall>d\<in>set dec_digits. distinct (map (\<lambda>x. damm_step x d) damm_states)"
  by code_simp

lemma damm_antisym:
  "\<forall>x\<in>set damm_states. \<forall>a\<in>set dec_digits. \<forall>b\<in>set dec_digits.
     damm_step (damm_step x a) b = damm_step (damm_step x b) a \<longrightarrow> a = b"
  by code_simp

lemma damm_step_state: "x \<in> set damm_states \<Longrightarrow> d \<in> set dec_digits \<Longrightarrow> damm_step x d \<in> set damm_states"
  using damm_rows by blast

lemma damm_inj_digit:
  "x \<in> set damm_states \<Longrightarrow> a \<in> set dec_digits \<Longrightarrow> b \<in> set dec_digits \<Longrightarrow>
   damm_step x a = damm_step x b \<longleftrightarrow> a = b"
  using damm_rows by (auto simp: distinct_map dest: inj_onD)

lemma damm_inj_state:
  "x \<in> set damm_states \<Longrightarrow> y \<in> set damm_states \<Longrightarrow> d \<in> set dec_digits \<Longrightarrow>
   damm_step x d = damm_step y d \<longleftrightarrow> x = y"
  using damm_columns by (auto simp: distinct_map dest: inj_onD)

lemma damm_states_div: "x \<in> set damm_states \<Longrightarrow> x div 10 \<in> set dec_digits"
  by (auto simp: damm_states_def dec_digits_def)

lemma damm_step_0: "x \<in> set damm_states \<Longrightarrow> d \<in> set dec_digits \<Longrightarrow> damm_step x d = 0 \<longleftrightarrow> d = x div 10"
  using damm_rows damm_inj_digit[of x d "x div 10"] damm_states_div[of x] by auto

lemma damm_fold_state:
  "set ds \<subseteq> set dec_digits \<Longrightarrow> x \<in> set damm_states \<Longrightarrow> foldl damm_step x ds \<in> set damm_states"
  by (induction ds arbitrary: x) (simp_all add: damm_step_state)

lemma damm_fold_inj:
  "set ds \<subseteq> set dec_digits \<Longrightarrow> x \<in> set damm_states \<Longrightarrow> y \<in> set damm_states \<Longrightarrow>
   foldl damm_step x ds = foldl damm_step y ds \<longleftrightarrow> x = y"
  by (induction ds arbitrary: x y) (simp_all add: damm_step_state damm_inj_state)

lemma zero_state [simp]: "0 \<in> set damm_states"
  by (simp add: damm_states_def)

lemma nai_of_digits_snoc: "nai_of_digits (ds @ [d]) = nai_of_digits ds * 10 + d"
  by (simp add: nai_of_digits_def)

lemma nai_of_digits_bound:
  "set ds \<subseteq> set dec_digits \<Longrightarrow> 0 \<le> nai_of_digits ds \<and> nai_of_digits ds < 10 ^ length ds"
proof (induction ds rule: rev_induct)
  case (snoc d ds)
  then show ?case by (simp add: nai_of_digits_snoc dec_digits_iff)
qed (simp add: nai_of_digits_def)

lemma length_8_snoc: "length ds = 8 \<Longrightarrow> \<exists>a b c d e f g h. ds = [a, b, c, d, e, f, g, h]"
  by (simp add: numeral_eq_Suc length_Suc_conv) blast

lemma damm_checksum_fold:
  assumes "length ds = 8" "set ds \<subseteq> set dec_digits"
  shows "damm_checksum_8digit (nai_of_digits ds) = Inr (foldl damm_step 0 ds div 10)"
proof -
  have lt: "nai_of_digits ds < 100000000" using nai_of_digits_bound[OF assms(2)] assms(1) by simp
  from length_8_snoc[OF assms(1)] obtain a b c d e f g h where ds: "ds = [a, b, c, d, e, f, g, h]" by blast
  have r: "0 \<le> a" "a < 10" "0 \<le> b" "b < 10" "0 \<le> c" "c < 10" "0 \<le> d" "d < 10" "0 \<le> e" "e < 10"
    "0 \<le> f" "f < 10" "0 \<le> g" "g < 10" "0 \<le> h" "h < 10"
    using assms(2) by (auto simp: ds dec_digits_iff)
  have v: "nai_of_digits ds = ((((((a * 10 + b) * 10 + c) * 10 + d) * 10 + e) * 10 + f) * 10 + g) * 10 + h"
    by (simp add: ds nai_of_digits_def)
  have q: "(x * 10 + y) div 10 = x" "(x * 10 + y) mod 10 = y" if "0 \<le> y" "y < 10" for x y :: int
    using that by simp_all
  show ?thesis
    using lt unfolding damm_checksum_8digit_def v Let_def
    by (simp only: q r fc_assert_True) (simp add: ds damm_step_def)
qed

lemma asset_num_from_nai_check:
  assumes "length ds = 9" "set ds \<subseteq> set dec_digits" "isOK (asset_num_from_nai (nai_of_digits ds) p)"
  shows "foldl damm_step 0 ds = 0"
proof -
  from assms(1) obtain xs c where ds: "ds = xs @ [c]" and len: "length xs = 8"
    by (cases ds rule: rev_cases) simp_all
  have sub: "set xs \<subseteq> set dec_digits" "c \<in> set dec_digits" using assms(2) by (auto simp: ds)
  then have c: "0 \<le> c" "c < 10" by (simp_all add: dec_digits_iff)
  have "c = foldl damm_step 0 xs div 10"
    using assms(3) c unfolding ds nai_of_digits_snoc asset_num_from_nai_def Let_def
    by (auto simp: damm_checksum_fold[OF len sub(1)] isOK_iff res_simps)
  then show ?thesis
    using damm_step_0[OF damm_fold_state[OF sub(1) zero_state] sub(2)] by (simp add: ds)
qed

section \<open>Properties\<close>

text \<open>C19. The comparison operators of prices, which cross-multiply in 128 bits, order valid prices of
  one market exactly as the rational numbers base / quote, and the derived operators are consistent
  with \<open>operator <\<close> and \<open>operator ==\<close>.\<close>

theorem price_comparison_is_rational_order:
  assumes "price_ok a" "price_ok b" "BQ a = BQ b"
  shows "(price_lt a b \<longleftrightarrow> price_ratio a < price_ratio b) \<and>
         (price_eq a b \<longleftrightarrow> price_ratio a = price_ratio b) \<and>
         (price_gt a b \<longleftrightarrow> price_ratio a > price_ratio b) \<and>
         (price_le a b \<longleftrightarrow> price_ratio a \<le> price_ratio b) \<and>
         (price_ge a b \<longleftrightarrow> price_ratio a \<ge> price_ratio b)"
  using price_lt_ratio[OF assms] price_lt_ratio[OF assms(2,1) assms(3)[symmetric]]
    price_eq_ratio[OF assms] price_derived_comparisons[OF assms(1,2)] by auto

theorem price_comparison_is_rational_order_witness:
  "price_lt \<lparr> base = mk_asset 2 STEEM_SYMBOL, quote = mk_asset 3 SBD_SYMBOL \<rparr>
            \<lparr> base = mk_asset 3 STEEM_SYMBOL, quote = mk_asset 4 SBD_SYMBOL \<rparr>"
  using price_comparison_is_rational_order[of
      "\<lparr> base = mk_asset 2 STEEM_SYMBOL, quote = mk_asset 3 SBD_SYMBOL \<rparr>"
      "\<lparr> base = mk_asset 3 STEEM_SYMBOL, quote = mk_asset 4 SBD_SYMBOL \<rparr>"]
  by (simp add: price_ok_def BQ_def price_ratio_def)






lemma symbol_bytes:
  "pack_symbol STEEM_SYMBOL = Inr [3, 83, 84, 69, 69, 77, 0, 0]"
  "pack_symbol SBD_SYMBOL = Inr [3, 83, 66, 68, 0, 0, 0, 0]"
  "pack_symbol VESTS_SYMBOL = Inr [6, 86, 69, 83, 84, 83, 0, 0]"
  by code_simp+

lemmas symbol_sers = STEEM_SYMBOL_SER_def STEEM_SYMBOL_U64_def SBD_SYMBOL_SER_def SBD_SYMBOL_U64_def
  VESTS_SYMBOL_SER_def VESTS_SYMBOL_U64_def

lemma symbol_unpack:
  "unpack_symbol ([3, 83, 84, 69, 69, 77, 0, 0] @ rest) = Inr (STEEM_SYMBOL, rest)"
  "unpack_symbol ([3, 83, 66, 68, 0, 0, 0, 0] @ rest) = Inr (SBD_SYMBOL, rest)"
  "unpack_symbol ([6, 86, 69, 83, 84, 83, 0, 0] @ rest) = Inr (VESTS_SYMBOL, rest)"
  by (simp_all add: unpack_symbol_def read_bytes_def symbol_sers symbol_validate_def Let_def)

lemma symbol_nai:
  "to_nai_string STEEM_SYMBOL = Inr ''@@000000021'' \<and>
   from_nai_string ''@@000000021'' (symbol_decimals STEEM_SYMBOL) = Inr STEEM_SYMBOL"
  "to_nai_string SBD_SYMBOL = Inr ''@@000000013'' \<and>
   from_nai_string ''@@000000013'' (symbol_decimals SBD_SYMBOL) = Inr SBD_SYMBOL"
  "to_nai_string VESTS_SYMBOL = Inr ''@@000000037'' \<and>
   from_nai_string ''@@000000037'' (symbol_decimals VESTS_SYMBOL) = Inr VESTS_SYMBOL"
  by code_simp+

text \<open>C24. The three symbols of the chain survive their encodings: unpacking what was packed returns
  the symbol and the rest of the stream, and parsing the printed NAI with the symbol's precision
  returns the symbol.\<close>

theorem symbol_roundtrips:
  "\<forall>s\<in>{STEEM_SYMBOL, SBD_SYMBOL, VESTS_SYMBOL}.
     (\<exists>bs. pack_symbol s = Inr bs \<and> length bs = 8 \<and> unpack_symbol (bs @ rest) = Inr (s, rest)) \<and>
     (\<exists>str. to_nai_string s = Inr str \<and> from_nai_string str (symbol_decimals s) = Inr s)"
  using symbol_unpack[of rest] symbol_nai by (auto simp: symbol_bytes)

theorem symbol_roundtrips_witness:
  "\<exists>bs. pack_symbol SBD_SYMBOL = Inr bs \<and> unpack_symbol (bs @ [7]) = Inr (SBD_SYMBOL, [7])"
  using symbol_roundtrips[of "[7]"] by blast

text \<open>C23. The check digit of a numerical asset identifier catches typing errors: when a nine-digit NAI
  is accepted, the NAI with one digit replaced and the NAI with two neighbouring different digits
  swapped are both refused.\<close>

theorem nai_typing_errors_refused:
  assumes "length ds = 9" "set ds \<subseteq> set dec_digits" "isOK (asset_num_from_nai (nai_of_digits ds) p)"
    and "us @ x # vs = ds" "e \<in> set dec_digits" "e \<noteq> x"
    and "us' @ y # z # vs' = ds" "y \<noteq> z"
  shows "\<not> isOK (asset_num_from_nai (nai_of_digits (us @ e # vs)) q) \<and>
         \<not> isOK (asset_num_from_nai (nai_of_digits (us' @ z # y # vs')) q)"
proof -
  have f: "foldl damm_step 0 ds = 0" by (rule asset_num_from_nai_check[OF assms(1-3)])
  have s1: "set us \<subseteq> set dec_digits" "x \<in> set dec_digits" "set vs \<subseteq> set dec_digits"
    using assms(2,4) by auto
  have s2: "set us' \<subseteq> set dec_digits" "y \<in> set dec_digits" "z \<in> set dec_digits" "set vs' \<subseteq> set dec_digits"
    using assms(2,7) by auto
  note st = damm_fold_state[OF _ zero_state] damm_step_state
  have "foldl damm_step 0 (us @ e # vs) \<noteq> 0"
  proof
    assume "foldl damm_step 0 (us @ e # vs) = 0"
    with f have "foldl damm_step (damm_step (foldl damm_step 0 us) e) vs
        = foldl damm_step (damm_step (foldl damm_step 0 us) x) vs" by (simp flip: assms(4))
    with s1 assms(5,6) show False
      by (simp add: damm_fold_inj st damm_inj_digit)
  qed
  moreover have "foldl damm_step 0 (us' @ z # y # vs') \<noteq> 0"
  proof
    assume "foldl damm_step 0 (us' @ z # y # vs') = 0"
    with f have "foldl damm_step (damm_step (damm_step (foldl damm_step 0 us') z) y) vs'
        = foldl damm_step (damm_step (damm_step (foldl damm_step 0 us') y) z) vs'"
      by (simp flip: assms(7))
    with s2 have "damm_step (damm_step (foldl damm_step 0 us') z) y
        = damm_step (damm_step (foldl damm_step 0 us') y) z"
      by (simp add: damm_fold_inj st)
    with s2 st(1)[OF s2(1)] damm_antisym assms(8) show False by blast
  qed
  moreover have "length (us @ e # vs) = 9" "set (us @ e # vs) \<subseteq> set dec_digits"
    using assms(1) s1 assms(5) by (simp_all flip: assms(4))
  moreover have "length (us' @ z # y # vs') = 9" "set (us' @ z # y # vs') \<subseteq> set dec_digits"
    using assms(1) s2 by (simp_all flip: assms(7))
  ultimately show ?thesis
    using asset_num_from_nai_check[of "us @ e # vs" q] asset_num_from_nai_check[of "us' @ z # y # vs'" q]
    by blast
qed

theorem nai_typing_errors_refused_witness:
  "\<not> isOK (asset_num_from_nai 22 3) \<and> \<not> isOK (asset_num_from_nai 12 3)"
proof -
  have ok: "isOK (asset_num_from_nai (nai_of_digits [0,0,0,0,0,0,0,2,1]) 3)"
    by code_simp
  show ?thesis
    using nai_typing_errors_refused[OF _ _ ok, of "[0,0,0,0,0,0,0,2]" 1 "[]" 2
        "[0,0,0,0,0,0,0]" 2 1 "[]" 3]
    by (simp add: dec_digits_iff nai_of_digits_def)
qed

end
