(* ===== verification/Chain_State.thy ===== *)
theory Chain_State
  imports Assets
begin

text \<open>
  The state of the chain: the objects of src/src/core/chain/include/steem/chain/*_object*.hpp and the
  database that holds one table per object type (src/src/core/chain/database.cpp).

  A record has the fields of its class, with a prefix that names the class.  Times are seconds,
  account names and keys are strings (the default key is the empty string), and the singleton
  objects are fields of the database.  \<open>fc::uint128\<close> fields are integers below \<open>2 ^ 128\<close>.
\<close>

type_synonym account_name_type = string
type_synonym public_key_type = string
type_synonym time_point_sec = int
type_synonym version_num = int

abbreviation (input) time_maximum :: time_point_sec where "time_maximum \<equiv> 4294967295"

section \<open>Accounts\<close>

record authority =
  weight_threshold :: int
  account_auths :: "(account_name_type \<times> int) list"
  key_auths :: "(public_key_type \<times> int) list"

record account_object =
  ac_id :: nat
  ac_name :: account_name_type
  ac_memo_key :: public_key_type
  ac_json_metadata :: string
  ac_proxy :: account_name_type
  ac_last_account_update :: time_point_sec
  ac_created :: time_point_sec
  ac_mined :: bool
  ac_recovery_account :: account_name_type
  ac_reset_account :: account_name_type
  ac_last_account_recovery :: time_point_sec
  ac_comment_count :: int
  ac_lifetime_vote_count :: int
  ac_post_count :: int
  ac_can_vote :: bool
  ac_voting_power :: int
  ac_last_vote_time :: time_point_sec
  ac_balance :: asset
  ac_savings_balance :: asset
  ac_sbd_balance :: asset
  ac_sbd_seconds :: int
  ac_sbd_seconds_last_update :: time_point_sec
  ac_sbd_last_interest_payment :: time_point_sec
  ac_savings_sbd_balance :: asset
  ac_savings_sbd_seconds :: int
  ac_savings_sbd_seconds_last_update :: time_point_sec
  ac_savings_sbd_last_interest_payment :: time_point_sec
  ac_savings_withdraw_requests :: int
  ac_reward_sbd_balance :: asset
  ac_reward_steem_balance :: asset
  ac_reward_vesting_balance :: asset
  ac_reward_vesting_steem :: asset
  ac_curation_rewards :: int
  ac_posting_rewards :: int
  ac_vesting_shares :: asset
  ac_delegated_vesting_shares :: asset
  ac_received_vesting_shares :: asset
  ac_vesting_withdraw_rate :: asset
  ac_next_vesting_withdrawal :: time_point_sec
  ac_withdrawn :: int
  ac_to_withdraw :: int
  ac_withdraw_routes :: int
  ac_proxied_vsf_votes :: "int list"
  ac_witnesses_voted_for :: int
  ac_last_post :: time_point_sec
  ac_last_root_post :: time_point_sec
  ac_post_bandwidth :: int
  ac_pending_claimed_accounts :: int

definition new_account :: "nat \<Rightarrow> account_object" where
  "new_account i = \<lparr>
     ac_id = i, ac_name = [], ac_memo_key = [], ac_json_metadata = [], ac_proxy = [],
     ac_last_account_update = 0, ac_created = 0, ac_mined = True, ac_recovery_account = [],
     ac_reset_account = STEEM_NULL_ACCOUNT, ac_last_account_recovery = 0, ac_comment_count = 0,
     ac_lifetime_vote_count = 0, ac_post_count = 0, ac_can_vote = True,
     ac_voting_power = STEEM_100_PERCENT, ac_last_vote_time = 0,
     ac_balance = mk_asset 0 STEEM_SYMBOL, ac_savings_balance = mk_asset 0 STEEM_SYMBOL,
     ac_sbd_balance = mk_asset 0 SBD_SYMBOL, ac_sbd_seconds = 0, ac_sbd_seconds_last_update = 0,
     ac_sbd_last_interest_payment = 0, ac_savings_sbd_balance = mk_asset 0 SBD_SYMBOL,
     ac_savings_sbd_seconds = 0, ac_savings_sbd_seconds_last_update = 0,
     ac_savings_sbd_last_interest_payment = 0, ac_savings_withdraw_requests = 0,
     ac_reward_sbd_balance = mk_asset 0 SBD_SYMBOL, ac_reward_steem_balance = mk_asset 0 STEEM_SYMBOL,
     ac_reward_vesting_balance = mk_asset 0 VESTS_SYMBOL, ac_reward_vesting_steem = mk_asset 0 STEEM_SYMBOL,
     ac_curation_rewards = 0, ac_posting_rewards = 0, ac_vesting_shares = mk_asset 0 VESTS_SYMBOL,
     ac_delegated_vesting_shares = mk_asset 0 VESTS_SYMBOL,
     ac_received_vesting_shares = mk_asset 0 VESTS_SYMBOL,
     ac_vesting_withdraw_rate = mk_asset 0 VESTS_SYMBOL, ac_next_vesting_withdrawal = time_maximum,
     ac_withdrawn = 0, ac_to_withdraw = 0, ac_withdraw_routes = 0,
     ac_proxied_vsf_votes = [0, 0, 0, 0], ac_witnesses_voted_for = 0, ac_last_post = 0,
     ac_last_root_post = 0, ac_post_bandwidth = 0, ac_pending_claimed_accounts = 0 \<rparr>"

text \<open>\<open>std::accumulate\<close> adds the entries one by one with the checked addition.\<close>

definition accumulate :: "int list \<Rightarrow> int \<Rightarrow> int res" where
  "accumulate xs s = foldE (\<lambda>x acc. safe_add acc x) xs s"

definition witness_vote_weight :: "account_object \<Rightarrow> int res" where
  "witness_vote_weight a = accumulate (ac_proxied_vsf_votes a) (amount (ac_vesting_shares a))"

definition proxied_vsf_votes_total :: "account_object \<Rightarrow> int res" where
  "proxied_vsf_votes_total a = accumulate (ac_proxied_vsf_votes a) 0"

record account_authority_object =
  aa_id :: nat
  aa_account :: account_name_type
  aa_owner :: authority
  aa_active :: authority
  aa_posting :: authority
  aa_last_owner_update :: time_point_sec

record vesting_delegation_object =
  vd_id :: nat
  vd_delegator :: account_name_type
  vd_delegatee :: account_name_type
  vd_vesting_shares :: asset
  vd_min_delegation_time :: time_point_sec

record vesting_delegation_expiration_object =
  vde_id :: nat
  vde_delegator :: account_name_type
  vde_vesting_shares :: asset
  vde_expiration :: time_point_sec

record owner_authority_history_object =
  oah_id :: nat
  oah_account :: account_name_type
  oah_previous_owner_authority :: authority
  oah_last_valid_time :: time_point_sec

record account_recovery_request_object =
  arr_id :: nat
  arr_account_to_recover :: account_name_type
  arr_new_owner_authority :: authority
  arr_expires :: time_point_sec

record change_recovery_account_request_object =
  crr_id :: nat
  crr_account_to_recover :: account_name_type
  crr_recovery_account :: account_name_type
  crr_effective_on :: time_point_sec

section \<open>Global properties\<close>

record dynamic_global_property_object =
  dgp_head_block_number :: int
  dgp_head_block_id :: nat
  dgp_time :: time_point_sec
  dgp_current_witness :: account_name_type
  dgp_virtual_supply :: asset
  dgp_current_supply :: asset
  dgp_confidential_supply :: asset
  dgp_current_sbd_supply :: asset
  dgp_confidential_sbd_supply :: asset
  dgp_total_vesting_fund_steem :: asset
  dgp_total_vesting_shares :: asset
  dgp_total_reward_fund_steem :: asset
  dgp_total_reward_shares2 :: int
  dgp_pending_rewarded_vesting_shares :: asset
  dgp_pending_rewarded_vesting_steem :: asset
  dgp_sbd_interest_rate :: int
  dgp_sbd_print_rate :: int
  dgp_maximum_block_size :: int
  dgp_current_aslot :: int
  dgp_recent_slots_filled :: int
  dgp_participation_count :: int
  dgp_last_irreversible_block_num :: int
  dgp_vote_power_reserve_rate :: int
  dgp_delegation_return_period :: int

definition get_vesting_share_price :: "dynamic_global_property_object \<Rightarrow> price res" where
  "get_vesting_share_price g =
     (if amount (dgp_total_vesting_fund_steem g) = 0 \<or> amount (dgp_total_vesting_shares g) = 0
      then mk_price (mk_asset 1000 STEEM_SYMBOL) (mk_asset 1000000 VESTS_SYMBOL)
      else mk_price (dgp_total_vesting_shares g) (dgp_total_vesting_fund_steem g))"

definition get_reward_vesting_share_price :: "dynamic_global_property_object \<Rightarrow> price res" where
  "get_reward_vesting_share_price g =
     bindE (asset_add (dgp_total_vesting_shares g) (dgp_pending_rewarded_vesting_shares g)) (\<lambda>v.
     bindE (asset_add (dgp_total_vesting_fund_steem g) (dgp_pending_rewarded_vesting_steem g)) (\<lambda>f.
     mk_price v f))"

record hardfork_property_object =
  hpo_processed_hardforks :: "time_point_sec list"
  hpo_last_hardfork :: int
  hpo_current_hardfork_version :: version_num
  hpo_next_hardfork :: version_num
  hpo_next_hardfork_time :: time_point_sec

section \<open>Payments, orders and requests\<close>

record convert_request_object =
  cr_id :: nat
  cr_owner :: account_name_type
  cr_requestid :: int
  cr_amount :: asset
  cr_conversion_date :: time_point_sec

record escrow_object =
  esc_id :: nat
  esc_escrow_id :: int
  esc_from :: account_name_type
  esc_to :: account_name_type
  esc_agent :: account_name_type
  esc_ratification_deadline :: time_point_sec
  esc_escrow_expiration :: time_point_sec
  esc_sbd_balance :: asset
  esc_steem_balance :: asset
  esc_pending_fee :: asset
  esc_to_approved :: bool
  esc_agent_approved :: bool
  esc_disputed :: bool

definition escrow_is_approved :: "escrow_object \<Rightarrow> bool" where
  "escrow_is_approved e \<longleftrightarrow> esc_to_approved e \<and> esc_agent_approved e"

record savings_withdraw_object =
  sw_id :: nat
  sw_from :: account_name_type
  sw_to :: account_name_type
  sw_memo :: string
  sw_request_id :: int
  sw_amount :: asset
  sw_complete :: time_point_sec

record feed_history_object =
  fh_current_median_history :: price
  fh_price_history :: "price list"

record limit_order_object =
  lo_id :: nat
  lo_created :: time_point_sec
  lo_expiration :: time_point_sec
  lo_seller :: account_name_type
  lo_orderid :: int
  lo_for_sale :: int
  lo_sell_price :: price

definition amount_for_sale :: "limit_order_object \<Rightarrow> asset" where
  "amount_for_sale o1 = mk_asset (lo_for_sale o1) (symbol (base (lo_sell_price o1)))"

definition amount_to_receive :: "limit_order_object \<Rightarrow> asset res" where
  "amount_to_receive o1 = asset_mul_price (amount_for_sale o1) (lo_sell_price o1)"

record withdraw_vesting_route_object =
  wvr_id :: nat
  wvr_from_account :: account_name_type
  wvr_to_account :: account_name_type
  wvr_percent :: int
  wvr_auto_vest :: bool

record decline_voting_rights_request_object =
  dvr_id :: nat
  dvr_account :: account_name_type
  dvr_effective_date :: time_point_sec

datatype curve_id = quadratic | quadratic_curation | linear | square_root

record reward_fund_object =
  rf_id :: nat
  rf_name :: string
  rf_reward_balance :: asset
  rf_recent_claims :: int
  rf_last_update :: time_point_sec
  rf_content_constant :: int
  rf_percent_curation_rewards :: int
  rf_percent_content_rewards :: int
  rf_author_reward_curve :: curve_id
  rf_curation_reward_curve :: curve_id

section \<open>Witnesses\<close>

record chain_properties =
  cp_account_creation_fee :: asset
  cp_maximum_block_size :: int
  cp_sbd_interest_rate :: int
  cp_account_subsidy_limit :: int

datatype witness_schedule_type = top20 | timeshare | none

record witness_object =
  w_id :: nat
  w_owner :: account_name_type
  w_created :: time_point_sec
  w_url :: string
  w_total_missed :: int
  w_last_aslot :: int
  w_last_confirmed_block_num :: int
  w_signing_key :: public_key_type
  w_props :: chain_properties
  w_sbd_exchange_rate :: price
  w_last_sbd_exchange_update :: time_point_sec
  w_votes :: int
  w_schedule :: witness_schedule_type
  w_virtual_last_update :: int
  w_virtual_position :: int
  w_virtual_scheduled_time :: int
  w_running_version :: version_num
  w_hardfork_version_vote :: version_num
  w_hardfork_time_vote :: time_point_sec

record witness_vote_object =
  wv_id :: nat
  wv_witness :: account_name_type
  wv_account :: account_name_type

record witness_schedule_object =
  wso_current_virtual_time :: int
  wso_next_shuffle_block_num :: int
  wso_current_shuffled_witnesses :: "account_name_type list"
  wso_num_scheduled_witnesses :: int
  wso_top20_weight :: int
  wso_timeshare_weight :: int
  wso_witness_pay_normalization_factor :: int
  wso_median_props :: chain_properties
  wso_majority_version :: version_num
  wso_max_voted_witnesses :: int
  wso_max_runner_witnesses :: int
  wso_hardfork_required_witnesses :: int

section \<open>Comments\<close>

record beneficiary_route_type =
  br_account :: account_name_type
  br_weight :: int

record comment_object =
  co_id :: nat
  co_category :: string
  co_parent_author :: account_name_type
  co_parent_permlink :: string
  co_author :: account_name_type
  co_permlink :: string
  co_last_update :: time_point_sec
  co_created :: time_point_sec
  co_active :: time_point_sec
  co_last_payout :: time_point_sec
  co_depth :: int
  co_children :: int
  co_net_rshares :: int
  co_abs_rshares :: int
  co_vote_rshares :: int
  co_children_abs_rshares :: int
  co_cashout_time :: time_point_sec
  co_max_cashout_time :: time_point_sec
  co_total_vote_weight :: int
  co_reward_weight :: int
  co_total_payout_value :: asset
  co_curator_payout_value :: asset
  co_beneficiary_payout_value :: asset
  co_author_rewards :: int
  co_net_votes :: int
  co_root_comment :: nat
  co_max_accepted_payout :: asset
  co_percent_steem_dollars :: int
  co_allow_replies :: bool
  co_allow_votes :: bool
  co_allow_curation_rewards :: bool
  co_beneficiaries :: "beneficiary_route_type list"

record comment_content_object =
  cc_id :: nat
  cc_comment :: nat
  cc_title :: string
  cc_body :: string
  cc_json_metadata :: string

record comment_vote_object =
  cv_id :: nat
  cv_voter :: nat
  cv_comment :: nat
  cv_weight :: int
  cv_rshares :: int
  cv_vote_percent :: int
  cv_last_update :: time_point_sec
  cv_num_changes :: int

section \<open>The database\<close>

record database =
  db_dgp :: dynamic_global_property_object
  db_wso :: witness_schedule_object
  db_feed :: feed_history_object
  db_hpo :: hardfork_property_object
  db_accounts :: "account_object table"
  db_authorities :: "account_authority_object table"
  db_witnesses :: "witness_object table"
  db_witness_votes :: "witness_vote_object table"
  db_comments :: "comment_object table"
  db_comment_contents :: "comment_content_object table"
  db_comment_votes :: "comment_vote_object table"
  db_orders :: "limit_order_object table"
  db_escrows :: "escrow_object table"
  db_savings_withdraws :: "savings_withdraw_object table"
  db_converts :: "convert_request_object table"
  db_routes :: "withdraw_vesting_route_object table"
  db_delegations :: "vesting_delegation_object table"
  db_delegation_expirations :: "vesting_delegation_expiration_object table"
  db_decline_requests :: "decline_voting_rights_request_object table"
  db_reward_funds :: "reward_fund_object table"
  db_owner_history :: "owner_authority_history_object table"
  db_recovery_requests :: "account_recovery_request_object table"
  db_change_recovery :: "change_recovery_account_request_object table"

definition head_block_time :: "database \<Rightarrow> time_point_sec" where
  "head_block_time db = dgp_time (db_dgp db)"

definition head_block_num :: "database \<Rightarrow> int" where
  "head_block_num db = dgp_head_block_number (db_dgp db)"

definition find_account :: "database \<Rightarrow> account_name_type \<Rightarrow> account_object option" where
  "find_account db n = tbl_find (\<lambda>a. ac_name a = n) (db_accounts db)"

definition get_account :: "database \<Rightarrow> account_name_type \<Rightarrow> account_object res" where
  "get_account db n = tbl_get (\<lambda>a. ac_name a = n) (db_accounts db)"

definition modify_account ::
  "database \<Rightarrow> account_name_type \<Rightarrow> (account_object \<Rightarrow> account_object res) \<Rightarrow> database res" where
  "modify_account db n f =
     bindE (tbl_modify (\<lambda>a. ac_name a = n) f (db_accounts db)) (\<lambda>t. Inr (db\<lparr> db_accounts := t \<rparr>))"

definition modify_dgp ::
  "database \<Rightarrow> (dynamic_global_property_object \<Rightarrow> dynamic_global_property_object res) \<Rightarrow> database res" where
  "modify_dgp db f = bindE (f (db_dgp db)) (\<lambda>g. Inr (db\<lparr> db_dgp := g \<rparr>))"

definition current_median_history :: "database \<Rightarrow> price" where
  "current_median_history db = fh_current_median_history (db_feed db)"

definition get_witness :: "database \<Rightarrow> account_name_type \<Rightarrow> witness_object res" where
  "get_witness db n = tbl_get (\<lambda>w. w_owner w = n) (db_witnesses db)"

definition find_witness :: "database \<Rightarrow> account_name_type \<Rightarrow> witness_object option" where
  "find_witness db n = tbl_find (\<lambda>w. w_owner w = n) (db_witnesses db)"

definition modify_witness ::
  "database \<Rightarrow> account_name_type \<Rightarrow> (witness_object \<Rightarrow> witness_object res) \<Rightarrow> database res" where
  "modify_witness db n f =
     bindE (tbl_modify (\<lambda>w. w_owner w = n) f (db_witnesses db)) (\<lambda>t. Inr (db\<lparr> db_witnesses := t \<rparr>))"

end
