(* ===== verification/Ledger.thy ===== *)
theory Ledger
  imports Chain_State
begin

text \<open>
  The ledger view of the database, which is the contract of every operation that moves assets.
  \<open>slack db s\<close> is the recorded supply of the asset \<open>s\<close> minus everything the database holds of it,
  where an asset value counts for the symbol it carries:
  the balances of the accounts, open orders, escrows, savings withdrawals in flight, conversion
  requests, reward funds and the vesting pools.  \<open>ledger_balanced\<close> is what
  \<open>database::validate_invariants\<close> asserts about supplies.

  The lemmas give the change of the slack for an update of each table, so that the proof about an
  operation is a sum of the changes of its steps.
\<close>

named_theorems ledger \<open>change of the slack under an update\<close>

section \<open>Holdings\<close>

definition amt :: "asset \<Rightarrow> asset_symbol_type \<Rightarrow> int" where
  "amt x s = (if symbol x = s then amount x else 0)"

definition acc_hold :: "account_object \<Rightarrow> asset_symbol_type \<Rightarrow> int" where
  "acc_hold a s =
     amt (ac_balance a) s + amt (ac_savings_balance a) s + amt (ac_reward_steem_balance a) s +
     amt (ac_sbd_balance a) s + amt (ac_savings_sbd_balance a) s + amt (ac_reward_sbd_balance a) s +
     amt (ac_vesting_shares a) s + amt (ac_reward_vesting_balance a) s"

definition order_hold :: "limit_order_object \<Rightarrow> asset_symbol_type \<Rightarrow> int" where
  "order_hold o1 s = amt (amount_for_sale o1) s"

definition escrow_hold :: "escrow_object \<Rightarrow> asset_symbol_type \<Rightarrow> int" where
  "escrow_hold e s = amt (esc_steem_balance e) s + amt (esc_sbd_balance e) s + amt (esc_pending_fee e) s"

definition dgp_net :: "dynamic_global_property_object \<Rightarrow> asset_symbol_type \<Rightarrow> int" where
  "dgp_net g s =
     amt (dgp_current_supply g) s + amt (dgp_current_sbd_supply g) s +
     amt (dgp_total_vesting_shares g) s + amt (dgp_pending_rewarded_vesting_shares g) s -
     amt (dgp_total_vesting_fund_steem g) s - amt (dgp_total_reward_fund_steem g) s -
     amt (dgp_pending_rewarded_vesting_steem g) s"

definition slack :: "database \<Rightarrow> asset_symbol_type \<Rightarrow> int" where
  "slack db s =
     dgp_net (db_dgp db) s
     - tbl_sum (\<lambda>a. acc_hold a s) (db_accounts db)
     - tbl_sum (\<lambda>x. order_hold x s) (db_orders db)
     - tbl_sum (\<lambda>e. escrow_hold e s) (db_escrows db)
     - tbl_sum (\<lambda>w. amt (sw_amount w) s) (db_savings_withdraws db)
     - tbl_sum (\<lambda>c. amt (cr_amount c) s) (db_converts db)
     - tbl_sum (\<lambda>f. amt (rf_reward_balance f) s) (db_reward_funds db)"

definition pending_slack :: "database \<Rightarrow> int" where
  "pending_slack db =
     amount (dgp_pending_rewarded_vesting_steem (db_dgp db))
     - tbl_sum (\<lambda>a. amount (ac_reward_vesting_steem a)) (db_accounts db)"

definition ledger_balanced :: "database \<Rightarrow> bool" where
  "ledger_balanced db \<longleftrightarrow>
     slack db STEEM_SYMBOL = 0 \<and> slack db SBD_SYMBOL = 0 \<and> slack db VESTS_SYMBOL = 0 \<and>
     pending_slack db = 0"

definition ledger_same :: "database \<Rightarrow> database \<Rightarrow> bool" where
  "ledger_same db db' \<longleftrightarrow> (\<forall>s. slack db' s = slack db s) \<and> pending_slack db' = pending_slack db"

text \<open>\<open>credited d db db'\<close>: between the two states the holdings of the symbol of \<open>d\<close> grew by its
  amount against the supply, and nothing else changed.\<close>

definition credited :: "asset \<Rightarrow> database \<Rightarrow> database \<Rightarrow> bool" where
  "credited d db db' \<longleftrightarrow>
     (\<forall>s. slack db' s = slack db s - amt d s) \<and>
     pending_slack db' = pending_slack db"

definition acc_credit :: "asset \<Rightarrow> account_object \<Rightarrow> account_object \<Rightarrow> bool" where
  "acc_credit d a a' \<longleftrightarrow>
     (\<forall>s. acc_hold a' s = acc_hold a s + amt d s) \<and>
     amount (ac_reward_vesting_steem a') = amount (ac_reward_vesting_steem a)"

section \<open>Change of the slack\<close>

lemma ledger_same_refl [simp, intro]: "ledger_same db db"
  by (simp add: ledger_same_def)

lemma ledger_same_trans [trans]: "ledger_same a b \<Longrightarrow> ledger_same b c \<Longrightarrow> ledger_same a c"
  by (simp add: ledger_same_def)

lemma ledger_sameD: "ledger_same a b \<Longrightarrow> slack b s = slack a s"
  "ledger_same a b \<Longrightarrow> pending_slack b = pending_slack a"
  by (simp_all add: ledger_same_def)

lemma ledger_same_balanced: "ledger_same a b \<Longrightarrow> ledger_balanced b \<longleftrightarrow> ledger_balanced a"
  by (simp add: ledger_same_def ledger_balanced_def)

lemma slack_frame [simp]:
  "slack (db\<lparr> db_wso := w \<rparr>) = slack db"
  "slack (db\<lparr> db_feed := f \<rparr>) = slack db"
  "slack (db\<lparr> db_hpo := h \<rparr>) = slack db"
  "slack (db\<lparr> db_authorities := aa \<rparr>) = slack db"
  "slack (db\<lparr> db_witnesses := ws \<rparr>) = slack db"
  "slack (db\<lparr> db_witness_votes := wv \<rparr>) = slack db"
  "slack (db\<lparr> db_comments := c \<rparr>) = slack db"
  "slack (db\<lparr> db_comment_contents := cc \<rparr>) = slack db"
  "slack (db\<lparr> db_comment_votes := cv \<rparr>) = slack db"
  "slack (db\<lparr> db_routes := r \<rparr>) = slack db"
  "slack (db\<lparr> db_delegations := d \<rparr>) = slack db"
  "slack (db\<lparr> db_delegation_expirations := de \<rparr>) = slack db"
  "slack (db\<lparr> db_decline_requests := dr \<rparr>) = slack db"
  "slack (db\<lparr> db_owner_history := oh \<rparr>) = slack db"
  "slack (db\<lparr> db_recovery_requests := rr \<rparr>) = slack db"
  "slack (db\<lparr> db_change_recovery := cr \<rparr>) = slack db"
  by (simp_all add: slack_def fun_eq_iff)

lemma pending_frame [simp]:
  "pending_slack (db\<lparr> db_wso := w \<rparr>) = pending_slack db"
  "pending_slack (db\<lparr> db_feed := f \<rparr>) = pending_slack db"
  "pending_slack (db\<lparr> db_hpo := h \<rparr>) = pending_slack db"
  "pending_slack (db\<lparr> db_authorities := aa \<rparr>) = pending_slack db"
  "pending_slack (db\<lparr> db_witnesses := ws \<rparr>) = pending_slack db"
  "pending_slack (db\<lparr> db_witness_votes := wv \<rparr>) = pending_slack db"
  "pending_slack (db\<lparr> db_comments := c \<rparr>) = pending_slack db"
  "pending_slack (db\<lparr> db_comment_contents := cc \<rparr>) = pending_slack db"
  "pending_slack (db\<lparr> db_comment_votes := cv \<rparr>) = pending_slack db"
  "pending_slack (db\<lparr> db_orders := os \<rparr>) = pending_slack db"
  "pending_slack (db\<lparr> db_escrows := es \<rparr>) = pending_slack db"
  "pending_slack (db\<lparr> db_savings_withdraws := sw \<rparr>) = pending_slack db"
  "pending_slack (db\<lparr> db_converts := cs \<rparr>) = pending_slack db"
  "pending_slack (db\<lparr> db_reward_funds := rf \<rparr>) = pending_slack db"
  "pending_slack (db\<lparr> db_routes := r \<rparr>) = pending_slack db"
  "pending_slack (db\<lparr> db_delegations := d \<rparr>) = pending_slack db"
  "pending_slack (db\<lparr> db_delegation_expirations := de \<rparr>) = pending_slack db"
  "pending_slack (db\<lparr> db_decline_requests := dr \<rparr>) = pending_slack db"
  "pending_slack (db\<lparr> db_owner_history := oh \<rparr>) = pending_slack db"
  "pending_slack (db\<lparr> db_recovery_requests := rr \<rparr>) = pending_slack db"
  "pending_slack (db\<lparr> db_change_recovery := cr \<rparr>) = pending_slack db"
  by (simp_all add: pending_slack_def)

lemma slack_tables [ledger]:
  "slack (db\<lparr> db_dgp := g \<rparr>) s = slack db s - dgp_net (db_dgp db) s + dgp_net g s"
  "slack (db\<lparr> db_accounts := t \<rparr>) s =
     slack db s + tbl_sum (\<lambda>a. acc_hold a s) (db_accounts db) - tbl_sum (\<lambda>a. acc_hold a s) t"
  "slack (db\<lparr> db_orders := os \<rparr>) s =
     slack db s + tbl_sum (\<lambda>x. order_hold x s) (db_orders db) - tbl_sum (\<lambda>x. order_hold x s) os"
  "slack (db\<lparr> db_escrows := es \<rparr>) s =
     slack db s + tbl_sum (\<lambda>e. escrow_hold e s) (db_escrows db) - tbl_sum (\<lambda>e. escrow_hold e s) es"
  "slack (db\<lparr> db_savings_withdraws := sw \<rparr>) s =
     slack db s + tbl_sum (\<lambda>w. amt (sw_amount w) s) (db_savings_withdraws db)
       - tbl_sum (\<lambda>w. amt (sw_amount w) s) sw"
  "slack (db\<lparr> db_converts := cs \<rparr>) s =
     slack db s + tbl_sum (\<lambda>c. amt (cr_amount c) s) (db_converts db)
       - tbl_sum (\<lambda>c. amt (cr_amount c) s) cs"
  "slack (db\<lparr> db_reward_funds := rf \<rparr>) s =
     slack db s + tbl_sum (\<lambda>f. amt (rf_reward_balance f) s) (db_reward_funds db) - tbl_sum (\<lambda>f. amt (rf_reward_balance f) s) rf"
  by (simp_all add: slack_def)

lemma pending_tables [ledger]:
  "pending_slack (db\<lparr> db_dgp := g \<rparr>) =
     pending_slack db - amount (dgp_pending_rewarded_vesting_steem (db_dgp db))
       + amount (dgp_pending_rewarded_vesting_steem g)"
  "pending_slack (db\<lparr> db_accounts := t \<rparr>) =
     pending_slack db + tbl_sum (\<lambda>a. amount (ac_reward_vesting_steem a)) (db_accounts db)
       - tbl_sum (\<lambda>a. amount (ac_reward_vesting_steem a)) t"
  by (simp_all add: pending_slack_def)

lemma modify_account_slack:
  assumes "modify_account db n f = Inr db'"
    and "\<And>a a'. f a = Inr a' \<Longrightarrow> acc_hold a' s = acc_hold a s + d"
  shows "slack db' s = slack db s - d"
proof -
  from assms(1) obtain t where t: "tbl_modify (\<lambda>a. ac_name a = n) f (db_accounts db) = Inr t"
    and db': "db' = db\<lparr> db_accounts := t \<rparr>"
    by (auto simp: modify_account_def res_simps)
  from tbl_modify_find[OF t] obtain v v' where v: "tbl_find (\<lambda>a. ac_name a = n) (db_accounts db) = Some v" "f v = Inr v'"
    by blast
  from tbl_modify_sum[OF t v, of "\<lambda>a. acc_hold a s"] assms(2)[OF v(2)] show ?thesis
    by (simp add: db' ledger)
qed

lemma modify_account_pending:
  assumes "modify_account db n f = Inr db'"
    and "\<And>a a'. f a = Inr a' \<Longrightarrow>
      amount (ac_reward_vesting_steem a') = amount (ac_reward_vesting_steem a) + d"
  shows "pending_slack db' = pending_slack db - d"
proof -
  from assms(1) obtain t where t: "tbl_modify (\<lambda>a. ac_name a = n) f (db_accounts db) = Inr t"
    and db': "db' = db\<lparr> db_accounts := t \<rparr>"
    by (auto simp: modify_account_def res_simps)
  from tbl_modify_find[OF t] obtain v v' where v: "tbl_find (\<lambda>a. ac_name a = n) (db_accounts db) = Some v" "f v = Inr v'"
    by blast
  from tbl_modify_sum[OF t v, of "\<lambda>a. amount (ac_reward_vesting_steem a)"] assms(2)[OF v(2)] show ?thesis
    by (simp add: db' ledger)
qed

lemma modify_account_credited:
  assumes "modify_account db n f = Inr db'" and "\<And>a a'. f a = Inr a' \<Longrightarrow> acc_credit d a a'"
  shows "credited d db db'"
proof -
  have "slack db' s = slack db s - amt d s" for s
    by (rule modify_account_slack[OF assms(1)]) (use assms(2) in \<open>simp add: acc_credit_def\<close>)
  moreover have "pending_slack db' = pending_slack db - 0"
    by (rule modify_account_pending[OF assms(1)]) (use assms(2) in \<open>simp add: acc_credit_def\<close>)
  ultimately show ?thesis by (simp add: credited_def)
qed

lemma credited_same_trans: "credited d a b \<Longrightarrow> ledger_same b c \<Longrightarrow> credited d a c"
  by (simp add: credited_def ledger_same_def)

lemma same_credited_trans: "ledger_same a b \<Longrightarrow> credited d b c \<Longrightarrow> credited d a c"
  by (simp add: credited_def ledger_same_def)

lemma credited_cancel:
  "credited d a b \<Longrightarrow> credited e b c \<Longrightarrow> symbol e = symbol d \<Longrightarrow> amount e = - amount d \<Longrightarrow> ledger_same a c"
  by (auto simp: credited_def ledger_same_def amt_def)

lemma creditedD:
  "credited d a b \<Longrightarrow> slack b s = slack a s - amt d s"
  "credited d a b \<Longrightarrow> pending_slack b = pending_slack a"
  by (simp_all add: credited_def)

text \<open>An account update that leaves the asset fields alone leaves the ledger alone.\<close>

definition same_holdings :: "account_object \<Rightarrow> account_object \<Rightarrow> bool" where
  "same_holdings a a' \<longleftrightarrow>
     ac_balance a' = ac_balance a \<and> ac_savings_balance a' = ac_savings_balance a \<and>
     ac_reward_steem_balance a' = ac_reward_steem_balance a \<and> ac_sbd_balance a' = ac_sbd_balance a \<and>
     ac_savings_sbd_balance a' = ac_savings_sbd_balance a \<and>
     ac_reward_sbd_balance a' = ac_reward_sbd_balance a \<and> ac_vesting_shares a' = ac_vesting_shares a \<and>
     ac_reward_vesting_balance a' = ac_reward_vesting_balance a \<and>
     ac_reward_vesting_steem a' = ac_reward_vesting_steem a"

lemma modify_account_same:
  assumes "modify_account db n f = Inr db'" and "\<And>a a'. f a = Inr a' \<Longrightarrow> same_holdings a a'"
  shows "ledger_same db db'"
proof -
  have "slack db' s = slack db s - 0" for s
    by (rule modify_account_slack[OF assms(1)])
      (use assms(2) in \<open>auto simp: same_holdings_def acc_hold_def\<close>)
  moreover have "pending_slack db' = pending_slack db - 0"
    by (rule modify_account_pending[OF assms(1)])
      (use assms(2) in \<open>auto simp: same_holdings_def\<close>)
  ultimately show ?thesis by (simp add: ledger_same_def)
qed

lemma modify_account_fields:
  assumes "modify_account db n f = Inr db'"
  shows "\<exists>t. db' = db\<lparr> db_accounts := t \<rparr>"
  using assms by (auto simp: modify_account_def res_simps)

lemma modify_dgp_slack:
  assumes "modify_dgp db f = Inr db'"
    and "\<And>g g'. f g = Inr g' \<Longrightarrow> dgp_net g' s = dgp_net g s + d"
  shows "slack db' s = slack db s + d"
  using assms by (auto simp: modify_dgp_def res_simps ledger)

lemma modify_dgp_pending:
  assumes "modify_dgp db f = Inr db'"
    and "\<And>g g'. f g = Inr g' \<Longrightarrow> amount (dgp_pending_rewarded_vesting_steem g')
      = amount (dgp_pending_rewarded_vesting_steem g) + d"
  shows "pending_slack db' = pending_slack db + d"
  using assms by (auto simp: modify_dgp_def res_simps ledger)

lemma modify_witness_same: "modify_witness db n f = Inr db' \<Longrightarrow> ledger_same db db'"
  by (auto simp: modify_witness_def res_simps ledger_same_def)

lemma amt_mk_asset [simp]: "amt (mk_asset n x) s = (if x = s then n else 0)"
  by (simp add: amt_def)

lemma amt_asset_add: "asset_add a b = Inr c \<Longrightarrow> amt c s = amt a s + amt b s"
  by (auto dest!: asset_add_value simp: amt_def)

lemma amt_asset_sub: "asset_sub a b = Inr c \<Longrightarrow> amt c s = amt a s - amt b s"
  by (auto dest!: asset_sub_value simp: amt_def)

lemma amt_asset_neg: "asset_neg a = Inr c \<Longrightarrow> amt c s = - amt a s"
  by (auto dest!: asset_neg_value simp: amt_def)

lemma amount_asset_add: "asset_add a b = Inr c \<Longrightarrow> amount c = amount a + amount b"
  by (auto dest!: asset_add_value)

lemma amount_asset_sub: "asset_sub a b = Inr c \<Longrightarrow> amount c = amount a - amount b"
  by (auto dest!: asset_sub_value)

lemmas amt_ops = amt_asset_add amt_asset_sub amt_asset_neg amount_asset_add amount_asset_sub

section \<open>What the balance operations leave alone\<close>

text \<open>Only accounts, global properties and witnesses differ between the two states.\<close>

definition core_frame :: "database \<Rightarrow> database \<Rightarrow> bool" where
  "core_frame db db' \<longleftrightarrow>
     db' = db\<lparr> db_accounts := db_accounts db', db_dgp := db_dgp db', db_witnesses := db_witnesses db' \<rparr>"

lemma core_frame_refl [simp, intro]: "core_frame db db"
  by (simp add: core_frame_def)

lemma core_frameI: "core_frame db (db\<lparr> db_accounts := a, db_dgp := g, db_witnesses := w \<rparr>)"
  "core_frame db (db\<lparr> db_accounts := a \<rparr>)" "core_frame db (db\<lparr> db_dgp := g \<rparr>)"
  "core_frame db (db\<lparr> db_witnesses := w \<rparr>)"
  by (simp_all add: core_frame_def)

lemma core_frame_iff:
  "core_frame db db' \<longleftrightarrow> (\<exists>a g w. db' = db\<lparr> db_accounts := a, db_dgp := g, db_witnesses := w \<rparr>)"
  unfolding core_frame_def by auto

lemma core_frame_trans [trans]: "core_frame a b \<Longrightarrow> core_frame b c \<Longrightarrow> core_frame a c"
  unfolding core_frame_iff by (elim exE, simp, blast)

lemma core_frameD:
  assumes "core_frame db db'"
  shows "db_wso db' = db_wso db"
    "db_feed db' = db_feed db"
    "db_hpo db' = db_hpo db"
    "db_authorities db' = db_authorities db"
    "db_witness_votes db' = db_witness_votes db"
    "db_comments db' = db_comments db"
    "db_comment_contents db' = db_comment_contents db"
    "db_comment_votes db' = db_comment_votes db"
    "db_orders db' = db_orders db"
    "db_escrows db' = db_escrows db"
    "db_savings_withdraws db' = db_savings_withdraws db"
    "db_converts db' = db_converts db"
    "db_routes db' = db_routes db"
    "db_delegations db' = db_delegations db"
    "db_delegation_expirations db' = db_delegation_expirations db"
    "db_decline_requests db' = db_decline_requests db"
    "db_reward_funds db' = db_reward_funds db"
    "db_owner_history db' = db_owner_history db"
    "db_recovery_requests db' = db_recovery_requests db"
    "db_change_recovery db' = db_change_recovery db"
proof -
  obtain a g w where d: "db' = db\<lparr> db_accounts := a, db_dgp := g, db_witnesses := w \<rparr>"
    using assms unfolding core_frame_iff by blast
  show "db_wso db' = db_wso db"
    "db_feed db' = db_feed db"
    "db_hpo db' = db_hpo db"
    "db_authorities db' = db_authorities db"
    "db_witness_votes db' = db_witness_votes db"
    "db_comments db' = db_comments db"
    "db_comment_contents db' = db_comment_contents db"
    "db_comment_votes db' = db_comment_votes db"
    "db_orders db' = db_orders db"
    "db_escrows db' = db_escrows db"
    "db_savings_withdraws db' = db_savings_withdraws db"
    "db_converts db' = db_converts db"
    "db_routes db' = db_routes db"
    "db_delegations db' = db_delegations db"
    "db_delegation_expirations db' = db_delegation_expirations db"
    "db_decline_requests db' = db_decline_requests db"
    "db_reward_funds db' = db_reward_funds db"
    "db_owner_history db' = db_owner_history db"
    "db_recovery_requests db' = db_recovery_requests db"
    "db_change_recovery db' = db_change_recovery db"
    unfolding d by simp_all
qed

lemma modify_account_frame: "modify_account db n f = Inr db' \<Longrightarrow> core_frame db db'"
  by (auto simp: modify_account_def res_simps intro: core_frameI)

lemma modify_dgp_frame: "modify_dgp db f = Inr db' \<Longrightarrow> core_frame db db'"
  by (auto simp: modify_dgp_def res_simps intro: core_frameI)

lemma modify_witness_frame: "modify_witness db n f = Inr db' \<Longrightarrow> core_frame db db'"
  by (auto simp: modify_witness_def res_simps intro: core_frameI)

lemmas modify_frames = modify_account_frame modify_dgp_frame modify_witness_frame

text \<open>A row that moves between a table and the balances keeps the ledger.\<close>

lemma create_savings_slack:
  assumes "tbl_create clash mk (db_savings_withdraws db) = Inr t"
  shows "slack (db\<lparr> db_savings_withdraws := t \<rparr>) s = slack db s - amt (sw_amount (mk (next_id (db_savings_withdraws db)))) s"
  by (simp add: ledger tbl_create_sum[OF assms])

lemma create_convert_slack:
  assumes "tbl_create clash mk (db_converts db) = Inr t"
  shows "slack (db\<lparr> db_converts := t \<rparr>) s = slack db s - amt (cr_amount (mk (next_id (db_converts db)))) s"
  by (simp add: ledger tbl_create_sum[OF assms])

lemma create_escrow_slack:
  assumes "tbl_create clash mk (db_escrows db) = Inr t"
  shows "slack (db\<lparr> db_escrows := t \<rparr>) s = slack db s - escrow_hold (mk (next_id (db_escrows db))) s"
  by (simp add: ledger tbl_create_sum[OF assms])

lemma create_order_slack:
  assumes "tbl_create clash mk (db_orders db) = Inr t"
  shows "slack (db\<lparr> db_orders := t \<rparr>) s = slack db s - order_hold (mk (next_id (db_orders db))) s"
  by (simp add: ledger tbl_create_sum[OF assms])

lemma erase_slack:
  "w \<in> set (rows (db_savings_withdraws db)) \<Longrightarrow>
   slack (db\<lparr> db_savings_withdraws := tbl_erase w (db_savings_withdraws db) \<rparr>) s = slack db s + amt (sw_amount w) s"
  "c \<in> set (rows (db_converts db)) \<Longrightarrow>
   slack (db\<lparr> db_converts := tbl_erase c (db_converts db) \<rparr>) s = slack db s + amt (cr_amount c) s"
  "e \<in> set (rows (db_escrows db)) \<Longrightarrow>
   slack (db\<lparr> db_escrows := tbl_erase e (db_escrows db) \<rparr>) s = slack db s + escrow_hold e s"
  "x \<in> set (rows (db_orders db)) \<Longrightarrow>
   slack (db\<lparr> db_orders := tbl_erase x (db_orders db) \<rparr>) s = slack db s + order_hold x s"
  by (simp_all add: ledger tbl_erase_sum)

end
