(* ===== verification/Witness_Votes.thy ===== *)
theory Witness_Votes
  imports Ledger
begin

text \<open>
  Witness votes and vote proxies of src/src/core/chain/database.cpp: the propagation of a change of
  vesting shares along a chain of proxies, and the update of the votes and of the virtual schedule
  of the witnesses an account votes for.  References to account objects become account names, and
  an account is looked up again wherever the code reads through the reference.
\<close>

section \<open>Votes of a witness\<close>

text \<open>The virtual time arithmetic is on \<open>fc::uint128\<close>.\<close>

definition uint128_div :: "int \<Rightarrow> int \<Rightarrow> int res" where
  "uint128_div a b = (if b = 0 then Inl Divide_by_zero_exception else Inr (a div b))"

definition uint128_max :: int where "uint128_max = two128 - 1"

definition adjust_witness_vote_obj :: "database \<Rightarrow> int \<Rightarrow> witness_object \<Rightarrow> witness_object res" where
  "adjust_witness_vote_obj db delta w =
     (let now = wso_current_virtual_time (db_wso db);
          delta_pos = to_uint128 (to_uint128 (w_votes w) * to_uint128 (now - w_virtual_last_update w));
          pos = to_uint128 (w_virtual_position w + delta_pos)
      in bindE (safe_add (w_votes w) delta) (\<lambda>v.
         fc_assert 1243 (v \<le> amount (dgp_total_vesting_shares (db_dgp db)))
         (bindE (uint128_div (to_uint128 (uint128_max - pos)) (to_uint128 (v + 1))) (\<lambda>q.
          let t = to_uint128 (now + q) in
          Inr (w\<lparr> w_virtual_position := pos, w_virtual_last_update := now, w_votes := v,
                  w_virtual_scheduled_time := (if t < now then uint128_max else t) \<rparr>)))))"

definition adjust_witness_vote :: "database \<Rightarrow> account_name_type \<Rightarrow> int \<Rightarrow> database res" where
  "adjust_witness_vote db witness delta = modify_witness db witness (adjust_witness_vote_obj db delta)"

definition votes_of_account :: "database \<Rightarrow> account_name_type \<Rightarrow> witness_vote_object list" where
  "votes_of_account db n =
     sort_key wv_witness (filter (\<lambda>v. wv_account v = n) (rows (db_witness_votes db)))"

definition adjust_witness_votes :: "database \<Rightarrow> account_name_type \<Rightarrow> int \<Rightarrow> database res" where
  "adjust_witness_votes db n delta =
     foldE (\<lambda>v db. adjust_witness_vote db (wv_witness v) delta) (votes_of_account db n) db"

section \<open>Proxies\<close>

function adjust_proxied_witness_votes ::
  "database \<Rightarrow> account_name_type \<Rightarrow> int \<Rightarrow> nat \<Rightarrow> database res" where
  "adjust_proxied_witness_votes db n delta depth =
     bindE (get_account db n) (\<lambda>a.
     if ac_proxy a \<noteq> STEEM_PROXY_TO_SELF_ACCOUNT then
       if depth \<ge> STEEM_MAX_PROXY_RECURSION_DEPTH then Inr db
       else
         bindE (modify_account db (ac_proxy a) (\<lambda>p.
           bindE (safe_add (ac_proxied_vsf_votes p ! depth) delta) (\<lambda>v.
           Inr (p\<lparr> ac_proxied_vsf_votes := (ac_proxied_vsf_votes p)[depth := v] \<rparr>)))) (\<lambda>db.
         adjust_proxied_witness_votes db (ac_proxy a) delta (depth + 1))
     else adjust_witness_votes db n delta)"
  by pat_completeness auto
termination
  by (relation "measure (\<lambda>(db, n, delta, depth). 5 - depth)") auto

declare adjust_proxied_witness_votes.simps [simp del]

text \<open>The overload that takes an array of changes, one per distance from the account.\<close>

definition add_proxied :: "nat \<Rightarrow> int list \<Rightarrow> account_object \<Rightarrow> account_object res" where
  "add_proxied depth delta p =
     foldE (\<lambda>i p. bindE (safe_add (ac_proxied_vsf_votes p ! (i + depth)) (delta ! i)) (\<lambda>v.
         Inr (p\<lparr> ac_proxied_vsf_votes := (ac_proxied_vsf_votes p)[i + depth := v] \<rparr>)))
       (rev [0..<STEEM_MAX_PROXY_RECURSION_DEPTH - depth]) p"

function adjust_proxied_witness_votes_array ::
  "database \<Rightarrow> account_name_type \<Rightarrow> int list \<Rightarrow> nat \<Rightarrow> database res" where
  "adjust_proxied_witness_votes_array db n delta depth =
     bindE (get_account db n) (\<lambda>a.
     if ac_proxy a \<noteq> STEEM_PROXY_TO_SELF_ACCOUNT then
       if depth \<ge> STEEM_MAX_PROXY_RECURSION_DEPTH then Inr db
       else
         bindE (modify_account db (ac_proxy a) (add_proxied depth delta)) (\<lambda>db.
         adjust_proxied_witness_votes_array db (ac_proxy a) delta (depth + 1))
     else
       bindE (foldE (\<lambda>i t. safe_add t (delta ! i))
           (rev [0..<Suc (STEEM_MAX_PROXY_RECURSION_DEPTH - depth)]) 0) (\<lambda>total_delta.
       adjust_witness_votes db n total_delta))"
  by pat_completeness auto
termination
  by (relation "measure (\<lambda>(db, n, delta, depth). 5 - depth)") auto

declare adjust_proxied_witness_votes_array.simps [simp del]

definition clear_witness_votes :: "database \<Rightarrow> account_name_type \<Rightarrow> database res" where
  "clear_witness_votes db n =
     (let wv = db_witness_votes db;
          db = db\<lparr> db_witness_votes := wv\<lparr> rows := filter (\<lambda>v. wv_account v \<noteq> n) (rows wv) \<rparr> \<rparr>
      in modify_account db n (\<lambda>a. Inr (a\<lparr> ac_witnesses_voted_for := 0 \<rparr>)))"

lemma add_proxied_votes: "add_proxied depth delta p = Inr p' \<Longrightarrow> \<exists>v. p' = p\<lparr> ac_proxied_vsf_votes := v \<rparr>"
  unfolding add_proxied_def
proof (erule foldE_rel)
  fix t :: account_object
  show "\<exists>v. t = t\<lparr> ac_proxied_vsf_votes := v \<rparr>" by (rule exI[of _ "ac_proxied_vsf_votes t"]) simp
next
  fix a b c :: account_object
  assume "\<exists>v. b = a\<lparr> ac_proxied_vsf_votes := v \<rparr>" and "\<exists>v. c = b\<lparr> ac_proxied_vsf_votes := v \<rparr>"
  then obtain v w where "b = a\<lparr> ac_proxied_vsf_votes := v \<rparr>" and "c = b\<lparr> ac_proxied_vsf_votes := w \<rparr>" by blast
  then have "c = a\<lparr> ac_proxied_vsf_votes := w \<rparr>" by simp
  then show "\<exists>v. c = a\<lparr> ac_proxied_vsf_votes := v \<rparr>" by blast
qed (force simp: res_simps)

section \<open>What a change of votes leaves alone\<close>

text \<open>A relation between states that may be crossed by any change of a witness and by any change of
  the proxied votes of an account is kept by every propagation of votes.\<close>

locale vote_frame =
  fixes R :: "database \<Rightarrow> database \<Rightarrow> bool"
  assumes same_state: "R db db"
    and compose: "R a b \<Longrightarrow> R b c \<Longrightarrow> R a c"
    and witness_change: "modify_witness db n f = Inr db' \<Longrightarrow> R db db'"
    and proxied_change: "modify_account db n g = Inr db' \<Longrightarrow>
      (\<And>a a'. g a = Inr a' \<Longrightarrow> \<exists>v. a' = a\<lparr> ac_proxied_vsf_votes := v \<rparr>) \<Longrightarrow> R db db'"
begin

lemma adjust_votes_frame:
  assumes "adjust_witness_votes db n delta = Inr db'"
  shows "R db db'"
  using assms unfolding adjust_witness_votes_def
  by (rule foldE_rel) (auto simp: adjust_witness_vote_def intro: same_state witness_change compose)

lemma adjust_proxied_frame:
  "adjust_proxied_witness_votes db n delta depth = Inr db' \<Longrightarrow> R db db'"
proof (induction db n delta depth arbitrary: db' rule: adjust_proxied_witness_votes.induct)
  case (1 db n delta depth)
  from 1(2) obtain a where a: "get_account db n = Inr a"
    by (subst (asm) adjust_proxied_witness_votes.simps) (auto simp: res_simps)
  consider (self) "ac_proxy a = []" | (deep) "ac_proxy a \<noteq> []" "depth \<ge> 4"
    | (up) "ac_proxy a \<noteq> []" "\<not> depth \<ge> 4" by blast
  then show ?case
  proof cases
    case self
    with 1(2) a show ?thesis
      by (subst (asm) adjust_proxied_witness_votes.simps) (auto dest: adjust_votes_frame)
  next
    case deep
    with 1(2) a show ?thesis
      by (subst (asm) adjust_proxied_witness_votes.simps) (simp add: same_state)
  next
    case up
    with 1(2) a obtain db1 where
      m: "modify_account db (ac_proxy a) (\<lambda>p.
         bindE (safe_add (ac_proxied_vsf_votes p ! depth) delta) (\<lambda>v.
         Inr (p\<lparr> ac_proxied_vsf_votes := (ac_proxied_vsf_votes p)[depth := v] \<rparr>))) = Inr db1"
      and r: "adjust_proxied_witness_votes db1 (ac_proxy a) delta (depth + 1) = Inr db'"
      by (subst (asm) adjust_proxied_witness_votes.simps) (auto simp: bindE_eq_Inr)
    have "R db db1" by (rule proxied_change[OF m]) (auto simp: res_simps)
    with 1(1)[OF a up m r] show ?thesis by (blast intro: compose)
  qed
qed

lemma adjust_proxied_array_frame:
  "adjust_proxied_witness_votes_array db n delta depth = Inr db' \<Longrightarrow> R db db'"
proof (induction db n delta depth arbitrary: db' rule: adjust_proxied_witness_votes_array.induct)
  case (1 db n delta depth)
  from 1(2) obtain a where a: "get_account db n = Inr a"
    by (subst (asm) adjust_proxied_witness_votes_array.simps) (auto simp: res_simps)
  consider (self) "ac_proxy a = []" | (deep) "ac_proxy a \<noteq> []" "depth \<ge> 4"
    | (up) "ac_proxy a \<noteq> []" "\<not> depth \<ge> 4" by blast
  then show ?case
  proof cases
    case self
    with 1(2) a show ?thesis
      by (subst (asm) adjust_proxied_witness_votes_array.simps) (auto simp: res_simps dest: adjust_votes_frame)
  next
    case deep
    with 1(2) a show ?thesis
      by (subst (asm) adjust_proxied_witness_votes_array.simps) (simp add: same_state)
  next
    case up
    with 1(2) a obtain db1 where
      m: "modify_account db (ac_proxy a) (add_proxied depth delta) = Inr db1"
      and r: "adjust_proxied_witness_votes_array db1 (ac_proxy a) delta (depth + 1) = Inr db'"
      by (subst (asm) adjust_proxied_witness_votes_array.simps) (auto simp: bindE_eq_Inr)
    have "R db db1" by (rule proxied_change[OF m]) (rule add_proxied_votes)
    with 1(1)[OF a up m r] show ?thesis by (blast intro: compose)
  qed
qed

end

text \<open>Votes move no assets and touch only accounts and witnesses.\<close>

interpretation vote_ledger: vote_frame ledger_same
proof unfold_locales
  fix db n g db' assume m: "modify_account db n g = Inr db'"
    and g: "\<And>a a'. g a = Inr a' \<Longrightarrow> \<exists>v. a' = a\<lparr> ac_proxied_vsf_votes := v \<rparr>"
  show "ledger_same db db'"
  proof (rule modify_account_same[OF m])
    fix a a' assume "g a = Inr a'"
    from g[OF this] show "same_holdings a a'" by (auto simp: same_holdings_def)
  qed
qed (auto intro: ledger_same_trans modify_witness_same)

interpretation vote_core: vote_frame core_frame
  by unfold_locales (auto intro: core_frame_trans modify_frames)

lemmas adjust_proxied_same = vote_ledger.adjust_proxied_frame
lemmas adjust_witness_votes_same = vote_ledger.adjust_votes_frame

end
