(* ===== verification/Sample.thy ===== *)
theory Sample
  imports Chain_State
begin

text \<open>
  A small concrete chain state on which the properties of the components are evaluated: three
  accounts, one witness, one reward fund, a balanced ledger and a median feed.
\<close>

text \<open>The value of a successful run, for states that are reached by running an operation.\<close>

definition res_or :: "'a \<Rightarrow> 'a res \<Rightarrow> 'a" where
  "res_or d r = (case r of Inr x \<Rightarrow> x | Inl e \<Rightarrow> d)"

lemma res_or_run:
  assumes "case r of Inr x \<Rightarrow> P x | Inl e \<Rightarrow> False"
  shows "r = Inr (res_or d r)" and "P (res_or d r)"
  using assms by (auto simp: res_or_def split: sum.splits)

definition sample_account :: "nat \<Rightarrow> string \<Rightarrow> int \<Rightarrow> int \<Rightarrow> int \<Rightarrow> account_object" where
  "sample_account i n steem sbd vests =
     (new_account i)\<lparr> ac_name := n, ac_memo_key := ''key-'' @ n, ac_recovery_account := ''alice'',
        ac_balance := mk_asset steem STEEM_SYMBOL, ac_sbd_balance := mk_asset sbd SBD_SYMBOL,
        ac_vesting_shares := mk_asset vests VESTS_SYMBOL \<rparr>"

definition sample_authority :: "string \<Rightarrow> authority" where
  "sample_authority k = \<lparr> weight_threshold = 1, account_auths = [], key_auths = [(k, 1)] \<rparr>"

definition sample_account_authority :: "nat \<Rightarrow> string \<Rightarrow> account_authority_object" where
  "sample_account_authority i n =
     \<lparr> aa_id = i, aa_account = n, aa_owner = sample_authority (''owner-'' @ n),
       aa_active = sample_authority (''active-'' @ n), aa_posting = sample_authority (''posting-'' @ n),
       aa_last_owner_update = 0 \<rparr>"

definition sample_props :: chain_properties where
  "sample_props = \<lparr> cp_account_creation_fee = mk_asset 3000 STEEM_SYMBOL, cp_maximum_block_size = 131072,
     cp_sbd_interest_rate = 1000, cp_account_subsidy_limit = 0 \<rparr>"

definition sample_price :: price where
  "sample_price = \<lparr> base = mk_asset 1000 SBD_SYMBOL, quote = mk_asset 2000 STEEM_SYMBOL \<rparr>"

definition sample_witness :: witness_object where
  "sample_witness = \<lparr> w_id = 0, w_owner = ''carol'', w_created = 0, w_url = ''carol.example'',
     w_total_missed = 0, w_last_aslot = 0, w_last_confirmed_block_num = 0, w_signing_key = ''block-carol'',
     w_props = sample_props, w_sbd_exchange_rate = sample_price, w_last_sbd_exchange_update = 1499999000,
     w_votes = 0, w_schedule = none, w_virtual_last_update = 0, w_virtual_position = 0,
     w_virtual_scheduled_time = 0, w_running_version = 0, w_hardfork_version_vote = 0,
     w_hardfork_time_vote = 0 \<rparr>"

definition sample_dgp :: dynamic_global_property_object where
  "sample_dgp = \<lparr> dgp_head_block_number = 100, dgp_head_block_id = 100, dgp_time = 1500000000,
     dgp_current_witness = ''carol'', dgp_virtual_supply = mk_asset 241000 STEEM_SYMBOL,
     dgp_current_supply = mk_asset 141000 STEEM_SYMBOL, dgp_confidential_supply = mk_asset 0 STEEM_SYMBOL,
     dgp_current_sbd_supply = mk_asset 50000 SBD_SYMBOL, dgp_confidential_sbd_supply = mk_asset 0 SBD_SYMBOL,
     dgp_total_vesting_fund_steem = mk_asset 6000 STEEM_SYMBOL,
     dgp_total_vesting_shares = mk_asset 6000000 VESTS_SYMBOL,
     dgp_total_reward_fund_steem = mk_asset 0 STEEM_SYMBOL, dgp_total_reward_shares2 = 0,
     dgp_pending_rewarded_vesting_shares = mk_asset 0 VESTS_SYMBOL,
     dgp_pending_rewarded_vesting_steem = mk_asset 0 STEEM_SYMBOL, dgp_sbd_interest_rate = 0,
     dgp_sbd_print_rate = 10000, dgp_maximum_block_size = 131072, dgp_current_aslot = 100,
     dgp_recent_slots_filled = 0, dgp_participation_count = 128, dgp_last_irreversible_block_num = 90,
     dgp_vote_power_reserve_rate = 10, dgp_delegation_return_period = 432000 \<rparr>"

definition sample_wso :: witness_schedule_object where
  "sample_wso = \<lparr> wso_current_virtual_time = 0, wso_next_shuffle_block_num = 101,
     wso_current_shuffled_witnesses = [''carol''], wso_num_scheduled_witnesses = 1, wso_top20_weight = 1,
     wso_timeshare_weight = 5, wso_witness_pay_normalization_factor = 25, wso_median_props = sample_props,
     wso_majority_version = 0, wso_max_voted_witnesses = 20, wso_max_runner_witnesses = 1,
     wso_hardfork_required_witnesses = 17 \<rparr>"

definition sample_db :: database where
  "sample_db = \<lparr> db_dgp = sample_dgp, db_wso = sample_wso,
     db_feed = \<lparr> fh_current_median_history = sample_price, fh_price_history = [sample_price] \<rparr>,
     db_hpo = \<lparr> hpo_processed_hardforks = [0], hpo_last_hardfork = 0, hpo_current_hardfork_version = 0,
       hpo_next_hardfork = 0, hpo_next_hardfork_time = 0 \<rparr>,
     db_accounts = \<lparr> rows = [sample_account 0 ''alice'' 100000 50000 1000000,
       sample_account 1 ''bob'' 20000 0 2000000, sample_account 2 ''carol'' 5000 0 3000000], next_id = 3 \<rparr>,
     db_authorities = \<lparr> rows = [sample_account_authority 0 ''alice'', sample_account_authority 1 ''bob'',
       sample_account_authority 2 ''carol''], next_id = 3 \<rparr>,
     db_witnesses = \<lparr> rows = [sample_witness], next_id = 1 \<rparr>,
     db_witness_votes = empty_table, db_comments = empty_table, db_comment_contents = empty_table,
     db_comment_votes = empty_table, db_orders = empty_table, db_escrows = empty_table,
     db_savings_withdraws = empty_table, db_converts = empty_table, db_routes = empty_table,
     db_delegations = empty_table, db_delegation_expirations = empty_table,
     db_decline_requests = empty_table,
     db_reward_funds = \<lparr> rows = [\<lparr> rf_id = 0, rf_name = STEEM_POST_REWARD_FUND_NAME,
       rf_reward_balance = mk_asset 10000 STEEM_SYMBOL, rf_recent_claims = 0, rf_last_update = 1500000000,
       rf_content_constant = 2000000000000, rf_percent_curation_rewards = 2500,
       rf_percent_content_rewards = 10000, rf_author_reward_curve = linear,
       rf_curation_reward_curve = square_root \<rparr>], next_id = 1 \<rparr>,
     db_owner_history = empty_table, db_recovery_requests = empty_table,
     db_change_recovery = empty_table \<rparr>"

end
