(* ===== verification/Balances.thy ===== *)
theory Balances
  imports Witness_Votes Sample
begin

text \<open>
  The balance primitives of src/src/core/chain/database.cpp that every evaluator uses:
  \<open>modify_balance\<close> and its variants for savings and rewards, the interest on SBD, the supply, the
  creation of SBD and of vesting shares, and \<open>validate_invariants\<close>.  Virtual operations are
  notifications to plugins and leave the state alone; they are not modelled.

  The lemmas give the exact change of the slack (theory Ledger) for each primitive.
\<close>

section \<open>Interest on SBD\<close>

definition sbd_interest :: "database \<Rightarrow> int \<Rightarrow> asset res" where
  "sbd_interest db secs =
     (let interest = to_uint128 (secs div STEEM_SECONDS_PER_YEAR * dgp_sbd_interest_rate (db_dgp db))
            div STEEM_100_PERCENT
      in fc_assert 97 (interest < two64) (Inr (mk_asset (to_int64 interest) SBD_SYMBOL)))"

definition add_interest_to_supply :: "database \<Rightarrow> asset \<Rightarrow> database res" where
  "add_interest_to_supply db paid =
     modify_dgp db (\<lambda>g.
       bindE (asset_add (dgp_current_sbd_supply g) paid) (\<lambda>s.
       bindE (asset_mul_price paid (current_median_history db)) (\<lambda>x.
       bindE (asset_add (dgp_virtual_supply g) x) (\<lambda>v.
       Inr (g\<lparr> dgp_current_sbd_supply := s, dgp_virtual_supply := v \<rparr>)))))"

definition pay_sbd_interest :: "time_point_sec \<Rightarrow> asset \<Rightarrow> account_object \<Rightarrow> account_object res" where
  "pay_sbd_interest now paid acnt =
     bindE (asset_add (ac_sbd_balance acnt) paid) (\<lambda>b.
     Inr (acnt\<lparr> ac_sbd_balance := b, ac_sbd_seconds := 0, ac_sbd_seconds_last_update := now,
                ac_sbd_last_interest_payment := now \<rparr>))"

definition pay_savings_interest :: "time_point_sec \<Rightarrow> asset \<Rightarrow> account_object \<Rightarrow> account_object res" where
  "pay_savings_interest now paid acnt =
     bindE (asset_add (ac_savings_sbd_balance acnt) paid) (\<lambda>b.
     Inr (acnt\<lparr> ac_savings_sbd_balance := b, ac_savings_sbd_seconds := 0,
                ac_savings_sbd_seconds_last_update := now,
                ac_savings_sbd_last_interest_payment := now \<rparr>))"

definition accrue_sbd_interest :: "database \<Rightarrow> account_name_type \<Rightarrow> database res" where
  "accrue_sbd_interest db n =
     bindE (get_account db n) (\<lambda>a.
     let now = head_block_time db in
     if ac_sbd_seconds_last_update a \<noteq> now then
       let secs = to_uint128 (ac_sbd_seconds a
             + to_uint128 (amount (ac_sbd_balance a)) * to_uint128 (now - ac_sbd_seconds_last_update a))
       in if secs > 0 \<and> now - ac_sbd_last_interest_payment a > STEEM_SBD_INTEREST_COMPOUND_INTERVAL_SEC
          then
            bindE (sbd_interest db secs) (\<lambda>paid.
            bindE (modify_account db n (pay_sbd_interest now paid)) (\<lambda>db.
            add_interest_to_supply db paid))
          else modify_account db n (\<lambda>acnt.
            Inr (acnt\<lparr> ac_sbd_seconds := secs, ac_sbd_seconds_last_update := now \<rparr>))
     else Inr db)"

definition accrue_savings_interest :: "database \<Rightarrow> account_name_type \<Rightarrow> database res" where
  "accrue_savings_interest db n =
     bindE (get_account db n) (\<lambda>a.
     let now = head_block_time db in
     if ac_savings_sbd_seconds_last_update a \<noteq> now then
       let secs = to_uint128 (ac_savings_sbd_seconds a
             + to_uint128 (amount (ac_savings_sbd_balance a))
               * to_uint128 (now - ac_savings_sbd_seconds_last_update a))
       in if secs > 0 \<and>
             now - ac_savings_sbd_last_interest_payment a > STEEM_SBD_INTEREST_COMPOUND_INTERVAL_SEC
          then
            bindE (sbd_interest db secs) (\<lambda>paid.
            bindE (modify_account db n (pay_savings_interest now paid)) (\<lambda>db.
            add_interest_to_supply db paid))
          else modify_account db n (\<lambda>acnt.
            Inr (acnt\<lparr> ac_savings_sbd_seconds := secs, ac_savings_sbd_seconds_last_update := now \<rparr>))
     else Inr db)"

section \<open>Balances\<close>

definition modify_balance :: "database \<Rightarrow> account_name_type \<Rightarrow> asset \<Rightarrow> bool \<Rightarrow> database res" where
  "modify_balance db n delta check_balance =
     (if symbol delta = STEEM_SYMBOL then
        modify_account db n (\<lambda>acnt.
          bindE (asset_add (ac_balance acnt) delta) (\<lambda>b.
          fc_assert 3448 (check_balance \<longrightarrow> amount b \<ge> 0) (Inr (acnt\<lparr> ac_balance := b \<rparr>))))
      else if symbol delta = SBD_SYMBOL then
        bindE (accrue_sbd_interest db n) (\<lambda>db.
        modify_account db n (\<lambda>acnt.
          bindE (asset_add (ac_sbd_balance acnt) delta) (\<lambda>b.
          fc_assert 3481 (check_balance \<longrightarrow> amount b \<ge> 0) (Inr (acnt\<lparr> ac_sbd_balance := b \<rparr>)))))
      else if symbol delta = VESTS_SYMBOL then
        modify_account db n (\<lambda>acnt.
          bindE (asset_add (ac_vesting_shares acnt) delta) (\<lambda>b.
          fc_assert 3488 (check_balance \<longrightarrow> amount b \<ge> 0) (Inr (acnt\<lparr> ac_vesting_shares := b \<rparr>))))
      else Inl (Assert_exception 3492))"

definition adjust_balance :: "database \<Rightarrow> account_name_type \<Rightarrow> asset \<Rightarrow> database res" where
  "adjust_balance db n delta = modify_balance db n delta True"

definition modify_reward_balance ::
  "database \<Rightarrow> account_name_type \<Rightarrow> asset \<Rightarrow> asset \<Rightarrow> bool \<Rightarrow> database res" where
  "modify_reward_balance db n value_delta share_delta check_balance =
     modify_account db n (\<lambda>acnt.
       if symbol value_delta = STEEM_SYMBOL then
         if amount share_delta = 0 then
           bindE (asset_add (ac_reward_steem_balance acnt) value_delta) (\<lambda>b.
           fc_assert 3509 (check_balance \<longrightarrow> amount b \<ge> 0) (Inr (acnt\<lparr> ac_reward_steem_balance := b \<rparr>)))
         else
           bindE (asset_add (ac_reward_vesting_steem acnt) value_delta) (\<lambda>s.
           bindE (asset_add (ac_reward_vesting_balance acnt) share_delta) (\<lambda>b.
           fc_assert 3518 (check_balance \<longrightarrow> amount b \<ge> 0)
             (Inr (acnt\<lparr> ac_reward_vesting_steem := s, ac_reward_vesting_balance := b \<rparr>))))
       else if symbol value_delta = SBD_SYMBOL then
         fc_assert 3523 (amount share_delta = 0)
         (bindE (asset_add (ac_reward_sbd_balance acnt) value_delta) (\<lambda>b.
          fc_assert 3527 (check_balance \<longrightarrow> amount b \<ge> 0) (Inr (acnt\<lparr> ac_reward_sbd_balance := b \<rparr>))))
       else Inl (Assert_exception 3531))"

definition adjust_reward_balance ::
  "database \<Rightarrow> account_name_type \<Rightarrow> asset \<Rightarrow> asset \<Rightarrow> database res" where
  "adjust_reward_balance db n value_delta share_delta =
     bindE (is_vesting (symbol value_delta)) (\<lambda>v.
     if v then Inl (Assert_exception 3596)
     else bindE (is_vesting (symbol share_delta)) (\<lambda>s.
       fc_assert 3596 s (modify_reward_balance db n value_delta share_delta True)))"

definition adjust_savings_balance :: "database \<Rightarrow> account_name_type \<Rightarrow> asset \<Rightarrow> database res" where
  "adjust_savings_balance db n delta =
     (if symbol delta = STEEM_SYMBOL then
        modify_account db n (\<lambda>acnt.
          bindE (asset_add (ac_savings_balance acnt) delta) (\<lambda>b.
          fc_assert 3555 (amount b \<ge> 0) (Inr (acnt\<lparr> ac_savings_balance := b \<rparr>))))
      else if symbol delta = SBD_SYMBOL then
        bindE (accrue_savings_interest db n) (\<lambda>db.
        modify_account db n (\<lambda>acnt.
          bindE (asset_add (ac_savings_sbd_balance acnt) delta) (\<lambda>b.
          fc_assert 3585 (amount b \<ge> 0) (Inr (acnt\<lparr> ac_savings_sbd_balance := b \<rparr>)))))
      else Inl (Assert_exception 3588))"

definition get_balance :: "account_object \<Rightarrow> asset_symbol_type \<Rightarrow> asset res" where
  "get_balance a s =
     (if s = STEEM_SYMBOL then Inr (ac_balance a)
      else if s = SBD_SYMBOL then Inr (ac_sbd_balance a)
      else Inl (Assert_exception 3650))"

definition get_savings_balance :: "account_object \<Rightarrow> asset_symbol_type \<Rightarrow> asset res" where
  "get_savings_balance a s =
     (if s = STEEM_SYMBOL then Inr (ac_savings_balance a)
      else if s = SBD_SYMBOL then Inr (ac_savings_sbd_balance a)
      else Inl (Assert_exception 3663))"

section \<open>Supply\<close>

definition adjust_supply :: "database \<Rightarrow> asset \<Rightarrow> bool \<Rightarrow> database res" where
  "adjust_supply db delta adjust_vesting0 =
     (let adjust_vesting = (if head_block_num db < STEEM_BLOCKS_PER_DAY * 7 then False else adjust_vesting0) in
      modify_dgp db (\<lambda>g.
        if symbol delta = STEEM_SYMBOL then
          bindE (if adjust_vesting \<and> amount delta > 0 then safe_mul (amount delta) 9 else Inr 0) (\<lambda>nv.
          let new_vesting = mk_asset nv STEEM_SYMBOL in
          bindE (asset_add delta new_vesting) (\<lambda>d.
          bindE (asset_add (dgp_current_supply g) d) (\<lambda>c.
          bindE (asset_add (dgp_virtual_supply g) d) (\<lambda>v.
          bindE (asset_add (dgp_total_vesting_fund_steem g) new_vesting) (\<lambda>f.
          fc_assert 3626 (amount c \<ge> 0)
          (Inr (g\<lparr> dgp_current_supply := c, dgp_virtual_supply := v, dgp_total_vesting_fund_steem := f \<rparr>)))))))
        else if symbol delta = SBD_SYMBOL then
          bindE (asset_add (dgp_current_sbd_supply g) delta) (\<lambda>s.
          bindE (asset_mul_price s (current_median_history db)) (\<lambda>x.
          bindE (asset_add x (dgp_current_supply g)) (\<lambda>v.
          fc_assert 3632 (amount s \<ge> 0)
          (Inr (g\<lparr> dgp_current_sbd_supply := s, dgp_virtual_supply := v \<rparr>)))))
        else Inl (Assert_exception 3635)))"

definition util_to_sbd :: "price \<Rightarrow> asset \<Rightarrow> asset res" where
  "util_to_sbd p steem =
     fc_assert 12 (symbol steem = STEEM_SYMBOL)
     (if price_is_null p then Inr (mk_asset 0 SBD_SYMBOL) else asset_mul_price steem p)"

definition util_to_steem :: "price \<Rightarrow> asset \<Rightarrow> asset res" where
  "util_to_steem p sbd =
     fc_assert 20 (symbol sbd = SBD_SYMBOL)
     (if price_is_null p then Inr (mk_asset 0 STEEM_SYMBOL) else asset_mul_price sbd p)"

section \<open>Creation of SBD and of vesting shares\<close>

definition create_sbd ::
  "database \<Rightarrow> account_name_type \<Rightarrow> asset \<Rightarrow> bool \<Rightarrow> (database \<times> asset \<times> asset) res" where
  "create_sbd db n steem to_reward_balance =
     (let median_price = current_median_history db in
      if amount steem = 0 then Inr (db, mk_asset 0 SBD_SYMBOL, mk_asset 0 STEEM_SYMBOL)
      else if \<not> price_is_null median_price then
        bindE (safe_mul (dgp_sbd_print_rate (db_dgp db)) (amount steem)) (\<lambda>x.
        bindE (safe_div x STEEM_100_PERCENT) (\<lambda>to_sbd.
        bindE (safe_sub (amount steem) to_sbd) (\<lambda>to_steem.
        bindE (asset_mul_price (mk_asset to_sbd STEEM_SYMBOL) median_price) (\<lambda>sbd.
        bindE (if to_reward_balance then
                 bindE (adjust_reward_balance db n sbd (mk_asset 0 VESTS_SYMBOL)) (\<lambda>db.
                 adjust_reward_balance db n (mk_asset to_steem STEEM_SYMBOL) (mk_asset 0 VESTS_SYMBOL))
               else
                 bindE (adjust_balance db n sbd) (\<lambda>db.
                 adjust_balance db n (mk_asset to_steem STEEM_SYMBOL))) (\<lambda>db.
        bindE (safe_neg to_sbd) (\<lambda>m.
        bindE (adjust_supply db (mk_asset m STEEM_SYMBOL) False) (\<lambda>db.
        bindE (adjust_supply db sbd False) (\<lambda>db.
        Inr (db, sbd, mk_asset to_steem STEEM_SYMBOL)))))))))
      else
        bindE (adjust_balance db n steem) (\<lambda>db. Inr (db, mk_asset 0 SBD_SYMBOL, steem)))"

definition create_vesting ::
  "database \<Rightarrow> account_name_type \<Rightarrow> asset \<Rightarrow> bool \<Rightarrow> (database \<times> asset) res" where
  "create_vesting db n liquid to_reward_balance =
     fc_assert 1133 (symbol liquid = STEEM_SYMBOL)
     (bindE (if to_reward_balance then get_reward_vesting_share_price (db_dgp db)
             else get_vesting_share_price (db_dgp db)) (\<lambda>vesting_share_price.
      bindE (asset_mul_price liquid vesting_share_price) (\<lambda>new_vesting.
      bindE (if to_reward_balance then adjust_reward_balance db n liquid new_vesting
             else adjust_balance db n new_vesting) (\<lambda>db.
      bindE (modify_dgp db (\<lambda>g.
        if to_reward_balance then
          bindE (asset_add (dgp_pending_rewarded_vesting_shares g) new_vesting) (\<lambda>v.
          bindE (asset_add (dgp_pending_rewarded_vesting_steem g) liquid) (\<lambda>f.
          Inr (g\<lparr> dgp_pending_rewarded_vesting_shares := v, dgp_pending_rewarded_vesting_steem := f \<rparr>)))
        else
          bindE (asset_add (dgp_total_vesting_fund_steem g) liquid) (\<lambda>f.
          bindE (asset_add (dgp_total_vesting_shares g) new_vesting) (\<lambda>v.
          Inr (g\<lparr> dgp_total_vesting_fund_steem := f, dgp_total_vesting_shares := v \<rparr>))))) (\<lambda>db.
      bindE (if \<not> to_reward_balance then adjust_proxied_witness_votes db n (amount new_vesting) 0
             else Inr db) (\<lambda>db.
      Inr (db, new_vesting)))))))"

section \<open>The supply check\<close>

type_synonym supply_totals = "asset \<times> asset \<times> asset \<times> asset \<times> int"

definition vsf_votes :: "account_object \<Rightarrow> int res" where
  "vsf_votes a =
     (if ac_proxy a = STEEM_PROXY_TO_SELF_ACCOUNT then witness_vote_weight a
      else Inr (ac_proxied_vsf_votes a ! (STEEM_MAX_PROXY_RECURSION_DEPTH - 1)))"

definition validate_account :: "account_object \<Rightarrow> supply_totals \<Rightarrow> supply_totals res" where
  "validate_account a = (\<lambda>(total_supply, total_sbd, total_vesting, pending_vesting_steem, total_vsf_votes).
     bindE (asset_add total_supply (ac_balance a)) (\<lambda>total_supply.
     bindE (asset_add total_supply (ac_savings_balance a)) (\<lambda>total_supply.
     bindE (asset_add total_supply (ac_reward_steem_balance a)) (\<lambda>total_supply.
     bindE (asset_add total_sbd (ac_sbd_balance a)) (\<lambda>total_sbd.
     bindE (asset_add total_sbd (ac_savings_sbd_balance a)) (\<lambda>total_sbd.
     bindE (asset_add total_sbd (ac_reward_sbd_balance a)) (\<lambda>total_sbd.
     bindE (asset_add total_vesting (ac_vesting_shares a)) (\<lambda>total_vesting.
     bindE (asset_add total_vesting (ac_reward_vesting_balance a)) (\<lambda>total_vesting.
     bindE (asset_add pending_vesting_steem (ac_reward_vesting_steem a)) (\<lambda>pending_vesting_steem.
     bindE (vsf_votes a) (\<lambda>v.
     bindE (safe_add total_vsf_votes v) (\<lambda>total_vsf_votes.
     Inr (total_supply, total_sbd, total_vesting, pending_vesting_steem, total_vsf_votes)))))))))))))"

definition validate_liquid :: "nat \<Rightarrow> asset \<Rightarrow> asset \<times> asset \<Rightarrow> (asset \<times> asset) res" where
  "validate_liquid line x = (\<lambda>(total_supply, total_sbd).
     if symbol x = STEEM_SYMBOL then bindE (asset_add total_supply x) (\<lambda>t. Inr (t, total_sbd))
     else if symbol x = SBD_SYMBOL then bindE (asset_add total_sbd x) (\<lambda>t. Inr (total_supply, t))
     else Inl (Assert_exception line))"

definition validate_order :: "limit_order_object \<Rightarrow> asset \<times> asset \<Rightarrow> (asset \<times> asset) res" where
  "validate_order o1 = (\<lambda>(total_supply, total_sbd).
     if symbol (base (lo_sell_price o1)) = STEEM_SYMBOL then
       bindE (asset_add total_supply (mk_asset (lo_for_sale o1) STEEM_SYMBOL)) (\<lambda>t. Inr (t, total_sbd))
     else if symbol (base (lo_sell_price o1)) = SBD_SYMBOL then
       bindE (asset_add total_sbd (mk_asset (lo_for_sale o1) SBD_SYMBOL)) (\<lambda>t. Inr (total_supply, t))
     else Inr (total_supply, total_sbd))"

definition validate_escrow :: "escrow_object \<Rightarrow> asset \<times> asset \<Rightarrow> (asset \<times> asset) res" where
  "validate_escrow e = (\<lambda>(total_supply, total_sbd).
     bindE (asset_add total_supply (esc_steem_balance e)) (\<lambda>t.
     bindE (asset_add total_sbd (esc_sbd_balance e)) (\<lambda>u.
     validate_liquid 3823 (esc_pending_fee e) (t, u))))"

definition validate_supplies ::
  "dynamic_global_property_object \<Rightarrow> price \<Rightarrow> supply_totals \<Rightarrow> unit res" where
  "validate_supplies g median =
     (\<lambda>(total_supply, total_sbd, total_vesting, pending_vesting_steem, total_vsf_votes).
     bindE (asset_add (dgp_total_vesting_fund_steem g) (dgp_total_reward_fund_steem g)) (\<lambda>f.
     bindE (asset_add f (dgp_pending_rewarded_vesting_steem g)) (\<lambda>f.
     bindE (asset_add total_supply f) (\<lambda>total_supply.
     fc_assert 3847 (dgp_current_supply g = total_supply)
     (fc_assert 3848 (dgp_current_sbd_supply g = total_sbd)
     (bindE (asset_add (dgp_total_vesting_shares g) (dgp_pending_rewarded_vesting_shares g)) (\<lambda>v.
      fc_assert 3849 (v = total_vesting)
      (fc_assert 3850 (amount (dgp_total_vesting_shares g) = total_vsf_votes)
      (fc_assert 3851 (dgp_pending_rewarded_vesting_steem g = pending_vesting_steem)
      (bindE (asset_ge (dgp_virtual_supply g) (dgp_current_supply g)) (\<lambda>ge.
       fc_assert 3853 ge
       (if \<not> price_is_null median then
          bindE (asset_mul_price (dgp_current_sbd_supply g) median) (\<lambda>x.
          bindE (asset_add x (dgp_current_supply g)) (\<lambda>x.
          fc_assert 3856 (x = dgp_virtual_supply g) (Inr ())))
        else Inr ()))))))))))))"

definition validate_invariants :: "database \<Rightarrow> unit res" where
  "validate_invariants db =
     (let g = db_dgp db in
      fc_assert 3765 (list_all (\<lambda>w. w_votes w \<le> amount (dgp_total_vesting_shares g)) (rows (db_witnesses db)))
      (bindE (foldE validate_account (sort_key ac_name (rows (db_accounts db)))
          (mk_asset 0 STEEM_SYMBOL, mk_asset 0 SBD_SYMBOL, mk_asset 0 VESTS_SYMBOL,
           mk_asset 0 STEEM_SYMBOL, 0)) (\<lambda>(ts, sbd, tv, pv, vsf).
       bindE (foldE (\<lambda>c. validate_liquid 3794 (cr_amount c)) (rows (db_converts db)) (ts, sbd)) (\<lambda>t.
       bindE (foldE validate_order (rows (db_orders db)) t) (\<lambda>t.
       bindE (foldE validate_escrow (rows (db_escrows db)) t) (\<lambda>t.
       bindE (foldE (\<lambda>w. validate_liquid 3835 (sw_amount w)) (rows (db_savings_withdraws db)) t) (\<lambda>(ts, sbd).
       bindE (foldE (\<lambda>f ts. asset_add ts (rf_reward_balance f)) (rows (db_reward_funds db)) ts) (\<lambda>ts.
       validate_supplies g (current_median_history db) (ts, sbd, tv, pv, vsf)))))))))"

section \<open>Change of the slack\<close>

lemma add_interest_slack:
  assumes "add_interest_to_supply db paid = Inr db'" "symbol paid = SBD_SYMBOL"
  shows "slack db' s = slack db s + amt paid s"
    and "pending_slack db' = pending_slack db"
proof -
  show "slack db' s = slack db s + amt paid s"
    using assms unfolding add_interest_to_supply_def
    by (elim modify_dgp_slack) (auto simp: res_simps dgp_net_def amt_ops)
  have "pending_slack db' = pending_slack db + 0"
    using assms unfolding add_interest_to_supply_def
    by (elim modify_dgp_pending) (auto simp: res_simps)
  then show "pending_slack db' = pending_slack db" by simp
qed

lemma sbd_interest_symbol: "sbd_interest db secs = Inr p \<Longrightarrow> symbol p = SBD_SYMBOL"
  by (auto simp: sbd_interest_def Let_def res_simps)

lemma pay_interest_same:
  assumes "modify_account db n f = Inr db1" "f = pay_sbd_interest now paid \<or> f = pay_savings_interest now paid"
    and "add_interest_to_supply db1 paid = Inr db'" "symbol paid = SBD_SYMBOL"
  shows "ledger_same db db'"
proof -
  have "slack db1 s = slack db s - amt paid s" for s
    by (rule modify_account_slack[OF assms(1)])
      (use assms(2) in \<open>auto simp: pay_sbd_interest_def pay_savings_interest_def res_simps acc_hold_def
         amt_ops\<close>)
  moreover have "pending_slack db1 = pending_slack db - 0"
    by (rule modify_account_pending[OF assms(1)])
      (use assms(2) in \<open>auto simp: pay_sbd_interest_def pay_savings_interest_def res_simps\<close>)
  ultimately show ?thesis
    using add_interest_slack[OF assms(3,4)] by (simp add: ledger_same_def)
qed

lemma accrue_sbd_interest_same: "accrue_sbd_interest db n = Inr db' \<Longrightarrow> ledger_same db db'"
  unfolding accrue_sbd_interest_def Let_def
  by (auto simp: res_simps same_holdings_def split: if_splits
      elim!: modify_account_same pay_interest_same dest: sbd_interest_symbol)

lemma accrue_savings_interest_same: "accrue_savings_interest db n = Inr db' \<Longrightarrow> ledger_same db db'"
  unfolding accrue_savings_interest_def Let_def
  by (auto simp: res_simps same_holdings_def split: if_splits
      elim!: modify_account_same pay_interest_same dest: sbd_interest_symbol)

lemmas credit_simps = res_simps acc_credit_def acc_hold_def amt_ops

lemma modify_balance_credited: "modify_balance db n d chk = Inr db' \<Longrightarrow> credited d db db'"
  unfolding modify_balance_def
  by (auto simp: credit_simps split: if_splits
      elim!: modify_account_credited same_credited_trans[OF accrue_sbd_interest_same])

lemma adjust_balance_credited: "adjust_balance db n d = Inr db' \<Longrightarrow> credited d db db'"
  by (simp add: adjust_balance_def modify_balance_credited)

lemma adjust_savings_balance_credited: "adjust_savings_balance db n d = Inr db' \<Longrightarrow> credited d db db'"
  unfolding adjust_savings_balance_def
  by (auto simp: credit_simps split: if_splits
      elim!: modify_account_credited same_credited_trans[OF accrue_savings_interest_same])

lemma adjust_reward_balance_credited:
  assumes "adjust_reward_balance db n v sh = Inr db'" "amount sh = 0"
  shows "credited v db db'"
  using assms unfolding adjust_reward_balance_def modify_reward_balance_def
  by (auto simp: credit_simps split: if_splits elim!: modify_account_credited)

lemma modify_dgp_credited:
  assumes "modify_dgp db f = Inr db'"
    and "\<And>g g'. f g = Inr g' \<Longrightarrow> (\<forall>s. dgp_net g' s = dgp_net g s - amt d s) \<and>
      amount (dgp_pending_rewarded_vesting_steem g') = amount (dgp_pending_rewarded_vesting_steem g)"
  shows "credited d db db'"
proof -
  have "slack db' s = slack db s + (- amt d s)" for s
    by (rule modify_dgp_slack[OF assms(1)]) (use assms(2) in simp)
  moreover have "pending_slack db' = pending_slack db + 0"
    by (rule modify_dgp_pending[OF assms(1)]) (use assms(2) in simp)
  ultimately show ?thesis by (simp add: credited_def)
qed

lemma adjust_supply_credited:
  assumes "adjust_supply db d av = Inr db'"
  shows "credited (mk_asset (- amount d) (symbol d)) db db'"
  using assms unfolding adjust_supply_def Let_def
  by (elim modify_dgp_credited)
    (auto simp: res_simps dgp_net_def amt_ops amt_def[of d] split: if_splits)

lemma adjust_reward_shares:
  assumes "adjust_reward_balance db n v sh = Inr db'" "amount sh \<noteq> 0"
  shows "(\<forall>s. slack db' s = slack db s - amt sh s) \<and> pending_slack db' = pending_slack db - amount v"
proof -
  from assms have m: "modify_reward_balance db n v sh True = Inr db'" "symbol v = STEEM_SYMBOL"
    by (auto simp: adjust_reward_balance_def modify_reward_balance_def modify_account_def is_vesting_def
        res_simps split: if_splits dest!: tbl_modify_find)
  note m1 = m(1)[unfolded modify_reward_balance_def]
  have "slack db' s = slack db s - amt sh s" for s
    by (rule modify_account_slack[OF m1]) (use assms(2) m(2) in \<open>auto simp: res_simps acc_hold_def amt_ops\<close>)
  moreover have "pending_slack db' = pending_slack db - amount v"
    by (rule modify_account_pending[OF m1]) (use assms(2) m(2) in \<open>auto simp: res_simps amt_ops\<close>)
  ultimately show ?thesis by blast
qed

lemma adjust_reward_balance_liquid:
  "adjust_reward_balance db n v (mk_asset 0 x) = Inr db' \<Longrightarrow> credited v db db'"
  by (erule adjust_reward_balance_credited) simp

lemma create_sbd_credited:
  assumes "create_sbd db n steem tr = Inr (db', x, y)" "symbol steem = STEEM_SYMBOL"
  shows "credited steem db db'"
  using assms unfolding create_sbd_def Let_def
  by (auto simp: res_simps credited_def amt_def split: if_splits
      dest!: safe_sub_value safe_neg_value adjust_balance_credited adjust_reward_balance_liquid
        adjust_supply_credited)

lemma create_vesting_credited:
  assumes "create_vesting db n liquid tr = Inr (db', nv)" "tr \<Longrightarrow> amount nv = 0 \<Longrightarrow> amount liquid = 0"
  shows "credited liquid db db'"
proof (cases tr)
  case False
  with assms(1) obtain db1 db2 where 1: "adjust_balance db n nv = Inr db1"
    and 2: "modify_dgp db1 (\<lambda>g.
          bindE (asset_add (dgp_total_vesting_fund_steem g) liquid) (\<lambda>f.
          bindE (asset_add (dgp_total_vesting_shares g) nv) (\<lambda>v.
          Inr (g\<lparr> dgp_total_vesting_fund_steem := f, dgp_total_vesting_shares := v \<rparr>)))) = Inr db2"
    and 3: "adjust_proxied_witness_votes db2 n (amount nv) 0 = Inr db'"
    by (auto simp: create_vesting_def fc_assert_eq_Inr bindE_eq_Inr)
  have "slack db2 s = slack db1 s + (amt nv s - amt liquid s)" for s
    by (rule modify_dgp_slack[OF 2]) (auto simp: res_simps dgp_net_def amt_ops)
  moreover have "pending_slack db2 = pending_slack db1 + 0"
    by (rule modify_dgp_pending[OF 2]) (auto simp: res_simps)
  ultimately show ?thesis
    using adjust_balance_credited[OF 1] adjust_proxied_same[OF 3]
    by (simp add: credited_def ledger_same_def)
next
  case True
  with assms(1) obtain db1 where 1: "adjust_reward_balance db n liquid nv = Inr db1"
    and 2: "modify_dgp db1 (\<lambda>g.
          bindE (asset_add (dgp_pending_rewarded_vesting_shares g) nv) (\<lambda>v.
          bindE (asset_add (dgp_pending_rewarded_vesting_steem g) liquid) (\<lambda>f.
          Inr (g\<lparr> dgp_pending_rewarded_vesting_shares := v, dgp_pending_rewarded_vesting_steem := f \<rparr>)))) = Inr db'"
    by (auto simp: create_vesting_def fc_assert_eq_Inr bindE_eq_Inr)
  have "slack db' s = slack db1 s + (amt nv s - amt liquid s)" for s
    by (rule modify_dgp_slack[OF 2]) (auto simp: res_simps dgp_net_def amt_ops)
  moreover have "pending_slack db' = pending_slack db1 + amount liquid"
    by (rule modify_dgp_pending[OF 2]) (auto simp: res_simps amt_ops)
  ultimately show ?thesis
    using adjust_reward_shares[OF 1] adjust_reward_balance_credited[OF 1] assms(2)[OF True]
    by (cases "amount nv = 0") (simp_all add: credited_def amt_def)
qed

section \<open>Frames\<close>

lemma accrue_frame:
  "accrue_sbd_interest db n = Inr db' \<Longrightarrow> core_frame db db'"
  "accrue_savings_interest db n = Inr db' \<Longrightarrow> core_frame db db'"
  unfolding accrue_sbd_interest_def accrue_savings_interest_def pay_sbd_interest_def pay_savings_interest_def
    add_interest_to_supply_def Let_def
  by (auto simp: res_simps split: if_splits prod.splits dest!: modify_frames intro: core_frame_trans)

lemma adjust_balance_frame: "adjust_balance db n d = Inr db' \<Longrightarrow> core_frame db db'"
  unfolding adjust_balance_def modify_balance_def
  by (auto simp: res_simps split: if_splits dest!: modify_frames accrue_frame intro: core_frame_trans)

lemma adjust_savings_balance_frame: "adjust_savings_balance db n d = Inr db' \<Longrightarrow> core_frame db db'"
  unfolding adjust_savings_balance_def
  by (auto simp: res_simps split: if_splits dest!: modify_frames accrue_frame intro: core_frame_trans)

lemma adjust_reward_balance_frame: "adjust_reward_balance db n d e = Inr db' \<Longrightarrow> core_frame db db'"
  unfolding adjust_reward_balance_def modify_reward_balance_def
  by (auto simp: res_simps split: if_splits dest!: modify_frames intro: core_frame_trans)

lemma adjust_supply_frame: "adjust_supply db d v = Inr db' \<Longrightarrow> core_frame db db'"
  unfolding adjust_supply_def Let_def by (rule modify_dgp_frame)

lemmas balance_frames = modify_frames adjust_balance_frame adjust_savings_balance_frame
  adjust_reward_balance_frame adjust_supply_frame

section \<open>What the supply check verifies\<close>

definition amt2 :: "asset \<times> asset \<Rightarrow> asset_symbol_type \<Rightarrow> int" where
  "amt2 p s = amt (fst p) s + amt (snd p) s"

definition amt3 :: "supply_totals \<Rightarrow> asset_symbol_type \<Rightarrow> int" where
  "amt3 t s = (case t of (ts, sbd, tv, pv, vsf) \<Rightarrow> amt ts s + amt sbd s + amt tv s)"

definition syms4 :: "supply_totals \<Rightarrow> asset_symbol_type list" where
  "syms4 t = (case t of (ts, sbd, tv, pv, vsf) \<Rightarrow> [symbol ts, symbol sbd, symbol tv, symbol pv])"

definition pend4 :: "supply_totals \<Rightarrow> int" where
  "pend4 t = (case t of (ts, sbd, tv, pv, vsf) \<Rightarrow> amount pv)"

lemma validate_account_amt:
  "validate_account a t = Inr t' \<Longrightarrow> amt3 t' s = amt3 t s + acc_hold a s"
  by (auto simp: validate_account_def res_simps acc_hold_def amt_ops amt3_def split: prod.splits)

lemma validate_account_pend:
  "validate_account a t = Inr t' \<Longrightarrow> pend4 t' = pend4 t + amount (ac_reward_vesting_steem a)"
  by (auto simp: validate_account_def res_simps pend4_def split: prod.splits dest!: asset_add_value)

lemma validate_account_syms: "validate_account a t = Inr t' \<Longrightarrow> syms4 t' = syms4 t"
  by (auto simp: validate_account_def res_simps syms4_def split: prod.splits dest!: asset_add_value)

lemma validate_liquid_amt:
  "validate_liquid l x t = Inr t' \<Longrightarrow> amt2 t' s = amt2 t s + amt x s"
  by (auto simp: validate_liquid_def res_simps amt2_def amt_ops split: if_splits prod.splits)

lemma validate_liquid_syms:
  "validate_liquid l x t = Inr t' \<Longrightarrow> map_prod symbol symbol t' = map_prod symbol symbol t"
  by (auto simp: validate_liquid_def res_simps split: if_splits prod.splits dest!: asset_add_value)


lemma validate_order_amt:
  assumes "validate_order o1 t = Inr t'"
    and "symbol (base (lo_sell_price o1)) \<in> {STEEM_SYMBOL, SBD_SYMBOL} \<or> order_hold o1 s = 0"
  shows "amt2 t' s = amt2 t s + order_hold o1 s"
proof -
  obtain ts sbd where t: "t = (ts, sbd)" by (cases t)
  have h: "order_hold o1 s = amt (mk_asset (lo_for_sale o1) (symbol (base (lo_sell_price o1)))) s"
    by (simp add: order_hold_def amount_for_sale_def)
  consider "symbol (base (lo_sell_price o1)) = STEEM_SYMBOL" | "symbol (base (lo_sell_price o1)) = SBD_SYMBOL"
    | "symbol (base (lo_sell_price o1)) \<notin> {STEEM_SYMBOL, SBD_SYMBOL}" by blast
  then show ?thesis
  proof cases
    case 1
    then show ?thesis using assms(1) unfolding h by (auto simp: validate_order_def res_simps t amt2_def amt_ops)
  next
    case 2
    then show ?thesis using assms(1) unfolding h by (auto simp: validate_order_def res_simps t amt2_def amt_ops)
  next
    case 3
    then show ?thesis using assms by (simp add: validate_order_def t)
  qed
qed

lemma validate_order_syms:
  "validate_order o1 t = Inr t' \<Longrightarrow> map_prod symbol symbol t' = map_prod symbol symbol t"
  by (auto simp: validate_order_def res_simps split: if_splits prod.splits dest!: asset_add_value)

lemma validate_escrow_amt:
  "validate_escrow e t = Inr t' \<Longrightarrow> amt2 t' s = amt2 t s + escrow_hold e s"
  by (auto simp: validate_escrow_def res_simps escrow_hold_def amt_ops split: prod.splits dest!: validate_liquid_amt[where s = s])
     (auto simp: amt2_def amt_ops)

lemma validate_escrow_syms:
  "validate_escrow e t = Inr t' \<Longrightarrow> map_prod symbol symbol t' = map_prod symbol symbol t"
  by (auto simp: validate_escrow_def res_simps split: prod.splits dest!: validate_liquid_syms asset_add_value)


lemma validate_supplies_net:
  assumes "validate_supplies g m (ts, sbd, tv, pv, vsf) = Inr u"
    and "symbol ts = STEEM_SYMBOL" "symbol sbd = SBD_SYMBOL" "symbol tv = VESTS_SYMBOL"
  shows "dgp_net g s = amt ts s + amt sbd s + amt tv s"
    and "amount (dgp_pending_rewarded_vesting_steem g) = amount pv"
    and "amount (dgp_total_vesting_shares g) = vsf"
  using assms by (auto simp: validate_supplies_def res_simps dgp_net_def amt_ops)

section \<open>Properties\<close>

text \<open>C2. The supply check of the database is sound: when \<open>validate_invariants\<close> accepts a state whose
  orders sell STEEM or SBD, then for STEEM, SBD and VESTS the recorded supply is exactly the sum of
  what accounts, orders, escrows, savings withdrawals, conversions, reward funds and the vesting
  fund hold, and the STEEM behind pending vesting rewards is what the accounts are owed.\<close>

theorem validate_invariants_sound:
  assumes ok: "validate_invariants db = Inr u"
    and orders: "list_all (\<lambda>o1. symbol (base (lo_sell_price o1)) \<noteq> VESTS_SYMBOL) (rows (db_orders db))"
  shows "ledger_balanced db"
proof -
  let ?t0 = "(mk_asset 0 STEEM_SYMBOL, mk_asset 0 SBD_SYMBOL, mk_asset 0 VESTS_SYMBOL,
           mk_asset 0 STEEM_SYMBOL, 0)"
  from ok obtain ts sbd tv pv vsf t1 t2 t3 ts4 sbd4 ts5 where
    a: "foldE validate_account (sort_key ac_name (rows (db_accounts db))) ?t0 = Inr (ts, sbd, tv, pv, vsf)"
    and c: "foldE (\<lambda>c. validate_liquid 3794 (cr_amount c)) (rows (db_converts db)) (ts, sbd) = Inr t1"
    and o: "foldE validate_order (rows (db_orders db)) t1 = Inr t2"
    and e: "foldE validate_escrow (rows (db_escrows db)) t2 = Inr t3"
    and w: "foldE (\<lambda>w. validate_liquid 3835 (sw_amount w)) (rows (db_savings_withdraws db)) t3 = Inr (ts4, sbd4)"
    and f: "foldE (\<lambda>f ts. asset_add ts (rf_reward_balance f)) (rows (db_reward_funds db)) ts4 = Inr ts5"
    and v: "validate_supplies (db_dgp db) (current_median_history db) (ts5, sbd4, tv, pv, vsf) = Inr u"
    unfolding validate_invariants_def Let_def by (auto simp: res_simps split: prod.splits)
  have sy: "symbol ts5 = STEEM_SYMBOL" "symbol sbd4 = SBD_SYMBOL" "symbol tv = VESTS_SYMBOL"
    using foldE_pres[OF a, of syms4, OF validate_account_syms]
      foldE_pres[OF c, of "map_prod symbol symbol", OF validate_liquid_syms]
      foldE_pres[OF o, of "map_prod symbol symbol", OF validate_order_syms]
      foldE_pres[OF e, of "map_prod symbol symbol", OF validate_escrow_syms]
      foldE_pres[OF w, of "map_prod symbol symbol", OF validate_liquid_syms]
      foldE_pres[OF f, of symbol]
    by (auto simp: syms4_def map_prod_def split: prod.splits dest!: asset_add_value)
  have "slack db s = 0" if s: "s = STEEM_SYMBOL \<or> s = SBD_SYMBOL \<or> s = VESTS_SYMBOL" for s
  proof -
    have "amt2 t2 s = amt2 t1 s + sum_list (map (\<lambda>x. order_hold x s) (rows (db_orders db)))"
    proof (rule foldE_sum[OF o])
      fix x t t' assume x: "x \<in> set (rows (db_orders db))" and "validate_order x t = Inr t'"
      moreover have "symbol (base (lo_sell_price x)) \<noteq> VESTS_SYMBOL"
        using orders x unfolding list_all_iff by blast
      then have "symbol (base (lo_sell_price x)) \<in> {STEEM_SYMBOL, SBD_SYMBOL} \<or> order_hold x s = 0"
        using s unfolding order_hold_def amount_for_sale_def amt_def by auto
      ultimately show "amt2 t' s = amt2 t s + order_hold x s" by (blast intro: validate_order_amt)
    qed
    then show ?thesis
    using foldE_sum[OF a, of "\<lambda>t. amt3 t s" "\<lambda>a. acc_hold a s"]
      foldE_sum[OF c, of "\<lambda>t. amt2 t s" "\<lambda>c. amt (cr_amount c) s"]
      foldE_sum[OF e, of "\<lambda>t. amt2 t s" "\<lambda>e. escrow_hold e s"]
      foldE_sum[OF w, of "\<lambda>t. amt2 t s" "\<lambda>w. amt (sw_amount w) s"]
      foldE_sum[OF f, of "\<lambda>t. amt t s" "\<lambda>f. amt (rf_reward_balance f) s"]
      validate_supplies_net(1)[OF v sy, of s]
      validate_account_amt validate_liquid_amt validate_escrow_amt
    by (simp add: slack_def tbl_sum_def amt3_def amt2_def sum_list_sort_key amt_ops)
  qed
  moreover have "pending_slack db = 0"
    using foldE_sum[OF a, of pend4, OF validate_account_pend] validate_supplies_net(2)[OF v sy]
    by (simp add: pending_slack_def tbl_sum_def pend4_def sum_list_sort_key)
  ultimately show ?thesis by (simp add: ledger_balanced_def)
qed

theorem validate_invariants_sound_witness:
  "validate_invariants sample_db = Inr () \<and> ledger_balanced sample_db"
proof -
  have v: "validate_invariants sample_db = Inr ()" by code_simp
  moreover have "ledger_balanced sample_db"
    by (rule validate_invariants_sound[OF v]) code_simp
  ultimately show ?thesis ..
qed

end
