(* ===== verification/Names.thy ===== *)
theory Names
  imports Chain_State
begin

text \<open>
  Account names: \<open>is_valid_account_name\<close> of src/src/core/protocol/authority.cpp and the authority
  structure it guards.  The reference grammar is a dot-separated list of labels.
\<close>

section \<open>The index loop\<close>

definition name_lower :: "char \<Rightarrow> bool" where
  "name_lower c \<longleftrightarrow> c \<in> set ''abcdefghijklmnopqrstuvwxyz''"

definition name_alnum :: "char \<Rightarrow> bool" where
  "name_alnum c \<longleftrightarrow> c \<in> set ''abcdefghijklmnopqrstuvwxyz0123456789''"

definition name_inner :: "char \<Rightarrow> bool" where
  "name_inner c \<longleftrightarrow> c \<in> set ''abcdefghijklmnopqrstuvwxyz0123456789-''"

text \<open>\<open>name.find_first_of( '.', begin )\<close>, with \<open>npos\<close> already replaced by the length.\<close>

definition find_dot :: "string \<Rightarrow> nat \<Rightarrow> nat" where
  "find_dot name b = b + length (takeWhile (\<lambda>c. c \<noteq> CHR ''.'') (drop b name))"

function valid_labels :: "string \<Rightarrow> nat \<Rightarrow> bool" where
  "valid_labels name b =
     (let e = find_dot name b in
      if e - b < 3 then False
      else if \<not> name_lower (name ! b) then False
      else if \<not> name_alnum (name ! (e - 1)) then False
      else if \<not> list_all (\<lambda>i. name_inner (name ! i)) [b + 1 ..< e - 1] then False
      else if e = length name then True
      else valid_labels name (e + 1))"
  by pat_completeness auto

lemma find_dot_bounds:
  "b \<le> find_dot name b" "b \<le> length name \<Longrightarrow> find_dot name b \<le> length name"
proof -
  show "b \<le> find_dot name b" by (simp add: find_dot_def)
  have "length (takeWhile (\<lambda>c. c \<noteq> CHR ''.'') (drop b name)) \<le> length name - b"
    by (metis length_drop length_takeWhile_le)
  then show "b \<le> length name \<Longrightarrow> find_dot name b \<le> length name" by (simp add: find_dot_def)
qed

lemma find_dot_past: "length name \<le> b \<Longrightarrow> find_dot name b = b"
  by (simp add: find_dot_def)

termination valid_labels
proof (relation "measure (\<lambda>(name, b). length name - b)", goal_cases)
  case (2 name b e)
  then have "b < length name" using find_dot_past[of name b] by (cases "b < length name") auto
  with 2 find_dot_bounds(1)[of b name] show ?case by simp
qed simp

definition is_valid_account_name :: "string \<Rightarrow> bool" where
  "is_valid_account_name name =
     (let len = length name in
      if len < STEEM_MIN_ACCOUNT_NAME_LENGTH then False
      else if len > STEEM_MAX_ACCOUNT_NAME_LENGTH then False
      else valid_labels name 0)"

declare valid_labels.simps [simp del]

definition validate_account_name :: "string \<Rightarrow> unit res" where
  "validate_account_name name = fc_assert 19 (is_valid_account_name name) (Inr ())"

definition is_asset_type :: "asset \<Rightarrow> asset_symbol_type \<Rightarrow> bool" where
  "is_asset_type a s \<longleftrightarrow> symbol a = s"

section \<open>Authorities\<close>

fun flat_map_set :: "'k::linorder \<Rightarrow> 'v \<Rightarrow> ('k \<times> 'v) list \<Rightarrow> ('k \<times> 'v) list" where
  "flat_map_set k v [] = [(k, v)]"
| "flat_map_set k v ((k', v') # m) =
     (if k < k' then (k, v) # (k', v') # m
      else if k = k' then (k, v) # m
      else (k', v') # flat_map_set k v m)"

definition add_key_authority :: "public_key_type \<Rightarrow> int \<Rightarrow> authority \<Rightarrow> authority" where
  "add_key_authority k w a = a\<lparr> key_auths := flat_map_set k w (key_auths a) \<rparr>"

definition add_account_authority :: "account_name_type \<Rightarrow> int \<Rightarrow> authority \<Rightarrow> authority" where
  "add_account_authority k w a = a\<lparr> account_auths := flat_map_set k w (account_auths a) \<rparr>"

definition get_keys :: "authority \<Rightarrow> public_key_type list" where
  "get_keys a = map fst (key_auths a)"

definition is_impossible :: "authority \<Rightarrow> bool" where
  "is_impossible a \<longleftrightarrow>
     foldl (\<lambda>acc p. to_uint64 (acc + snd p))
       (foldl (\<lambda>acc p. to_uint64 (acc + snd p)) 0 (account_auths a)) (key_auths a)
     < weight_threshold a"

definition num_auths :: "authority \<Rightarrow> int" where
  "num_auths a = to_uint32 (int (length (account_auths a) + length (key_auths a)))"

definition clear_authority :: "authority \<Rightarrow> authority" where
  "clear_authority a = a\<lparr> account_auths := [], key_auths := [] \<rparr>"

definition authority_validate :: "authority \<Rightarrow> unit res" where
  "authority_validate a =
     foldE (\<lambda>p _. fc_assert 41 (is_valid_account_name (fst p)) (Inr ())) (account_auths a) ()"

definition authority_eq :: "authority \<Rightarrow> authority \<Rightarrow> bool" where
  "authority_eq a b \<longleftrightarrow> weight_threshold a = weight_threshold b \<and>
     account_auths a = account_auths b \<and> key_auths a = key_auths b"

definition validate_auth_size :: "authority \<Rightarrow> unit res" where
  "validate_auth_size a =
     fc_assert 14 (length (account_auths a) + length (key_auths a) \<le> STEEM_MAX_AUTHORITY_MEMBERSHIP) (Inr ())"

section \<open>The reference grammar\<close>

function split_dots :: "string \<Rightarrow> string list" where
  "split_dots xs =
     takeWhile (\<lambda>c. c \<noteq> CHR ''.'') xs #
     (case dropWhile (\<lambda>c. c \<noteq> CHR ''.'') xs of [] \<Rightarrow> [] | _ # r \<Rightarrow> split_dots r)"
  by pat_completeness auto

termination split_dots
proof (relation "measure length", goal_cases)
  case (2 xs d r)
  then have "length (d # r) \<le> length xs" by (metis length_dropWhile_le)
  then show ?case by simp
qed simp

declare split_dots.simps [simp del]

definition label_ok :: "string \<Rightarrow> bool" where
  "label_ok l \<longleftrightarrow> 3 \<le> length l \<and> name_lower (hd l) \<and> name_alnum (last l) \<and>
     list_all name_inner (butlast (tl l))"

lemma label_at:
  assumes e: "e = b + length w" "3 \<le> length w" and w: "take (length w) (drop b name) = w"
    and b: "b + length w \<le> length name"
  shows "name ! b = hd w" "name ! (e - 1) = last w"
    "list_all (\<lambda>i. P (name ! i)) [b + 1 ..< e - 1] \<longleftrightarrow> list_all P (butlast (tl w))"
proof -
  have nth: "w ! i = name ! (b + i)" if "i < length w" for i
    using w b that by (metis add_leE nth_drop nth_take)
  show "name ! b = hd w" using nth[of 0] e by (cases w) auto
  show "name ! (e - 1) = last w" using nth[of "length w - 1"] e by (cases "w = []") (auto simp: last_conv_nth)
  have "map (\<lambda>i. name ! i) [b + 1 ..< e - 1] = butlast (tl w)"
    using e nth by (intro nth_equalityI) (auto simp: nth_butlast nth_tl)
  then show "list_all (\<lambda>i. P (name ! i)) [b + 1 ..< e - 1] \<longleftrightarrow> list_all P (butlast (tl w))"
    by (metis (no_types, lifting) list.pred_map comp_def list.pred_cong)
qed

lemma valid_labels_split:
  "b \<le> length name \<Longrightarrow> valid_labels name b \<longleftrightarrow> list_all label_ok (split_dots (drop b name))"
proof (induction name b rule: valid_labels.induct)
  case (1 name b)
  let ?P = "\<lambda>c. c \<noteq> CHR ''.''"
  let ?w = "takeWhile ?P (drop b name)" and ?r = "dropWhile ?P (drop b name)"
  let ?e = "find_dot name b"
  have e: "?e = b + length ?w" by (simp add: find_dot_def)
  have le: "b + length ?w \<le> length name" using find_dot_bounds(2)[OF 1(2)] e by simp
  have w: "take (length ?w) (drop b name) = ?w" by (metis takeWhile_eq_take)
  have r: "?r = drop ?e name"
    by (metis e dropWhile_eq_drop drop_drop add.commute)
  have lab: "label_ok ?w \<longleftrightarrow> \<not> ?e - b < 3 \<and> name_lower (name ! b) \<and> name_alnum (name ! (?e - 1)) \<and>
      list_all (\<lambda>i. name_inner (name ! i)) [b + 1 ..< ?e - 1]"
    using label_at[OF e _ w le] e unfolding label_ok_def by (cases "3 \<le> length ?w") auto
  have v: "valid_labels name b \<longleftrightarrow> label_ok ?w \<and> (?e = length name \<or> valid_labels name (?e + 1))"
    unfolding lab by (subst valid_labels.simps) (simp add: Let_def)
  show ?case
  proof (cases "?e = length name")
    case True
    then have "?r = []" using r by simp
    then have "split_dots (drop b name) = [?w]" by (subst split_dots.simps) (simp only: list.case)
    with v True show ?thesis by simp
  next
    case False
    then have lt: "?e < length name" using le e by simp
    then have "?r = name ! ?e # drop (?e + 1) name" using r by (simp add: Cons_nth_drop_Suc)
    then have s: "split_dots (drop b name) = ?w # split_dots (drop (?e + 1) name)"
      by (subst split_dots.simps) (simp only: list.case)
    have "valid_labels name (?e + 1) \<longleftrightarrow> list_all label_ok (split_dots (drop (?e + 1) name))" if "label_ok ?w"
      using that lt False unfolding lab by (intro 1(1)[OF refl]) auto
    with v False s show ?thesis by auto
  qed
qed

text \<open>C17. \<open>is_valid_account_name\<close>, an index loop over the name with three nested character
  switches, accepts exactly the names of 3 to 16 characters whose dot-separated labels all have at
  least three characters, start with a lower-case letter, end with a letter or digit and hold only
  letters, digits and dashes between.\<close>

theorem account_name_grammar:
  "is_valid_account_name name \<longleftrightarrow>
     length name \<in> {3..16} \<and> list_all label_ok (split_dots name)"
  using valid_labels_split[of 0 name] by (auto simp: is_valid_account_name_def Let_def)

end
