(* ===== verification/Utf8.thy ===== *)
theory Utf8
  imports Prelude "HOL-Library.Sublist"
begin

text \<open>
  UTF-8 validation: \<open>fc::is_utf8\<close> of src/src/base/fc/utf8.cpp over the decoder of
  src/src/base/fc/utf8/core.h, with the encoder \<open>append\<close> of src/src/base/fc/utf8/checked.h as its
  counterpart.  An iterator is the list of octets from its position to the end; a mask with
  \<open>2 ^ k - 1\<close> is the remainder modulo \<open>2 ^ k\<close>.
\<close>

unbundle bit_operations_syntax

section \<open>The decoder\<close>

datatype utf_error = NOT_ENOUGH_ROOM | INVALID_LEAD | INCOMPLETE_SEQUENCE | OVERLONG_SEQUENCE | INVALID_CODE_POINT

definition is_trail :: "nat \<Rightarrow> bool" where
  "is_trail oc \<longleftrightarrow> drop_bit 6 (oc mod 256) = 2"

definition is_surrogate :: "nat \<Rightarrow> bool" where
  "is_surrogate cp \<longleftrightarrow> 0xd800 \<le> cp \<and> cp \<le> 0xdfff"

definition is_code_point_valid :: "nat \<Rightarrow> bool" where
  "is_code_point_valid cp \<longleftrightarrow> cp \<le> 0x10ffff \<and> \<not> is_surrogate cp"

definition sequence_length :: "nat \<Rightarrow> nat" where
  "sequence_length oc =
     (let lead = oc mod 256 in
      if lead < 0x80 then 1
      else if drop_bit 5 lead = 0x6 then 2
      else if drop_bit 4 lead = 0xe then 3
      else if drop_bit 3 lead = 0x1e then 4
      else 0)"

definition is_overlong_sequence :: "nat \<Rightarrow> nat \<Rightarrow> bool" where
  "is_overlong_sequence cp len =
     (if cp < 0x80 then len \<noteq> 1
      else if cp < 0x800 then len \<noteq> 2
      else if cp < 0x10000 then len \<noteq> 3
      else False)"

text \<open>\<open>++it\<close> and the checks on the next octet; the result is the advanced iterator.\<close>

definition increase_safely :: "nat list \<Rightarrow> utf_error + nat list" where
  "increase_safely it =
     (case tl it of
        [] \<Rightarrow> Inl NOT_ENOUGH_ROOM
      | oc # r \<Rightarrow> if \<not> is_trail oc then Inl INCOMPLETE_SEQUENCE else Inr (oc # r))"

definition andThen :: "'e + 'a \<Rightarrow> ('a \<Rightarrow> 'e + 'b) \<Rightarrow> 'e + 'b" where
  "andThen m f = (case m of Inl e \<Rightarrow> Inl e | Inr x \<Rightarrow> f x)"

text \<open>Each returns the code point and the iterator, which is left on the last octet read.\<close>

definition get_sequence_1 :: "nat list \<Rightarrow> utf_error + (nat \<times> nat list)" where
  "get_sequence_1 it = (if it = [] then Inl NOT_ENOUGH_ROOM else Inr (hd it mod 256, it))"

definition get_sequence_2 :: "nat list \<Rightarrow> utf_error + (nat \<times> nat list)" where
  "get_sequence_2 it =
     (if it = [] then Inl NOT_ENOUGH_ROOM
      else let cp = hd it mod 256 in
        andThen (increase_safely it) (\<lambda>it.
        Inr (push_bit 6 cp mod 0x800 + hd it mod 0x40, it)))"

definition get_sequence_3 :: "nat list \<Rightarrow> utf_error + (nat \<times> nat list)" where
  "get_sequence_3 it =
     (if it = [] then Inl NOT_ENOUGH_ROOM
      else let cp = hd it mod 256 in
        andThen (increase_safely it) (\<lambda>it.
        let cp = push_bit 12 cp mod 0x10000 + push_bit 6 (hd it mod 256) mod 0x1000 in
        andThen (increase_safely it) (\<lambda>it.
        Inr (cp + hd it mod 0x40, it))))"

definition get_sequence_4 :: "nat list \<Rightarrow> utf_error + (nat \<times> nat list)" where
  "get_sequence_4 it =
     (if it = [] then Inl NOT_ENOUGH_ROOM
      else let cp = hd it mod 256 in
        andThen (increase_safely it) (\<lambda>it.
        let cp = push_bit 18 cp mod 0x200000 + push_bit 12 (hd it mod 256) mod 0x40000 in
        andThen (increase_safely it) (\<lambda>it.
        let cp = cp + push_bit 6 (hd it mod 256) mod 0x1000 in
        andThen (increase_safely it) (\<lambda>it.
        Inr (cp + hd it mod 0x40, it)))))"

text \<open>A failed \<open>validate_next\<close> restores the iterator, so an error carries none.\<close>

definition validate_next :: "nat list \<Rightarrow> utf_error + (nat \<times> nat list)" where
  "validate_next it =
     (let len = sequence_length (hd it) in
      andThen
        (if len = 0 then Inl INVALID_LEAD
         else if len = 1 then get_sequence_1 it
         else if len = 2 then get_sequence_2 it
         else if len = 3 then get_sequence_3 it
         else get_sequence_4 it) (\<lambda>(cp, it).
      if is_code_point_valid cp then
        if \<not> is_overlong_sequence cp len then Inr (cp, tl it) else Inl OVERLONG_SEQUENCE
      else Inl INVALID_CODE_POINT))"

lemma andThen_Inr: "andThen m f = Inr y \<longleftrightarrow> (\<exists>x. m = Inr x \<and> f x = Inr y)"
  by (cases m) (auto simp: andThen_def)

lemma increase_safely_Inr:
  "increase_safely it = Inr it' \<longleftrightarrow> (\<exists>a b r. it = a # b # r \<and> it' = b # r \<and> is_trail b)"
  by (cases it; cases "tl it") (auto simp: increase_safely_def)

definition cp2 :: "nat \<Rightarrow> nat \<Rightarrow> nat" where
  "cp2 a b = push_bit 6 (a mod 256) mod 0x800 + b mod 0x40"

definition cp3 :: "nat \<Rightarrow> nat \<Rightarrow> nat \<Rightarrow> nat" where
  "cp3 a b c = push_bit 12 (a mod 256) mod 0x10000 + push_bit 6 (b mod 256) mod 0x1000 + c mod 0x40"

definition cp4 :: "nat \<Rightarrow> nat \<Rightarrow> nat \<Rightarrow> nat \<Rightarrow> nat" where
  "cp4 a b c d = push_bit 18 (a mod 256) mod 0x200000 + push_bit 12 (b mod 256) mod 0x40000
     + push_bit 6 (c mod 256) mod 0x1000 + d mod 0x40"

lemma get_sequence_Inr:
  "get_sequence_1 it = Inr (cp, it') \<longleftrightarrow> (\<exists>a r. it = a # r \<and> it' = it \<and> cp = a mod 256)"
  "get_sequence_2 it = Inr (cp, it') \<longleftrightarrow> (\<exists>a b r. it = a # b # r \<and> it' = b # r \<and> is_trail b \<and> cp = cp2 a b)"
  "get_sequence_3 it = Inr (cp, it') \<longleftrightarrow>
     (\<exists>a b c r. it = a # b # c # r \<and> it' = c # r \<and> is_trail b \<and> is_trail c \<and> cp = cp3 a b c)"
  "get_sequence_4 it = Inr (cp, it') \<longleftrightarrow>
     (\<exists>a b c d r. it = a # b # c # d # r \<and> it' = d # r \<and> is_trail b \<and> is_trail c \<and> is_trail d \<and> cp = cp4 a b c d)"
proof goal_cases
  case 1 show ?case by (cases it) (auto simp: get_sequence_1_def)
next
  case 2 show ?case unfolding get_sequence_2_def Let_def cp2_def[symmetric]
    by (auto simp: andThen_Inr increase_safely_Inr)
next
  case 3 show ?case unfolding get_sequence_3_def Let_def cp3_def[symmetric]
    by (auto simp: andThen_Inr increase_safely_Inr)
next
  case 4 show ?case unfolding get_sequence_4_def Let_def cp4_def[symmetric]
    by (auto simp: andThen_Inr increase_safely_Inr)
qed

lemma validate_next_Inr:
  "validate_next it = Inr (cp, r) \<longleftrightarrow>
     (\<exists>it'. r = tl it' \<and> is_code_point_valid cp \<and> \<not> is_overlong_sequence cp (sequence_length (hd it)) \<and>
       (sequence_length (hd it) = 1 \<and> get_sequence_1 it = Inr (cp, it') \<or>
        sequence_length (hd it) = 2 \<and> get_sequence_2 it = Inr (cp, it') \<or>
        sequence_length (hd it) = 3 \<and> get_sequence_3 it = Inr (cp, it') \<or>
        sequence_length (hd it) = 4 \<and> get_sequence_4 it = Inr (cp, it')))"
proof -
  have "sequence_length oc \<in> {0, 1, 2, 3, 4}" for oc by (simp add: sequence_length_def Let_def)
  from this[of "hd it"] show ?thesis unfolding validate_next_def Let_def
    by (auto simp: andThen_Inr split: if_splits)
qed

lemma validate_next_shorter:
  "validate_next it = Inr (cp, r) \<Longrightarrow> length r < length it"
  unfolding validate_next_Inr get_sequence_Inr by auto

function find_invalid :: "nat list \<Rightarrow> nat list" where
  "find_invalid it =
     (if it = [] then []
      else case validate_next it of Inl e \<Rightarrow> it | Inr (cp, r) \<Rightarrow> find_invalid r)"
  by pat_completeness auto

termination find_invalid
  by (relation "measure length") (auto dest: validate_next_shorter)

declare find_invalid.simps [simp del]

definition utf8_is_valid :: "nat list \<Rightarrow> bool" where
  "utf8_is_valid it \<longleftrightarrow> find_invalid it = []"

definition is_utf8 :: "string \<Rightarrow> bool" where
  "is_utf8 s = utf8_is_valid (map of_char s)"

section \<open>The encoder\<close>

definition utf8_append :: "nat \<Rightarrow> nat list" where
  "utf8_append cp =
     (if cp < 0x80 then [cp mod 256]
      else if cp < 0x800 then
        [(drop_bit 6 cp OR 0xc0) mod 256, (cp mod 0x40 OR 0x80) mod 256]
      else if cp < 0x10000 then
        [(drop_bit 12 cp OR 0xe0) mod 256, (drop_bit 6 cp mod 0x40 OR 0x80) mod 256,
         (cp mod 0x40 OR 0x80) mod 256]
      else
        [(drop_bit 18 cp OR 0xf0) mod 256, (drop_bit 12 cp mod 0x40 OR 0x80) mod 256,
         (drop_bit 6 cp mod 0x40 OR 0x80) mod 256, (cp mod 0x40 OR 0x80) mod 256])"

section \<open>The decoder inverts the encoder\<close>

lemma or_lead_int:
  "list_all (\<lambda>x. (x OR 0xc0) mod 256 = x + 0xc0) [0..31 :: int]"
  "list_all (\<lambda>x. (x OR 0xe0) mod 256 = x + 0xe0) [0..15 :: int]"
  "list_all (\<lambda>x. (x OR 0xf0) mod 256 = x + 0xf0) [0..7 :: int]"
  "list_all (\<lambda>x. (x OR 0x80) mod 256 = x + 0x80) [0..63 :: int]"
  by code_simp+

lemma or_lead:
  fixes x :: nat
  shows "x < 32 \<Longrightarrow> (x OR 0xc0) mod 256 = x + 0xc0"
    "x < 16 \<Longrightarrow> (x OR 0xe0) mod 256 = x + 0xe0"
    "x < 8 \<Longrightarrow> (x OR 0xf0) mod 256 = x + 0xf0"
    "x < 64 \<Longrightarrow> (x OR 0x80) mod 256 = x + 0x80"
proof -
  have c: "(int x OR k) mod 256 = int x + k" if "list_all (\<lambda>x. (x OR k) mod 256 = x + k) [0..m]" "int x \<le> m" for k m
    using that unfolding list_all_iff by simp
  have t: "int ((x OR k) mod 256) = (int x OR int k) mod 256" for k
    by (simp add: of_nat_mod of_nat_or_eq)
  show "x < 32 \<Longrightarrow> (x OR 0xc0) mod 256 = x + 0xc0" using c[OF or_lead_int(1)] t[of 192] by simp
  show "x < 16 \<Longrightarrow> (x OR 0xe0) mod 256 = x + 0xe0" using c[OF or_lead_int(2)] t[of 224] by simp
  show "x < 8 \<Longrightarrow> (x OR 0xf0) mod 256 = x + 0xf0" using c[OF or_lead_int(3)] t[of 240] by simp
  show "x < 64 \<Longrightarrow> (x OR 0x80) mod 256 = x + 0x80" using c[OF or_lead_int(4)] t[of 128] by simp
qed

lemma div_eq_range: "0 < k \<Longrightarrow> a div k = m \<longleftrightarrow> m * k \<le> a \<and> a < m * k + (k :: nat)"
  by (metis add.commute div_nat_eqI div_times_less_eq_dividend dividend_less_div_times mult.commute mult_Suc)

lemma trail_range: "b < 256 \<Longrightarrow> is_trail b \<longleftrightarrow> 128 \<le> b \<and> b < 192"
  by (simp add: is_trail_def drop_bit_eq_div div_eq_range)

lemma trail_form: "b < 256 \<Longrightarrow> is_trail b \<Longrightarrow> \<exists>y < 64. b = 128 + y"
  by (intro exI[of _ "b - 128"]) (auto simp: trail_range)

lemma sequence_length_ranges:
  "a < 256 \<Longrightarrow> sequence_length a =
     (if a < 128 then 1 else if a < 192 then 0 else if a < 224 then 2 else if a < 240 then 3
      else if a < 248 then 4 else 0)"
  by (simp add: sequence_length_def Let_def drop_bit_eq_div div_eq_range)

lemma offset_form: "k \<le> a \<Longrightarrow> a < k + n \<Longrightarrow> \<exists>x < n. a = k + (x :: nat)"
  by (metis add_less_cancel_left le_Suc_ex)

lemma sequence_length_form:
  assumes "a < 256"
  shows "sequence_length a = 1 \<Longrightarrow> a < 128"
    "sequence_length a = 2 \<Longrightarrow> \<exists>x < 32. a = 192 + x"
    "sequence_length a = 3 \<Longrightarrow> \<exists>x < 16. a = 224 + x"
    "sequence_length a = 4 \<Longrightarrow> \<exists>x < 8. a = 240 + x"
proof -
  show "sequence_length a = 1 \<Longrightarrow> a < 128"
    unfolding sequence_length_ranges[OF assms] by (simp split: if_splits)
  show "sequence_length a = 2 \<Longrightarrow> \<exists>x < 32. a = 192 + x"
    unfolding sequence_length_ranges[OF assms] by (rule offset_form) (simp_all split: if_splits)
  show "sequence_length a = 3 \<Longrightarrow> \<exists>x < 16. a = 224 + x"
    unfolding sequence_length_ranges[OF assms] by (rule offset_form) (simp_all split: if_splits)
  show "sequence_length a = 4 \<Longrightarrow> \<exists>x < 8. a = 240 + x"
    unfolding sequence_length_ranges[OF assms] by (rule offset_form) (simp_all split: if_splits)
qed

lemma shift_mod:
  "(x :: nat) < 2 ^ k \<Longrightarrow> push_bit n (c * 2 ^ k + x) mod 2 ^ (n + k) = x * 2 ^ n"
proof -
  assume x: "x < 2 ^ k"
  have "push_bit n (c * 2 ^ k + x) = c * 2 ^ (n + k) + x * 2 ^ n"
    by (simp add: push_bit_eq_mult power_add algebra_simps)
  moreover have "x * 2 ^ n < 2 ^ (n + k)" using x by (simp add: power_add)
  ultimately show ?thesis by simp
qed

lemma mod64: "y < 64 \<Longrightarrow> (128 + y) mod 64 = (y :: nat)"
  using shift_mod[of y 6 0 2] by simp

lemma cp2_value: "x < 32 \<Longrightarrow> y < 64 \<Longrightarrow> cp2 (192 + x) (128 + y) = x * 64 + y"
  using shift_mod[of x 5 6 6] by (simp add: cp2_def mod64)

lemma cp3_value: "x < 16 \<Longrightarrow> y < 64 \<Longrightarrow> z < 64 \<Longrightarrow> cp3 (224 + x) (128 + y) (128 + z) = x * 4096 + y * 64 + z"
  using shift_mod[of x 4 12 14] shift_mod[of y 6 6 2] by (simp add: cp3_def mod64)

lemma cp4_value:
  "x < 8 \<Longrightarrow> y < 64 \<Longrightarrow> z < 64 \<Longrightarrow> w < 64 \<Longrightarrow>
   cp4 (240 + x) (128 + y) (128 + z) (128 + w) = x * 262144 + y * 4096 + z * 64 + w"
  using shift_mod[of x 3 18 30] shift_mod[of y 6 12 2] shift_mod[of z 6 6 2] by (simp add: cp4_def mod64)

lemma shift_div:
  "(y :: nat) < 2 ^ n \<Longrightarrow> drop_bit n (x * 2 ^ n + y) = x"
  "(y :: nat) < 2 ^ n \<Longrightarrow> (x * 2 ^ n + y) mod 2 ^ n = y"
  by (simp_all add: drop_bit_eq_div)

lemma append_1: "cp < 128 \<Longrightarrow> utf8_append cp = [cp]"
  by (simp add: utf8_append_def)

lemma append_2:
  assumes "x < 32" "y < 64" "128 \<le> x * 64 + y"
  shows "utf8_append (x * 64 + y) = [192 + x, 128 + y]"
proof -
  have "drop_bit 6 (x * 64 + y) = x" "(x * 64 + y) mod 64 = y"
    using shift_div[of y 6 x] assms by simp_all
  moreover have "x * 64 + y < 2048" using assms by simp
  ultimately show ?thesis using assms(1,2,3) unfolding utf8_append_def by (simp add: or_lead)
qed

lemma append_3:
  assumes "x < 16" "y < 64" "z < 64" "2048 \<le> x * 4096 + y * 64 + z"
  shows "utf8_append (x * 4096 + y * 64 + z) = [224 + x, 128 + y, 128 + z]"
proof -
  let ?c = "x * 4096 + y * 64 + z"
  have "?c = x * 2 ^ 12 + (y * 64 + z)" "?c = (x * 64 + y) * 2 ^ 6 + z" by simp_all
  then have "drop_bit 12 ?c = x" "drop_bit 6 ?c = x * 64 + y" "?c mod 64 = z"
    using shift_div[of "y * 64 + z" 12 x] shift_div[of z 6 "x * 64 + y"] assms by (simp_all add: algebra_simps)
  moreover have "(x * 64 + y) mod 64 = y" using shift_div(2)[of y 6 x] assms by simp
  moreover have "?c < 65536" using assms by simp
  ultimately show ?thesis using assms unfolding utf8_append_def by (simp add: or_lead)
qed

lemma append_4:
  assumes "x < 8" "y < 64" "z < 64" "w < 64" "65536 \<le> x * 262144 + y * 4096 + z * 64 + w"
  shows "utf8_append (x * 262144 + y * 4096 + z * 64 + w) = [240 + x, 128 + y, 128 + z, 128 + w]"
proof -
  let ?c = "x * 262144 + y * 4096 + z * 64 + w"
  have "?c = x * 2 ^ 18 + (y * 4096 + z * 64 + w)" "?c = (x * 64 + y) * 2 ^ 12 + (z * 64 + w)"
    "?c = (x * 4096 + y * 64 + z) * 2 ^ 6 + w" by simp_all
  then have "drop_bit 18 ?c = x" "drop_bit 12 ?c = x * 64 + y" "drop_bit 6 ?c = x * 4096 + y * 64 + z" "?c mod 64 = w"
    using shift_div[of "y * 4096 + z * 64 + w" 18 x] shift_div[of "z * 64 + w" 12 "x * 64 + y"]
      shift_div[of w 6 "x * 4096 + y * 64 + z"] assms by (simp_all add: algebra_simps)
  moreover have "(x * 64 + y) mod 64 = y" "(x * 4096 + y * 64 + z) mod 64 = z"
    using shift_div(2)[of y 6 x] shift_div(2)[of z 6 "x * 64 + y"] assms by (simp_all add: algebra_simps)
  ultimately show ?thesis using assms unfolding utf8_append_def by (simp add: or_lead)
qed

text \<open>What the decoder accepts is what the encoder produces, and with the same code point.\<close>

lemma validate_next_append:
  assumes "list_all (\<lambda>b. b < 256) it" and "validate_next it = Inr (cp, r)"
  shows "is_code_point_valid cp \<and> it = utf8_append cp @ r"
proof -
  from assms(2)[unfolded validate_next_Inr] obtain it' where v: "r = tl it'" "is_code_point_valid cp"
    and o: "\<not> is_overlong_sequence cp (sequence_length (hd it))" and
    c: "sequence_length (hd it) = 1 \<and> get_sequence_1 it = Inr (cp, it') \<or>
        sequence_length (hd it) = 2 \<and> get_sequence_2 it = Inr (cp, it') \<or>
        sequence_length (hd it) = 3 \<and> get_sequence_3 it = Inr (cp, it') \<or>
        sequence_length (hd it) = 4 \<and> get_sequence_4 it = Inr (cp, it')" by blast
  from c have "it = utf8_append cp @ r"
  proof (elim disjE conjE)
    assume l: "sequence_length (hd it) = 1" and "get_sequence_1 it = Inr (cp, it')"
    then show ?thesis using assms(1) v(1) sequence_length_form(1)[of "hd it"]
      by (auto simp: get_sequence_Inr append_1)
  next
    assume l: "sequence_length (hd it) = 2" and "get_sequence_2 it = Inr (cp, it')"
    then obtain a b where i: "it = a # b # r" "is_trail b" "cp = cp2 a b" using v(1) by (auto simp: get_sequence_Inr)
    obtain x y where x: "x < 32" "a = 192 + x" "y < 64" "b = 128 + y"
      using i l assms(1) sequence_length_form(2)[of a] trail_form[of b] by auto
    then show ?thesis using i l o append_2[of x y] by (simp add: cp2_value is_overlong_sequence_def split: if_splits)
  next
    assume l: "sequence_length (hd it) = 3" and "get_sequence_3 it = Inr (cp, it')"
    then obtain a b c where i: "it = a # b # c # r" "is_trail b" "is_trail c" "cp = cp3 a b c"
      using v(1) by (auto simp: get_sequence_Inr)
    obtain x y z where x: "x < 16" "a = 224 + x" "y < 64" "b = 128 + y" "z < 64" "c = 128 + z"
      using i l assms(1) sequence_length_form(3)[of a] trail_form[of b] trail_form[of c] by auto
    then show ?thesis using i l o append_3[of x y z] by (simp add: cp3_value is_overlong_sequence_def split: if_splits)
  next
    assume l: "sequence_length (hd it) = 4" and "get_sequence_4 it = Inr (cp, it')"
    then obtain a b c d where i: "it = a # b # c # d # r" "is_trail b" "is_trail c" "is_trail d" "cp = cp4 a b c d"
      using v(1) by (auto simp: get_sequence_Inr)
    obtain x y z w where x: "x < 8" "a = 240 + x" "y < 64" "b = 128 + y" "z < 64" "c = 128 + z" "w < 64" "d = 128 + w"
      using i l assms(1) sequence_length_form(4)[of a] trail_form[of b] trail_form[of c] trail_form[of d] by auto
    then show ?thesis using i l o append_4[of x y z w]
      by (simp add: cp4_value is_overlong_sequence_def split: if_splits)
  qed
  with v show ?thesis by simp
qed


lemma code_point_split:
  obtains "(cp :: nat) < 128"
  | x y where "x < 32" "y < 64" "128 \<le> cp" "cp < 2048" "cp = x * 64 + y"
  | x y z where "x < 16" "y < 64" "z < 64" "2048 \<le> cp" "cp < 65536" "cp = x * 4096 + y * 64 + z"
  | x y z w where "x < 8" "y < 64" "z < 64" "w < 64" "65536 \<le> cp" "cp = x * 262144 + y * 4096 + z * 64 + w"
  | "0x10ffff < cp"
proof -
  have d1: "cp = cp div 64 * 64 + cp mod 64" "cp mod 64 < 64" by simp_all
  have d2: "cp div 64 = cp div 4096 * 64 + cp div 64 mod 64" "cp div 64 mod 64 < 64"
    using div_mult2_eq[of cp 64 64] by simp_all
  have d3: "cp div 4096 = cp div 262144 * 64 + cp div 4096 mod 64" "cp div 4096 mod 64 < 64"
    using div_mult2_eq[of cp 4096 64] by simp_all
  consider "cp < 128" | "128 \<le> cp" "cp < 2048" | "2048 \<le> cp" "cp < 65536" | "65536 \<le> cp" "cp \<le> 0x10ffff" | "0x10ffff < cp"
    by linarith
  then show thesis
  proof cases
    case 2 then show thesis using that(2)[of "cp div 64" "cp mod 64"] d1 by (simp add: less_mult_imp_div_less)
  next
    case 3 then show thesis using that(3)[of "cp div 4096" "cp div 64 mod 64" "cp mod 64"] d1 d2
      by (simp add: less_mult_imp_div_less)
  next
    case 4 then show thesis using that(4)[of "cp div 262144" "cp div 4096 mod 64" "cp div 64 mod 64" "cp mod 64"]
        d1 d2 d3 by (simp add: less_mult_imp_div_less)
  qed (use that in blast)+
qed


lemma append_validate_next:
  assumes "is_code_point_valid cp"
  shows "validate_next (utf8_append cp @ r) = Inr (cp, r)"
proof (cases cp rule: code_point_split)
  case 1
  then show ?thesis using assms
    by (auto simp: append_1 validate_next_Inr get_sequence_Inr sequence_length_ranges is_overlong_sequence_def)
next
  case (2 x y)
  with append_2[of x y] assms show ?thesis
    by (auto simp: validate_next_Inr get_sequence_Inr sequence_length_ranges is_overlong_sequence_def trail_range cp2_value)
next
  case (3 x y z)
  with append_3[of x y z] assms show ?thesis
    by (auto simp: validate_next_Inr get_sequence_Inr sequence_length_ranges is_overlong_sequence_def trail_range cp3_value)
next
  case (4 x y z w)
  with append_4[of x y z w] assms show ?thesis
    by (auto simp: validate_next_Inr get_sequence_Inr sequence_length_ranges is_overlong_sequence_def trail_range cp4_value)
next
  case 5
  with assms show ?thesis by (simp add: is_code_point_valid_def)
qed

lemma append_nonempty: "utf8_append cp \<noteq> []"
  by (simp add: utf8_append_def)

lemma utf8_valid_encodings: "list_all is_code_point_valid cps \<Longrightarrow> utf8_is_valid (concat (map utf8_append cps))"
  by (induction cps) (auto simp: utf8_is_valid_def find_invalid.simps append_validate_next append_nonempty)

lemma utf8_valid_decodes:
  "utf8_is_valid it \<Longrightarrow> list_all (\<lambda>b. b < 256) it \<Longrightarrow>
   \<exists>cps. list_all is_code_point_valid cps \<and> it = concat (map utf8_append cps)"
proof (induction it rule: find_invalid.induct)
  case (1 it)
  show ?case
  proof (cases "it = []")
    case True then show ?thesis by (intro exI[of _ "[]"]) simp
  next
    case False
    with 1(2) obtain cp r where n: "validate_next it = Inr (cp, r)"
      by (auto simp: utf8_is_valid_def find_invalid.simps[of it] split: sum.splits)
    note a = validate_next_append[OF 1(3) n]
    have "utf8_is_valid r" using 1(2) False n by (simp add: utf8_is_valid_def find_invalid.simps[of it])
    moreover have "list_all (\<lambda>b. b < 256) r" using 1(3) a by simp
    ultimately obtain cps where "list_all is_code_point_valid cps" "r = concat (map utf8_append cps)"
      using 1(1)[OF False n refl] by blast
    with a show ?thesis by (intro exI[of _ "cp # cps"]) simp
  qed
qed

section \<open>Properties\<close>

text \<open>C18. \<open>fc::is_utf8\<close> accepts a string exactly when its octets are the concatenated encodings, as
  \<open>utf8::append\<close> writes them, of Unicode code points: no surrogate, nothing above 0x10ffff, no overlong
  form, no truncated sequence.\<close>

theorem is_utf8_iff_encoding:
  "is_utf8 s \<longleftrightarrow> (\<exists>cps. list_all is_code_point_valid cps \<and> map of_char s = concat (map utf8_append cps))"
proof -
  have "list_all (\<lambda>b. b < 256) (map of_char s :: nat list)"
    by (simp add: list_all_iff of_char_def) 
  then show ?thesis using utf8_valid_decodes[of "map of_char s"] utf8_valid_encodings
    unfolding is_utf8_def by metis
qed

section \<open>Pruning\<close>

lemma find_invalid_suffix: "\<exists>p. it = p @ find_invalid it"
proof (induction it rule: find_invalid.induct)
  case (1 it)
  show ?case
  proof (cases "it = [] \<or> (\<exists>e. validate_next it = Inl e)")
    case False
    then obtain cp r where n: "it \<noteq> []" "validate_next it = Inr (cp, r)" by (cases "validate_next it") auto
    then obtain k where "it = k @ r" unfolding validate_next_Inr get_sequence_Inr by (cases it) auto
    moreover from 1[OF n refl] obtain p where "r = p @ find_invalid r" by blast
    moreover have "find_invalid it = find_invalid r" using n by (subst find_invalid.simps) simp
    ultimately have "it = (k @ p) @ find_invalid it" by simp
    then show ?thesis by blast
  qed (auto simp: find_invalid.simps[of it])
qed

lemma find_invalid_drop: "find_invalid it = drop (length it - length (find_invalid it)) it"
  using find_invalid_suffix[of it] by (metis append_eq_conv_conj length_append add_diff_cancel_right')

lemma find_invalid_length: "length (find_invalid it) \<le> length it"
  using find_invalid_suffix[of it] by (metis length_append le_add2)

text \<open>The loop of \<open>prune_invalid_utf8\<close>: the octet at the iterator, which starts no valid sequence, is
  dropped, and what lies between it and the next such octet is kept.\<close>

function prune_from :: "nat list \<Rightarrow> nat list" where
  "prune_from itr =
     (case itr of [] \<Rightarrow> []
      | _ # start \<Rightarrow>
          take (length start - length (find_invalid start)) start @ prune_from (find_invalid start))"
  by pat_completeness auto
termination by (relation "measure length") (auto simp: le_imp_less_Suc find_invalid_length)

declare prune_from.simps [simp del]

definition prune_invalid_utf8 :: "string \<Rightarrow> string" where
  "prune_invalid_utf8 s =
     (let str = map of_char s; itr = find_invalid str in
      if itr = [] then s else map char_of (take (length str - length itr) str @ prune_from itr))"

lemma find_invalid_split:
  "list_all (\<lambda>b. b < 256) it \<Longrightarrow>
   \<exists>cps. list_all is_code_point_valid cps \<and> it = concat (map utf8_append cps) @ find_invalid it"
proof (induction it rule: find_invalid.induct)
  case (1 it)
  show ?case
  proof (cases "it = [] \<or> (\<exists>e. validate_next it = Inl e)")
    case True
    then have "find_invalid it = it" by (auto simp: find_invalid.simps[of it])
    then show ?thesis by (intro exI[of _ "[]"]) simp
  next
    case False
    then obtain cp r where n: "it \<noteq> []" "validate_next it = Inr (cp, r)"
      by (cases "validate_next it") auto
    note a = validate_next_append[OF 1(2) n(2)]
    from a 1(2) have "list_all (\<lambda>b. b < 256) r" by simp
    with 1(1)[OF n refl] obtain cps where "list_all is_code_point_valid cps" "r = concat (map utf8_append cps) @ find_invalid r"
      by blast
    moreover have "find_invalid it = find_invalid r" using n by (subst find_invalid.simps) simp
    ultimately show ?thesis using a by (intro exI[of _ "cp # cps"]) simp
  qed
qed

lemma kept_encodings:
  assumes "list_all (\<lambda>b. b < 256) it"
  shows "\<exists>cps. list_all is_code_point_valid cps \<and> take (length it - length (find_invalid it)) it = concat (map utf8_append cps)"
proof -
  from find_invalid_split[OF assms] obtain cps where
    c: "list_all is_code_point_valid cps" "it = concat (map utf8_append cps) @ find_invalid it" by blast
  have "take (length it - length (find_invalid it)) it = concat (map utf8_append cps)"
    by (subst (2) c(2), subst (1) c(2)) simp
  with c(1) show ?thesis by blast
qed

lemma find_invalid_bytes: "list_all (\<lambda>b. b < 256) it \<Longrightarrow> list_all (\<lambda>b. b < 256) (find_invalid it)"
  using find_invalid_split[of it] by (metis list_all_append)

lemma prune_from_encodings:
  "list_all (\<lambda>b. b < 256) itr \<Longrightarrow> \<exists>cps. list_all is_code_point_valid cps \<and> prune_from itr = concat (map utf8_append cps)"
proof (induction itr rule: prune_from.induct)
  case (1 itr)
  show ?case
  proof (cases itr)
    case Nil
    then show ?thesis by (intro exI[of _ "[]"]) (simp add: prune_from.simps)
  next
    case (Cons b start)
    with 1(2) have s: "list_all (\<lambda>b. b < 256) start" by simp
    from kept_encodings[OF s] obtain c1 where c1: "list_all is_code_point_valid c1"
      "take (length start - length (find_invalid start)) start = concat (map utf8_append c1)" by blast
    from 1(1)[OF Cons find_invalid_bytes[OF s]] obtain c2 where c2: "list_all is_code_point_valid c2"
      "prune_from (find_invalid start) = concat (map utf8_append c2)" by blast
    from c1 c2 Cons show ?thesis by (intro exI[of _ "c1 @ c2"]) (simp add: prune_from.simps[of "b # start"])
  qed
qed

lemma prune_from_subseq: "subseq (prune_from itr) itr"
proof (induction itr rule: prune_from.induct)
  case (1 itr)
  show ?case
  proof (cases itr)
    case (Cons b start)
    let ?k = "length start - length (find_invalid start)"
    have "subseq (prune_from (find_invalid start)) (drop ?k start)"
      using 1[OF Cons] find_invalid_drop[of start] by simp
    then have "subseq (take ?k start @ prune_from (find_invalid start)) (take ?k start @ drop ?k start)"
      by (rule list_emb_append_mono[OF subseq_order.order_refl])
    then have "subseq (take ?k start @ prune_from (find_invalid start)) start" by (simp only: append_take_drop_id)
    then show ?thesis by (simp add: Cons prune_from.simps[of "b # start"] list_emb_Cons)
  qed (simp add: prune_from.simps)
qed

lemma prune_octets:
  assumes "find_invalid (map of_char s) \<noteq> []"
  shows "map of_char (prune_invalid_utf8 s) =
    take (length s - length (find_invalid (map of_char s))) (map of_char s) @ prune_from (find_invalid (map of_char s :: nat list))"
    (is "_ = ?t")
proof -
  have b: "list_all (\<lambda>b. b < 256) (map of_char s :: nat list)" by (simp add: list_all_iff of_char_def)
  have "list_all (\<lambda>b. b < 256) (prune_from (find_invalid (map of_char s)))"
    using prune_from_subseq find_invalid_bytes[OF b] by (auto simp: list_all_iff dest: list_emb_set)
  moreover have "list_all (\<lambda>b. b < 256) (take n (map of_char s :: nat list))" for n
    by (metis append_take_drop_id b list_all_append)
  ultimately have "list_all (\<lambda>b. b < 256) ?t" by simp
  then have "map (of_char \<circ> char_of) ?t = ?t"
    by (intro map_idI) (auto simp: list_all_iff)
  with assms show ?thesis by (simp add: prune_invalid_utf8_def Let_def)
qed

text \<open>C30. Pruning an edited body yields valid UTF-8 whatever the input, only deletes octets, and leaves a
  string alone exactly when it was valid.\<close>

theorem prune_yields_utf8:
  "is_utf8 (prune_invalid_utf8 s) \<and> subseq (prune_invalid_utf8 s) s \<and> (prune_invalid_utf8 s = s \<longleftrightarrow> is_utf8 s)"
proof (cases "find_invalid (map of_char s :: nat list) = []")
  case True
  then show ?thesis by (simp add: prune_invalid_utf8_def Let_def is_utf8_def utf8_is_valid_def)
next
  case False
  let ?s = "map of_char s :: nat list" and ?t = "prune_invalid_utf8 s"
  have b: "list_all (\<lambda>b. b < 256) ?s" by (simp add: list_all_iff of_char_def)
  from kept_encodings[OF b] prune_from_encodings[OF find_invalid_bytes[OF b]] obtain c1 c2 where
    c: "list_all is_code_point_valid c1" "take (length s - length (find_invalid ?s)) ?s = concat (map utf8_append c1)"
      "list_all is_code_point_valid c2" "prune_from (find_invalid ?s) = concat (map utf8_append c2)" by auto
  have "map of_char ?t = concat (map utf8_append (c1 @ c2))" using prune_octets[OF False] c by simp
  then have valid: "is_utf8 ?t" using utf8_valid_encodings[of "c1 @ c2"] c by (simp add: is_utf8_def)
  have "subseq (map of_char ?t) ?s"
  proof -
    let ?k = "length s - length (find_invalid ?s)"
    have "subseq (prune_from (find_invalid ?s)) (drop ?k ?s)"
      using prune_from_subseq[of "find_invalid ?s"] find_invalid_drop[of ?s] by simp
    then have "subseq (take ?k ?s @ prune_from (find_invalid ?s)) (take ?k ?s @ drop ?k ?s)"
      by (rule list_emb_append_mono[OF subseq_order.order_refl])
    then show ?thesis unfolding prune_octets[OF False] append_take_drop_id .
  qed
  then have "subseq (map char_of (map of_char ?t :: nat list)) (map char_of ?s)" by (rule subseq_map)
  then have sub: "subseq ?t s" by (simp add: comp_def)
  from False have "\<not> is_utf8 s" by (simp add: is_utf8_def utf8_is_valid_def)
  with valid sub show ?thesis by metis
qed

end
