(* ===== verification/Operations.thy ===== *)
theory Operations
  imports Names Utf8
begin

text \<open>
  The operations of the protocol: one record per structure of
  src/src/core/protocol/include/steem/protocol/steem_operations.hpp, its \<open>validate\<close> from
  src/src/core/protocol/steem_operations.cpp, the variant type \<open>operation\<close> and the authorities
  each operation requires.

  The JSON parser, the recovery of the signing key and the hash of a block header are the fields of
  \<open>op_env\<close>, a parameter of the checks that use them.  \<open>extensions\<close> is a set of empty values and
  only its size matters.  The packed properties of \<open>witness_set_properties_operation\<close> are given by
  the value that \<open>fc::raw::unpack\<close> reads from them.
\<close>

section \<open>Block headers and the environment\<close>

datatype block_header_extension = Ext_void | Ext_version int | Ext_hardfork_vote int time_point_sec

record signed_block_header =
  bh_previous :: nat
  bh_timestamp :: time_point_sec
  bh_witness :: string
  bh_transaction_merkle_root :: nat
  bh_extensions :: "block_header_extension list"
  bh_witness_signature :: nat

record op_env =
  env_json_is_valid :: "string \<Rightarrow> bool"
  env_signee :: "signed_block_header \<Rightarrow> public_key_type"
  env_block_id :: "signed_block_header \<Rightarrow> nat"

section \<open>Structures\<close>

record legacy_chain_properties =
  lcp_account_creation_fee :: int
  lcp_maximum_block_size :: int
  lcp_sbd_interest_rate :: int

datatype packed = Packed_key public_key_type | Packed_asset asset | Packed_uint32 int | Packed_uint16 int
  | Packed_price price | Packed_string string

record vote_operation =
  vo_voter :: account_name_type
  vo_author :: account_name_type
  vo_permlink :: string
  vo_weight :: int

record comment_operation =
  cm_parent_author :: account_name_type
  cm_parent_permlink :: string
  cm_author :: account_name_type
  cm_permlink :: string
  cm_title :: string
  cm_body :: string
  cm_json_metadata :: string

record transfer_operation =
  tr_from :: account_name_type
  tr_to :: account_name_type
  tr_amount :: asset
  tr_memo :: string

record transfer_to_vesting_operation =
  tv_from :: account_name_type
  tv_to :: account_name_type
  tv_amount :: asset

record withdraw_vesting_operation =
  wd_account :: account_name_type
  wd_vesting_shares :: asset

record limit_order_create_operation =
  loc_owner :: account_name_type
  loc_orderid :: int
  loc_amount_to_sell :: asset
  loc_min_to_receive :: asset
  loc_fill_or_kill :: bool
  loc_expiration :: time_point_sec

record limit_order_cancel_operation =
  lox_owner :: account_name_type
  lox_orderid :: int

record feed_publish_operation =
  fp_publisher :: account_name_type
  fp_exchange_rate :: price

record convert_operation =
  cvt_owner :: account_name_type
  cvt_requestid :: int
  cvt_amount :: asset

record account_create_operation =
  acr_fee :: asset
  acr_creator :: account_name_type
  acr_new_account_name :: account_name_type
  acr_owner :: authority
  acr_active :: authority
  acr_posting :: authority
  acr_memo_key :: public_key_type
  acr_json_metadata :: string

record account_update_operation =
  au_account :: account_name_type
  au_owner :: "authority option"
  au_active :: "authority option"
  au_posting :: "authority option"
  au_memo_key :: public_key_type
  au_json_metadata :: string

record witness_update_operation =
  wu_owner :: account_name_type
  wu_url :: string
  wu_block_signing_key :: public_key_type
  wu_props :: legacy_chain_properties
  wu_fee :: asset

record account_witness_vote_operation =
  awv_account :: account_name_type
  awv_witness :: account_name_type
  awv_approve :: bool

record account_witness_proxy_operation =
  awp_account :: account_name_type
  awp_proxy :: account_name_type

record custom_operation =
  cu_required_auths :: "account_name_type list"
  cu_id :: int
  cu_data :: string

record report_over_production_operation =
  rop_reporter :: account_name_type
  rop_first_block :: signed_block_header
  rop_second_block :: signed_block_header

record delete_comment_operation =
  dc_author :: account_name_type
  dc_permlink :: string

record custom_json_operation =
  cj_required_auths :: "account_name_type list"
  cj_required_posting_auths :: "account_name_type list"
  cj_id :: string
  cj_json :: string

record comment_options_operation =
  cop_author :: account_name_type
  cop_permlink :: string
  cop_max_accepted_payout :: asset
  cop_percent_steem_dollars :: int
  cop_allow_votes :: bool
  cop_allow_curation_rewards :: bool
  cop_extensions :: "beneficiary_route_type list list"

record set_withdraw_vesting_route_operation =
  swr_from_account :: account_name_type
  swr_to_account :: account_name_type
  swr_percent :: int
  swr_auto_vest :: bool

record limit_order_create2_operation =
  lo2_owner :: account_name_type
  lo2_orderid :: int
  lo2_amount_to_sell :: asset
  lo2_fill_or_kill :: bool
  lo2_exchange_rate :: price
  lo2_expiration :: time_point_sec

record claim_account_operation =
  cla_creator :: account_name_type
  cla_fee :: asset
  cla_extensions :: "unit list"

record create_claimed_account_operation =
  cca_creator :: account_name_type
  cca_new_account_name :: account_name_type
  cca_owner :: authority
  cca_active :: authority
  cca_posting :: authority
  cca_memo_key :: public_key_type
  cca_json_metadata :: string
  cca_extensions :: "unit list"

record request_account_recovery_operation =
  rar_recovery_account :: account_name_type
  rar_account_to_recover :: account_name_type
  rar_new_owner_authority :: authority
  rar_extensions :: "unit list"

record recover_account_operation =
  rec_account_to_recover :: account_name_type
  rec_new_owner_authority :: authority
  rec_recent_owner_authority :: authority
  rec_extensions :: "unit list"

record change_recovery_account_operation =
  cra_account_to_recover :: account_name_type
  cra_new_recovery_account :: account_name_type
  cra_extensions :: "unit list"

record escrow_transfer_operation =
  et_from :: account_name_type
  et_to :: account_name_type
  et_agent :: account_name_type
  et_escrow_id :: int
  et_sbd_amount :: asset
  et_steem_amount :: asset
  et_fee :: asset
  et_ratification_deadline :: time_point_sec
  et_escrow_expiration :: time_point_sec
  et_json_meta :: string

record escrow_dispute_operation =
  ed_from :: account_name_type
  ed_to :: account_name_type
  ed_agent :: account_name_type
  ed_who :: account_name_type
  ed_escrow_id :: int

record escrow_release_operation =
  er_from :: account_name_type
  er_to :: account_name_type
  er_agent :: account_name_type
  er_who :: account_name_type
  er_receiver :: account_name_type
  er_escrow_id :: int
  er_sbd_amount :: asset
  er_steem_amount :: asset

record escrow_approve_operation =
  ea_from :: account_name_type
  ea_to :: account_name_type
  ea_agent :: account_name_type
  ea_who :: account_name_type
  ea_escrow_id :: int
  ea_approve :: bool

record transfer_to_savings_operation =
  tts_from :: account_name_type
  tts_to :: account_name_type
  tts_amount :: asset
  tts_memo :: string

record transfer_from_savings_operation =
  tfs_from :: account_name_type
  tfs_request_id :: int
  tfs_to :: account_name_type
  tfs_amount :: asset
  tfs_memo :: string

record cancel_transfer_from_savings_operation =
  ctfs_from :: account_name_type
  ctfs_request_id :: int

record custom_binary_operation =
  cb_required_owner_auths :: "account_name_type list"
  cb_required_active_auths :: "account_name_type list"
  cb_required_posting_auths :: "account_name_type list"
  cb_required_auths :: "authority list"
  cb_id :: string
  cb_data :: string

record decline_voting_rights_operation =
  dv_account :: account_name_type
  dv_decline :: bool

record reset_account_operation =
  ra_reset_account :: account_name_type
  ra_account_to_reset :: account_name_type
  ra_new_owner_authority :: authority

record set_reset_account_operation =
  sra_account :: account_name_type
  sra_current_reset_account :: account_name_type
  sra_reset_account :: account_name_type

record claim_reward_balance_operation =
  crb_account :: account_name_type
  crb_reward_steem :: asset
  crb_reward_sbd :: asset
  crb_reward_vests :: asset

record delegate_vesting_shares_operation =
  dvs_delegator :: account_name_type
  dvs_delegatee :: account_name_type
  dvs_vesting_shares :: asset

record account_create_with_delegation_operation =
  acd_fee :: asset
  acd_delegation :: asset
  acd_creator :: account_name_type
  acd_new_account_name :: account_name_type
  acd_owner :: authority
  acd_active :: authority
  acd_posting :: authority
  acd_memo_key :: public_key_type
  acd_json_metadata :: string
  acd_extensions :: "unit list"

record witness_set_properties_operation =
  wsp_owner :: account_name_type
  wsp_props :: "(string \<times> packed) list"
  wsp_extensions :: "unit list"

section \<open>Validation\<close>

definition validate_permlink :: "string \<Rightarrow> unit res" where
  "validate_permlink p =
     fc_assert 24 (length p < STEEM_MAX_PERMLINK_LENGTH) (fc_assert 25 (is_utf8 p) (Inr ()))"

definition legacy_chain_properties_validate :: "legacy_chain_properties \<Rightarrow> unit res" where
  "legacy_chain_properties_validate p =
     fc_assert 391 (lcp_account_creation_fee p \<ge> STEEM_MIN_ACCOUNT_CREATION_FEE) (
     fc_assert 392 (lcp_maximum_block_size p \<ge> STEEM_MIN_BLOCK_SIZE_LIMIT) (
     fc_assert 393 (lcp_sbd_interest_rate p \<ge> 0) (
     fc_assert 394 (lcp_sbd_interest_rate p \<le> STEEM_100_PERCENT) (Inr ()))))"

definition unpack_asset :: "packed \<Rightarrow> asset res" where
  "unpack_asset p = (case p of Packed_asset a \<Rightarrow> Inr a | _ \<Rightarrow> Inl Out_of_range)"

definition unpack_uint32 :: "packed \<Rightarrow> int res" where
  "unpack_uint32 p = (case p of Packed_uint32 n \<Rightarrow> Inr n | _ \<Rightarrow> Inl Out_of_range)"

definition unpack_uint16 :: "packed \<Rightarrow> int res" where
  "unpack_uint16 p = (case p of Packed_uint16 n \<Rightarrow> Inr n | _ \<Rightarrow> Inl Out_of_range)"

definition unpack_key :: "packed \<Rightarrow> public_key_type res" where
  "unpack_key p = (case p of Packed_key k \<Rightarrow> Inr k | _ \<Rightarrow> Inl Out_of_range)"

definition unpack_price :: "packed \<Rightarrow> price res" where
  "unpack_price p = (case p of Packed_price x \<Rightarrow> Inr x | _ \<Rightarrow> Inl Out_of_range)"

definition unpack_string :: "packed \<Rightarrow> string res" where
  "unpack_string p = (case p of Packed_string s \<Rightarrow> Inr s | _ \<Rightarrow> Inl Out_of_range)"

fun beneficiaries_loop :: "beneficiary_route_type \<Rightarrow> beneficiary_route_type list \<Rightarrow> int \<Rightarrow> unit res" where
  "beneficiaries_loop prev [] wsum = Inr ()"
| "beneficiaries_loop prev (b # bs) wsum =
     bindE (validate_account_name (br_account b)) (\<lambda>_.
     fc_assert 114 (br_weight b \<le> STEEM_100_PERCENT)
     (let wsum = to_uint32 (wsum + br_weight b) in
      fc_assert 116 (wsum \<le> STEEM_100_PERCENT)
      (fc_assert 117 (br_account prev < br_account b) (beneficiaries_loop b bs wsum))))"

definition beneficiaries_validate :: "beneficiary_route_type list \<Rightarrow> unit res" where
  "beneficiaries_validate bs =
     fc_assert 103 (length bs \<noteq> 0)
     (fc_assert 104 (length bs < 128)
     (let b = hd bs in
      bindE (validate_account_name (br_account b)) (\<lambda>_.
      fc_assert 107 (br_weight b \<le> STEEM_100_PERCENT)
      (let wsum = to_uint32 (br_weight b) in
       fc_assert 109 (wsum \<le> STEEM_100_PERCENT) (beneficiaries_loop b (tl bs) wsum)))))"

definition vote_validate :: "vote_operation \<Rightarrow> unit res" where
  "vote_validate o1 =
     bindE (validate_account_name (vo_voter o1)) (\<lambda>_.
     bindE (validate_account_name (vo_author o1)) (\<lambda>_.
     fc_assert 170 (abs (vo_weight o1) \<le> STEEM_100_PERCENT) (
     bindE (validate_permlink (vo_permlink o1)) (\<lambda>_.
     Inr ()))))"

definition comment_validate :: "op_env \<Rightarrow> comment_operation \<Rightarrow> unit res" where
  "comment_validate env o1 =
     fc_assert 72 (length (cm_title o1) < 256) (
     fc_assert 73 (is_utf8 (cm_title o1)) (
     fc_assert 74 (length (cm_body o1) > 0) (
     fc_assert 75 (is_utf8 (cm_body o1)) (
     bindE (if (cm_parent_author o1) \<noteq> [] then validate_account_name (cm_parent_author o1) else Inr ()) (\<lambda>_.
     bindE (validate_account_name (cm_author o1)) (\<lambda>_.
     bindE (validate_permlink (cm_parent_permlink o1)) (\<lambda>_.
     bindE (validate_permlink (cm_permlink o1)) (\<lambda>_.
     bindE (if length (cm_json_metadata o1) > 0 then fc_assert 85 (env_json_is_valid env (cm_json_metadata o1)) (Inr ()) else Inr ()) (\<lambda>_.
     Inr ())))))))))"

definition transfer_validate :: "transfer_operation \<Rightarrow> unit res" where
  "transfer_validate o1 =
     bindE (validate_account_name (tr_from o1)) (\<lambda>_.
     bindE (validate_account_name (tr_to o1)) (\<lambda>_.
     fc_assert 178 (symbol (tr_amount o1) \<noteq> VESTS_SYMBOL) (
     fc_assert 179 (amount (tr_amount o1) > 0) (
     fc_assert 180 (length (tr_memo o1) < STEEM_MAX_MEMO_SIZE) (
     fc_assert 181 (is_utf8 (tr_memo o1)) (
     Inr ()))))))"

definition transfer_to_vesting_validate :: "transfer_to_vesting_operation \<Rightarrow> unit res" where
  "transfer_to_vesting_validate o1 =
     bindE (validate_account_name (tv_from o1)) (\<lambda>_.
     fc_assert 187 (symbol (tv_amount o1) = STEEM_SYMBOL) (
     bindE (if (tv_to o1) \<noteq> [] then validate_account_name (tv_to o1) else Inr ()) (\<lambda>_.
     fc_assert 189 (amount (tv_amount o1) > 0) (
     Inr ()))))"

definition withdraw_vesting_validate :: "withdraw_vesting_operation \<Rightarrow> unit res" where
  "withdraw_vesting_validate o1 =
     bindE (validate_account_name (wd_account o1)) (\<lambda>_.
     fc_assert 195 (is_asset_type (wd_vesting_shares o1) VESTS_SYMBOL) (
     Inr ()))"

definition limit_order_create_validate :: "limit_order_create_operation \<Rightarrow> unit res" where
  "limit_order_create_validate o1 =
     bindE (validate_account_name (loc_owner o1)) (\<lambda>_.
     fc_assert 333 ((is_asset_type (loc_amount_to_sell o1) STEEM_SYMBOL \<and> is_asset_type (loc_min_to_receive o1) SBD_SYMBOL) \<or>
       (is_asset_type (loc_amount_to_sell o1) SBD_SYMBOL \<and> is_asset_type (loc_min_to_receive o1) STEEM_SYMBOL)) (
     bindE (bindE (mk_price (loc_amount_to_sell o1) (loc_min_to_receive o1)) price_validate) (\<lambda>_.
     Inr ())))"

definition limit_order_cancel_validate :: "limit_order_cancel_operation \<Rightarrow> unit res" where
  "limit_order_cancel_validate o1 =
     bindE (validate_account_name (lox_owner o1)) (\<lambda>_.
     Inr ())"

definition feed_publish_validate :: "feed_publish_operation \<Rightarrow> unit res" where
  "feed_publish_validate o1 =
     bindE (validate_account_name (fp_publisher o1)) (\<lambda>_.
     fc_assert 323 ((is_asset_type (base (fp_exchange_rate o1)) STEEM_SYMBOL \<and> is_asset_type (quote (fp_exchange_rate o1)) SBD_SYMBOL) \<or>
       (is_asset_type (base (fp_exchange_rate o1)) SBD_SYMBOL \<and> is_asset_type (quote (fp_exchange_rate o1)) STEEM_SYMBOL)) (
     bindE (price_validate (fp_exchange_rate o1)) (\<lambda>_.
     Inr ())))"

definition convert_validate :: "convert_operation \<Rightarrow> unit res" where
  "convert_validate o1 =
     bindE (validate_account_name (cvt_owner o1)) (\<lambda>_.
     fc_assert 364 (is_asset_type (cvt_amount o1) SBD_SYMBOL) (
     fc_assert 365 (amount (cvt_amount o1) > 0) (
     Inr ())))"

definition account_create_validate :: "op_env \<Rightarrow> account_create_operation \<Rightarrow> unit res" where
  "account_create_validate env o1 =
     bindE (validate_account_name (acr_new_account_name o1)) (\<lambda>_.
     fc_assert 20 (is_asset_type (acr_fee o1) STEEM_SYMBOL) (
     bindE (authority_validate (acr_owner o1)) (\<lambda>_.
     bindE (authority_validate (acr_active o1)) (\<lambda>_.
     bindE (if length (acr_json_metadata o1) > 0 then fc_assert 26 (is_utf8 (acr_json_metadata o1)) (fc_assert 27 (env_json_is_valid env (acr_json_metadata o1)) (Inr ())) else Inr ()) (\<lambda>_.
     bindE (asset_ge (acr_fee o1) (mk_asset 0 STEEM_SYMBOL)) (\<lambda>c. fc_assert 29 c (
     Inr ())))))))"

definition account_update_validate :: "op_env \<Rightarrow> account_update_operation \<Rightarrow> unit res" where
  "account_update_validate env o1 =
     bindE (validate_account_name (au_account o1)) (\<lambda>_.
     bindE (if length (au_json_metadata o1) > 0 then fc_assert 65 (is_utf8 (au_json_metadata o1)) (fc_assert 66 (env_json_is_valid env (au_json_metadata o1)) (Inr ())) else Inr ()) (\<lambda>_.
     Inr ()))"

definition witness_update_validate :: "witness_update_operation \<Rightarrow> unit res" where
  "witness_update_validate o1 =
     bindE (validate_account_name (wu_owner o1)) (\<lambda>_.
     fc_assert 209 (length (wu_url o1) \<le> STEEM_MAX_WITNESS_URL_LENGTH) (
     fc_assert 211 (length (wu_url o1) > 0) (
     fc_assert 212 (is_utf8 (wu_url o1)) (
     bindE (asset_ge (wu_fee o1) (mk_asset 0 STEEM_SYMBOL)) (\<lambda>c. fc_assert 213 c (
     bindE (legacy_chain_properties_validate (wu_props o1)) (\<lambda>_.
     Inr ())))))))"

definition account_witness_vote_validate :: "account_witness_vote_operation \<Rightarrow> unit res" where
  "account_witness_vote_validate o1 =
     bindE (validate_account_name (awv_account o1)) (\<lambda>_.
     bindE (validate_account_name (awv_witness o1)) (\<lambda>_.
     Inr ()))"

definition account_witness_proxy_validate :: "account_witness_proxy_operation \<Rightarrow> unit res" where
  "account_witness_proxy_validate o1 =
     bindE (validate_account_name (awp_account o1)) (\<lambda>_.
     bindE (if (awp_proxy o1) \<noteq> [] then validate_account_name (awp_proxy o1) else Inr ()) (\<lambda>_.
     fc_assert 299 ((awp_proxy o1) \<noteq> (awp_account o1)) (
     Inr ())))"

definition custom_validate :: "custom_operation \<Rightarrow> unit res" where
  "custom_validate o1 =
     fc_assert 304 (length (cu_required_auths o1) > 0) (
     Inr ())"

definition report_over_production_validate :: "op_env \<Rightarrow> report_over_production_operation \<Rightarrow> unit res" where
  "report_over_production_validate env o1 =
     bindE (validate_account_name (rop_reporter o1)) (\<lambda>_.
     bindE (validate_account_name (bh_witness (rop_first_block o1))) (\<lambda>_.
     fc_assert 372 (bh_witness (rop_first_block o1) = bh_witness (rop_second_block o1)) (
     fc_assert 373 (bh_timestamp (rop_first_block o1) = bh_timestamp (rop_second_block o1)) (
     fc_assert 374 (env_signee env (rop_first_block o1) = env_signee env (rop_second_block o1)) (
     fc_assert 375 (env_block_id env (rop_first_block o1) \<noteq> env_block_id env (rop_second_block o1)) (
     Inr ()))))))"

definition delete_comment_validate :: "delete_comment_operation \<Rightarrow> unit res" where
  "delete_comment_validate o1 =
     bindE (validate_permlink (dc_permlink o1)) (\<lambda>_.
     bindE (validate_account_name (dc_author o1)) (\<lambda>_.
     Inr ()))"

definition custom_json_validate :: "op_env \<Rightarrow> custom_json_operation \<Rightarrow> unit res" where
  "custom_json_validate env o1 =
     fc_assert 308 (length (cj_required_auths o1) + length (cj_required_posting_auths o1) > 0) (
     fc_assert 309 (length (cj_id o1) \<le> 32) (
     fc_assert 310 (is_utf8 (cj_json o1)) (
     fc_assert 311 (env_json_is_valid env (cj_json o1)) (
     Inr ()))))"

definition comment_options_validate :: "comment_options_operation \<Rightarrow> unit res" where
  "comment_options_validate o1 =
     bindE (validate_account_name (cop_author o1)) (\<lambda>_.
     fc_assert 124 ((cop_percent_steem_dollars o1) \<le> STEEM_100_PERCENT) (
     fc_assert 125 (symbol (cop_max_accepted_payout o1) = SBD_SYMBOL) (
     fc_assert 126 (amount (cop_max_accepted_payout o1) \<ge> 0) (
     bindE (validate_permlink (cop_permlink o1)) (\<lambda>_.
     bindE (foldE (\<lambda>e _. beneficiaries_validate e) (cop_extensions o1) ()) (\<lambda>_.
     Inr ()))))))"

definition set_withdraw_vesting_route_validate :: "set_withdraw_vesting_route_operation \<Rightarrow> unit res" where
  "set_withdraw_vesting_route_validate o1 =
     bindE (validate_account_name (swr_from_account o1)) (\<lambda>_.
     bindE (validate_account_name (swr_to_account o1)) (\<lambda>_.
     fc_assert 202 (0 \<le> (swr_percent o1) \<and> (swr_percent o1) \<le> STEEM_100_PERCENT) (
     Inr ())))"

definition limit_order_create2_validate :: "limit_order_create2_operation \<Rightarrow> unit res" where
  "limit_order_create2_validate o1 =
     bindE (validate_account_name (lo2_owner o1)) (\<lambda>_.
     fc_assert 344 (symbol (lo2_amount_to_sell o1) = symbol (base (lo2_exchange_rate o1))) (
     bindE (price_validate (lo2_exchange_rate o1)) (\<lambda>_.
     fc_assert 347 ((is_asset_type (lo2_amount_to_sell o1) STEEM_SYMBOL \<and> is_asset_type (quote (lo2_exchange_rate o1)) SBD_SYMBOL) \<or>
       (is_asset_type (lo2_amount_to_sell o1) SBD_SYMBOL \<and> is_asset_type (quote (lo2_exchange_rate o1)) STEEM_SYMBOL)) (
     bindE (asset_mul_price (lo2_amount_to_sell o1) (lo2_exchange_rate o1)) (\<lambda>x. fc_assert 351 (amount x > 0) (
     Inr ()))))))"

definition claim_account_validate :: "claim_account_operation \<Rightarrow> unit res" where
  "claim_account_validate o1 =
     bindE (validate_account_name (cla_creator o1)) (\<lambda>_.
     fc_assert 141 (is_asset_type (cla_fee o1) STEEM_SYMBOL) (
     bindE (asset_ge (cla_fee o1) (mk_asset 0 STEEM_SYMBOL)) (\<lambda>c. fc_assert 142 c (
     fc_assert 143 (length (cla_extensions o1) = 0) (
     Inr ())))))"

definition create_claimed_account_validate :: "op_env \<Rightarrow> create_claimed_account_operation \<Rightarrow> unit res" where
  "create_claimed_account_validate env o1 =
     bindE (validate_account_name (cca_creator o1)) (\<lambda>_.
     bindE (validate_account_name (cca_new_account_name o1)) (\<lambda>_.
     bindE (authority_validate (cca_owner o1)) (\<lambda>_.
     bindE (authority_validate (cca_active o1)) (\<lambda>_.
     bindE (authority_validate (cca_posting o1)) (\<lambda>_.
     bindE (validate_auth_size (cca_owner o1)) (\<lambda>_.
     bindE (validate_auth_size (cca_active o1)) (\<lambda>_.
     bindE (validate_auth_size (cca_posting o1)) (\<lambda>_.
     bindE (if length (cca_json_metadata o1) > 0 then fc_assert 159 (is_utf8 (cca_json_metadata o1)) (fc_assert 160 (env_json_is_valid env (cca_json_metadata o1)) (Inr ())) else Inr ()) (\<lambda>_.
     fc_assert 163 (length (cca_extensions o1) = 0) (
     Inr ()))))))))))"

definition request_account_recovery_validate :: "request_account_recovery_operation \<Rightarrow> unit res" where
  "request_account_recovery_validate o1 =
     bindE (validate_account_name (rar_recovery_account o1)) (\<lambda>_.
     bindE (validate_account_name (rar_account_to_recover o1)) (\<lambda>_.
     bindE (authority_validate (rar_new_owner_authority o1)) (\<lambda>_.
     Inr ())))"

definition recover_account_validate :: "recover_account_operation \<Rightarrow> unit res" where
  "recover_account_validate o1 =
     bindE (validate_account_name (rec_account_to_recover o1)) (\<lambda>_.
     fc_assert 443 (\<not> authority_eq (rec_new_owner_authority o1) (rec_recent_owner_authority o1)) (
     fc_assert 444 (\<not> is_impossible (rec_new_owner_authority o1)) (
     fc_assert 445 (\<not> is_impossible (rec_recent_owner_authority o1)) (
     fc_assert 446 (weight_threshold (rec_new_owner_authority o1) \<noteq> 0) (
     bindE (authority_validate (rec_new_owner_authority o1)) (\<lambda>_.
     bindE (authority_validate (rec_recent_owner_authority o1)) (\<lambda>_.
     Inr ())))))))"

definition change_recovery_account_validate :: "change_recovery_account_operation \<Rightarrow> unit res" where
  "change_recovery_account_validate o1 =
     bindE (validate_account_name (cra_account_to_recover o1)) (\<lambda>_.
     bindE (validate_account_name (cra_new_recovery_account o1)) (\<lambda>_.
     Inr ()))"

definition escrow_transfer_validate :: "op_env \<Rightarrow> escrow_transfer_operation \<Rightarrow> unit res" where
  "escrow_transfer_validate env o1 =
     bindE (validate_account_name (et_from o1)) (\<lambda>_.
     bindE (validate_account_name (et_to o1)) (\<lambda>_.
     bindE (validate_account_name (et_agent o1)) (\<lambda>_.
     fc_assert 383 (amount (et_fee o1) \<ge> 0) (
     fc_assert 384 (amount (et_sbd_amount o1) \<ge> 0) (
     fc_assert 385 (amount (et_steem_amount o1) \<ge> 0) (
     fc_assert 386 (amount (et_sbd_amount o1) > 0 \<or> amount (et_steem_amount o1) > 0) (
     fc_assert 387 ((et_from o1) \<noteq> (et_agent o1) \<and> (et_to o1) \<noteq> (et_agent o1)) (
     fc_assert 388 (symbol (et_fee o1) = STEEM_SYMBOL \<or> symbol (et_fee o1) = SBD_SYMBOL) (
     fc_assert 389 (symbol (et_sbd_amount o1) = SBD_SYMBOL) (
     fc_assert 390 (symbol (et_steem_amount o1) = STEEM_SYMBOL) (
     fc_assert 391 ((et_ratification_deadline o1) < (et_escrow_expiration o1)) (
     bindE (if length (et_json_meta o1) > 0 then fc_assert 394 (is_utf8 (et_json_meta o1)) (fc_assert 395 (env_json_is_valid env (et_json_meta o1)) (Inr ())) else Inr ()) (\<lambda>_.
     Inr ())))))))))))))"

definition escrow_dispute_validate :: "escrow_dispute_operation \<Rightarrow> unit res" where
  "escrow_dispute_validate o1 =
     bindE (validate_account_name (ed_from o1)) (\<lambda>_.
     bindE (validate_account_name (ed_to o1)) (\<lambda>_.
     bindE (validate_account_name (ed_agent o1)) (\<lambda>_.
     bindE (validate_account_name (ed_who o1)) (\<lambda>_.
     fc_assert 414 ((ed_who o1) = (ed_from o1) \<or> (ed_who o1) = (ed_to o1)) (
     Inr ())))))"

definition escrow_release_validate :: "escrow_release_operation \<Rightarrow> unit res" where
  "escrow_release_validate o1 =
     bindE (validate_account_name (er_from o1)) (\<lambda>_.
     bindE (validate_account_name (er_to o1)) (\<lambda>_.
     bindE (validate_account_name (er_agent o1)) (\<lambda>_.
     bindE (validate_account_name (er_who o1)) (\<lambda>_.
     bindE (validate_account_name (er_receiver o1)) (\<lambda>_.
     fc_assert 424 ((er_who o1) = (er_from o1) \<or> (er_who o1) = (er_to o1) \<or> (er_who o1) = (er_agent o1)) (
     fc_assert 425 ((er_receiver o1) = (er_from o1) \<or> (er_receiver o1) = (er_to o1)) (
     fc_assert 426 (amount (er_sbd_amount o1) \<ge> 0) (
     fc_assert 427 (amount (er_steem_amount o1) \<ge> 0) (
     fc_assert 428 (amount (er_sbd_amount o1) > 0 \<or> amount (er_steem_amount o1) > 0) (
     fc_assert 429 (symbol (er_sbd_amount o1) = SBD_SYMBOL) (
     fc_assert 430 (symbol (er_steem_amount o1) = STEEM_SYMBOL) (
     Inr ()))))))))))))"

definition escrow_approve_validate :: "escrow_approve_operation \<Rightarrow> unit res" where
  "escrow_approve_validate o1 =
     bindE (validate_account_name (ea_from o1)) (\<lambda>_.
     bindE (validate_account_name (ea_to o1)) (\<lambda>_.
     bindE (validate_account_name (ea_agent o1)) (\<lambda>_.
     bindE (validate_account_name (ea_who o1)) (\<lambda>_.
     fc_assert 405 ((ea_who o1) = (ea_to o1) \<or> (ea_who o1) = (ea_agent o1)) (
     Inr ())))))"

definition transfer_to_savings_validate :: "transfer_to_savings_operation \<Rightarrow> unit res" where
  "transfer_to_savings_validate o1 =
     bindE (validate_account_name (tts_from o1)) (\<lambda>_.
     bindE (validate_account_name (tts_to o1)) (\<lambda>_.
     fc_assert 460 (amount (tts_amount o1) > 0) (
     fc_assert 461 (symbol (tts_amount o1) = STEEM_SYMBOL \<or> symbol (tts_amount o1) = SBD_SYMBOL) (
     fc_assert 462 (length (tts_memo o1) < STEEM_MAX_MEMO_SIZE) (
     fc_assert 463 (is_utf8 (tts_memo o1)) (
     Inr ()))))))"

definition transfer_from_savings_validate :: "transfer_from_savings_operation \<Rightarrow> unit res" where
  "transfer_from_savings_validate o1 =
     bindE (validate_account_name (tfs_from o1)) (\<lambda>_.
     bindE (validate_account_name (tfs_to o1)) (\<lambda>_.
     fc_assert 468 (amount (tfs_amount o1) > 0) (
     fc_assert 469 (symbol (tfs_amount o1) = STEEM_SYMBOL \<or> symbol (tfs_amount o1) = SBD_SYMBOL) (
     fc_assert 470 (length (tfs_memo o1) < STEEM_MAX_MEMO_SIZE) (
     fc_assert 471 (is_utf8 (tfs_memo o1)) (
     Inr ()))))))"

definition cancel_transfer_from_savings_validate :: "cancel_transfer_from_savings_operation \<Rightarrow> unit res" where
  "cancel_transfer_from_savings_validate o1 =
     bindE (validate_account_name (ctfs_from o1)) (\<lambda>_.
     Inr ())"

definition custom_binary_validate :: "custom_binary_operation \<Rightarrow> unit res" where
  "custom_binary_validate o1 =
     fc_assert 315 (length (cb_required_owner_auths o1) + length (cb_required_active_auths o1) + length (cb_required_posting_auths o1) > 0) (
     fc_assert 316 (length (cb_id o1) \<le> 32) (
     bindE (foldE (\<lambda>a _. authority_validate a) (cb_required_auths o1) ()) (\<lambda>_.
     Inr ())))"

definition decline_voting_rights_validate :: "decline_voting_rights_operation \<Rightarrow> unit res" where
  "decline_voting_rights_validate o1 =
     bindE (validate_account_name (dv_account o1)) (\<lambda>_.
     Inr ())"

definition reset_account_validate :: "reset_account_operation \<Rightarrow> unit res" where
  "reset_account_validate o1 =
     bindE (validate_account_name (ra_reset_account o1)) (\<lambda>_.
     bindE (validate_account_name (ra_account_to_reset o1)) (\<lambda>_.
     fc_assert 486 (\<not> is_impossible (ra_new_owner_authority o1)) (
     fc_assert 487 (weight_threshold (ra_new_owner_authority o1) \<noteq> 0) (
     bindE (authority_validate (ra_new_owner_authority o1)) (\<lambda>_.
     Inr ())))))"

definition set_reset_account_validate :: "set_reset_account_operation \<Rightarrow> unit res" where
  "set_reset_account_validate o1 =
     bindE (validate_account_name (sra_account o1)) (\<lambda>_.
     bindE (if (sra_current_reset_account o1) \<noteq> [] then validate_account_name (sra_current_reset_account o1) else Inr ()) (\<lambda>_.
     bindE (validate_account_name (sra_reset_account o1)) (\<lambda>_.
     fc_assert 497 ((sra_current_reset_account o1) \<noteq> (sra_reset_account o1)) (
     Inr ()))))"

definition claim_reward_balance_validate :: "claim_reward_balance_operation \<Rightarrow> unit res" where
  "claim_reward_balance_validate o1 =
     bindE (validate_account_name (crb_account o1)) (\<lambda>_.
     fc_assert 503 (is_asset_type (crb_reward_steem o1) STEEM_SYMBOL) (
     fc_assert 504 (is_asset_type (crb_reward_sbd o1) SBD_SYMBOL) (
     fc_assert 505 (is_asset_type (crb_reward_vests o1) VESTS_SYMBOL) (
     fc_assert 506 (amount (crb_reward_steem o1) \<ge> 0) (
     fc_assert 507 (amount (crb_reward_sbd o1) \<ge> 0) (
     fc_assert 508 (amount (crb_reward_vests o1) \<ge> 0) (
     fc_assert 509 (amount (crb_reward_steem o1) > 0 \<or> amount (crb_reward_sbd o1) > 0 \<or> amount (crb_reward_vests o1) > 0) (
     Inr ()))))))))"

definition delegate_vesting_shares_validate :: "delegate_vesting_shares_operation \<Rightarrow> unit res" where
  "delegate_vesting_shares_validate o1 =
     bindE (validate_account_name (dvs_delegator o1)) (\<lambda>_.
     bindE (validate_account_name (dvs_delegatee o1)) (\<lambda>_.
     fc_assert 516 ((dvs_delegator o1) \<noteq> (dvs_delegatee o1)) (
     fc_assert 517 (is_asset_type (dvs_vesting_shares o1) VESTS_SYMBOL) (
     bindE (asset_ge (dvs_vesting_shares o1) (mk_asset 0 VESTS_SYMBOL)) (\<lambda>c. fc_assert 518 c (
     Inr ()))))))"

definition account_create_with_delegation_validate :: "op_env \<Rightarrow> account_create_with_delegation_operation \<Rightarrow> unit res" where
  "account_create_with_delegation_validate env o1 =
     bindE (validate_account_name (acd_new_account_name o1)) (\<lambda>_.
     bindE (validate_account_name (acd_creator o1)) (\<lambda>_.
     fc_assert 36 (is_asset_type (acd_fee o1) STEEM_SYMBOL) (
     fc_assert 37 (is_asset_type (acd_delegation o1) VESTS_SYMBOL) (
     bindE (authority_validate (acd_owner o1)) (\<lambda>_.
     bindE (authority_validate (acd_active o1)) (\<lambda>_.
     bindE (authority_validate (acd_posting o1)) (\<lambda>_.
     bindE (if length (acd_json_metadata o1) > 0 then fc_assert 45 (is_utf8 (acd_json_metadata o1)) (fc_assert 46 (env_json_is_valid env (acd_json_metadata o1)) (Inr ())) else Inr ()) (\<lambda>_.
     bindE (asset_ge (acd_fee o1) (mk_asset 0 STEEM_SYMBOL)) (\<lambda>c. fc_assert 49 c (
     bindE (asset_ge (acd_delegation o1) (mk_asset 0 VESTS_SYMBOL)) (\<lambda>c. fc_assert 50 c (
     Inr ()))))))))))))"

definition witness_set_properties_validate :: "witness_set_properties_operation \<Rightarrow> unit res" where
  "witness_set_properties_validate o1 =
     bindE (validate_account_name (wsp_owner o1)) (\<lambda>_.
     fc_assert 222 (map_of (wsp_props o1) ''key'' \<noteq> None) (
     bindE (case map_of (wsp_props o1) ''account_creation_fee'' of None \<Rightarrow> Inr ()
       | Some p \<Rightarrow> bindE (unpack_asset p) (\<lambda>x. fc_assert 229 (symbol x = STEEM_SYMBOL) (fc_assert 230 (amount x \<ge> STEEM_MIN_ACCOUNT_CREATION_FEE) (Inr ())))) (\<lambda>_.
     bindE (case map_of (wsp_props o1) ''maximum_block_size'' of None \<Rightarrow> Inr ()
       | Some p \<Rightarrow> bindE (unpack_uint32 p) (\<lambda>x. fc_assert 238 (x \<ge> STEEM_MIN_BLOCK_SIZE_LIMIT) (Inr ()))) (\<lambda>_.
     bindE (case map_of (wsp_props o1) ''sbd_interest_rate'' of None \<Rightarrow> Inr ()
       | Some p \<Rightarrow> bindE (unpack_uint16 p) (\<lambda>x. fc_assert 246 (x \<ge> 0) (fc_assert 247 (x \<le> STEEM_100_PERCENT) (Inr ())))) (\<lambda>_.
     bindE (case map_of (wsp_props o1) ''new_signing_key'' of None \<Rightarrow> Inr ()
       | Some p \<Rightarrow> bindE (unpack_key p) (\<lambda>x. Inr ())) (\<lambda>_.
     bindE (case map_of (wsp_props o1) ''sbd_exchange_rate'' of None \<Rightarrow> Inr ()
       | Some p \<Rightarrow> bindE (unpack_price p) (\<lambda>x. fc_assert 263 (is_asset_type (base x) SBD_SYMBOL \<and> is_asset_type (quote x) STEEM_SYMBOL) (bindE (price_validate x) (\<lambda>_. Inr ())))) (\<lambda>_.
     bindE (case map_of (wsp_props o1) ''url'' of None \<Rightarrow> Inr ()
       | Some p \<Rightarrow> bindE (unpack_string p) (\<lambda>x. fc_assert 274 (length x \<le> STEEM_MAX_WITNESS_URL_LENGTH) (fc_assert 275 (length x > 0) (fc_assert 276 (is_utf8 x) (Inr ()))))) (\<lambda>_.
     bindE (case map_of (wsp_props o1) ''account_subsidy_limit'' of None \<Rightarrow> Inr ()
       | Some p \<Rightarrow> bindE (unpack_uint32 p) (\<lambda>x. Inr ())) (\<lambda>_.
     Inr ())))))))))"

section \<open>The variant of all operations\<close>

datatype operation =
    Op_vote vote_operation
  | Op_comment comment_operation
  | Op_transfer transfer_operation
  | Op_transfer_to_vesting transfer_to_vesting_operation
  | Op_withdraw_vesting withdraw_vesting_operation
  | Op_limit_order_create limit_order_create_operation
  | Op_limit_order_cancel limit_order_cancel_operation
  | Op_feed_publish feed_publish_operation
  | Op_convert convert_operation
  | Op_account_create account_create_operation
  | Op_account_update account_update_operation
  | Op_witness_update witness_update_operation
  | Op_account_witness_vote account_witness_vote_operation
  | Op_account_witness_proxy account_witness_proxy_operation
  | Op_custom custom_operation
  | Op_report_over_production report_over_production_operation
  | Op_delete_comment delete_comment_operation
  | Op_custom_json custom_json_operation
  | Op_comment_options comment_options_operation
  | Op_set_withdraw_vesting_route set_withdraw_vesting_route_operation
  | Op_limit_order_create2 limit_order_create2_operation
  | Op_claim_account claim_account_operation
  | Op_create_claimed_account create_claimed_account_operation
  | Op_request_account_recovery request_account_recovery_operation
  | Op_recover_account recover_account_operation
  | Op_change_recovery_account change_recovery_account_operation
  | Op_escrow_transfer escrow_transfer_operation
  | Op_escrow_dispute escrow_dispute_operation
  | Op_escrow_release escrow_release_operation
  | Op_escrow_approve escrow_approve_operation
  | Op_transfer_to_savings transfer_to_savings_operation
  | Op_transfer_from_savings transfer_from_savings_operation
  | Op_cancel_transfer_from_savings cancel_transfer_from_savings_operation
  | Op_custom_binary custom_binary_operation
  | Op_decline_voting_rights decline_voting_rights_operation
  | Op_reset_account reset_account_operation
  | Op_set_reset_account set_reset_account_operation
  | Op_claim_reward_balance claim_reward_balance_operation
  | Op_delegate_vesting_shares delegate_vesting_shares_operation
  | Op_account_create_with_delegation account_create_with_delegation_operation
  | Op_witness_set_properties witness_set_properties_operation

definition operation_validate :: "op_env \<Rightarrow> operation \<Rightarrow> unit res" where
  "operation_validate env op1 = (case op1 of
       Op_vote x \<Rightarrow> vote_validate x
     | Op_comment x \<Rightarrow> comment_validate env x
     | Op_transfer x \<Rightarrow> transfer_validate x
     | Op_transfer_to_vesting x \<Rightarrow> transfer_to_vesting_validate x
     | Op_withdraw_vesting x \<Rightarrow> withdraw_vesting_validate x
     | Op_limit_order_create x \<Rightarrow> limit_order_create_validate x
     | Op_limit_order_cancel x \<Rightarrow> limit_order_cancel_validate x
     | Op_feed_publish x \<Rightarrow> feed_publish_validate x
     | Op_convert x \<Rightarrow> convert_validate x
     | Op_account_create x \<Rightarrow> account_create_validate env x
     | Op_account_update x \<Rightarrow> account_update_validate env x
     | Op_witness_update x \<Rightarrow> witness_update_validate x
     | Op_account_witness_vote x \<Rightarrow> account_witness_vote_validate x
     | Op_account_witness_proxy x \<Rightarrow> account_witness_proxy_validate x
     | Op_custom x \<Rightarrow> custom_validate x
     | Op_report_over_production x \<Rightarrow> report_over_production_validate env x
     | Op_delete_comment x \<Rightarrow> delete_comment_validate x
     | Op_custom_json x \<Rightarrow> custom_json_validate env x
     | Op_comment_options x \<Rightarrow> comment_options_validate x
     | Op_set_withdraw_vesting_route x \<Rightarrow> set_withdraw_vesting_route_validate x
     | Op_limit_order_create2 x \<Rightarrow> limit_order_create2_validate x
     | Op_claim_account x \<Rightarrow> claim_account_validate x
     | Op_create_claimed_account x \<Rightarrow> create_claimed_account_validate env x
     | Op_request_account_recovery x \<Rightarrow> request_account_recovery_validate x
     | Op_recover_account x \<Rightarrow> recover_account_validate x
     | Op_change_recovery_account x \<Rightarrow> change_recovery_account_validate x
     | Op_escrow_transfer x \<Rightarrow> escrow_transfer_validate env x
     | Op_escrow_dispute x \<Rightarrow> escrow_dispute_validate x
     | Op_escrow_release x \<Rightarrow> escrow_release_validate x
     | Op_escrow_approve x \<Rightarrow> escrow_approve_validate x
     | Op_transfer_to_savings x \<Rightarrow> transfer_to_savings_validate x
     | Op_transfer_from_savings x \<Rightarrow> transfer_from_savings_validate x
     | Op_cancel_transfer_from_savings x \<Rightarrow> cancel_transfer_from_savings_validate x
     | Op_custom_binary x \<Rightarrow> custom_binary_validate x
     | Op_decline_voting_rights x \<Rightarrow> decline_voting_rights_validate x
     | Op_reset_account x \<Rightarrow> reset_account_validate x
     | Op_set_reset_account x \<Rightarrow> set_reset_account_validate x
     | Op_claim_reward_balance x \<Rightarrow> claim_reward_balance_validate x
     | Op_delegate_vesting_shares x \<Rightarrow> delegate_vesting_shares_validate x
     | Op_account_create_with_delegation x \<Rightarrow> account_create_with_delegation_validate env x
     | Op_witness_set_properties x \<Rightarrow> witness_set_properties_validate x)"

text \<open>The names an operation inserts into each authority set, and the authorities it requires as such.\<close>

definition required_owner_authorities :: "operation \<Rightarrow> account_name_type list" where
  "required_owner_authorities op1 = (case op1 of
       Op_transfer x \<Rightarrow> (if symbol (tr_amount x) = VESTS_SYMBOL then [tr_from x] else [])
     | Op_account_update x \<Rightarrow> (if au_owner x \<noteq> None then [au_account x] else [])
     | Op_change_recovery_account x \<Rightarrow> [cra_account_to_recover x]
     | Op_custom_binary x \<Rightarrow> cb_required_owner_auths x
     | Op_decline_voting_rights x \<Rightarrow> [dv_account x]
     | Op_set_reset_account x \<Rightarrow> (if sra_current_reset_account x \<noteq> [] then [sra_account x] else [])
     | _ \<Rightarrow> [])"

definition required_active_authorities :: "operation \<Rightarrow> account_name_type list" where
  "required_active_authorities op1 = (case op1 of
       Op_transfer x \<Rightarrow> (if symbol (tr_amount x) \<noteq> VESTS_SYMBOL then [tr_from x] else [])
     | Op_transfer_to_vesting x \<Rightarrow> [tv_from x]
     | Op_withdraw_vesting x \<Rightarrow> [wd_account x]
     | Op_limit_order_create x \<Rightarrow> [loc_owner x]
     | Op_limit_order_cancel x \<Rightarrow> [lox_owner x]
     | Op_feed_publish x \<Rightarrow> [fp_publisher x]
     | Op_convert x \<Rightarrow> [cvt_owner x]
     | Op_account_create x \<Rightarrow> [acr_creator x]
     | Op_account_update x \<Rightarrow> (if au_owner x = None then [au_account x] else [])
     | Op_witness_update x \<Rightarrow> [wu_owner x]
     | Op_account_witness_vote x \<Rightarrow> [awv_account x]
     | Op_account_witness_proxy x \<Rightarrow> [awp_account x]
     | Op_custom x \<Rightarrow> cu_required_auths x
     | Op_custom_json x \<Rightarrow> cj_required_auths x
     | Op_set_withdraw_vesting_route x \<Rightarrow> [swr_from_account x]
     | Op_limit_order_create2 x \<Rightarrow> [lo2_owner x]
     | Op_claim_account x \<Rightarrow> [cla_creator x]
     | Op_create_claimed_account x \<Rightarrow> [cca_creator x]
     | Op_request_account_recovery x \<Rightarrow> [rar_recovery_account x]
     | Op_escrow_transfer x \<Rightarrow> [et_from x]
     | Op_escrow_dispute x \<Rightarrow> [ed_who x]
     | Op_escrow_release x \<Rightarrow> [er_who x]
     | Op_escrow_approve x \<Rightarrow> [ea_who x]
     | Op_transfer_to_savings x \<Rightarrow> [tts_from x]
     | Op_transfer_from_savings x \<Rightarrow> [tfs_from x]
     | Op_cancel_transfer_from_savings x \<Rightarrow> [ctfs_from x]
     | Op_custom_binary x \<Rightarrow> cb_required_active_auths x
     | Op_reset_account x \<Rightarrow> [ra_reset_account x]
     | Op_delegate_vesting_shares x \<Rightarrow> [dvs_delegator x]
     | Op_account_create_with_delegation x \<Rightarrow> [acd_creator x]
     | _ \<Rightarrow> [])"

definition required_posting_authorities :: "operation \<Rightarrow> account_name_type list" where
  "required_posting_authorities op1 = (case op1 of
       Op_vote x \<Rightarrow> [vo_voter x]
     | Op_comment x \<Rightarrow> [cm_author x]
     | Op_delete_comment x \<Rightarrow> [dc_author x]
     | Op_custom_json x \<Rightarrow> cj_required_posting_auths x
     | Op_comment_options x \<Rightarrow> [cop_author x]
     | Op_custom_binary x \<Rightarrow> cb_required_posting_auths x
     | Op_set_reset_account x \<Rightarrow> (if sra_current_reset_account x = [] then [sra_account x] else [])
     | Op_claim_reward_balance x \<Rightarrow> [crb_account x]
     | _ \<Rightarrow> [])"

definition required_authorities :: "operation \<Rightarrow> authority list res" where
  "required_authorities op1 = (case op1 of
       Op_recover_account x \<Rightarrow> Inr [rec_new_owner_authority x, rec_recent_owner_authority x]
     | Op_custom_binary x \<Rightarrow> Inr (cb_required_auths x)
     | Op_witness_set_properties x \<Rightarrow> (case map_of (wsp_props x) ''key'' of
        Some p \<Rightarrow> bindE (unpack_key p) (\<lambda>k. Inr [\<lparr> weight_threshold = 1, account_auths = [], key_auths = [(k, 1)] \<rparr>])
      | None \<Rightarrow> Inr [\<lparr> weight_threshold = 1, account_auths = [(STEEM_NULL_ACCOUNT, 1)], key_auths = [] \<rparr>])
     | _ \<Rightarrow> Inr [])"

definition is_market_operation :: "operation \<Rightarrow> bool" where
  "is_market_operation op1 = (case op1 of
       Op_limit_order_create _ \<Rightarrow> True
     | Op_limit_order_cancel _ \<Rightarrow> True
     | Op_transfer _ \<Rightarrow> True
     | Op_transfer_to_vesting _ \<Rightarrow> True
     | _ \<Rightarrow> False)"

end
