(* ===== verification/Transfers.thy ===== *)
theory Transfers
  imports Balances Operations
begin

text \<open>
  Payments: the evaluators of transfers, savings, conversions and escrows in
  src/src/core/chain/steem_evaluator.cpp, and the block-time processing of matured savings
  withdrawals, conversions and expired escrows in src/src/core/chain/database.cpp.

  A range of an ordered index that is consumed while it is walked is the sorted list of the rows it
  selects at the start; no step of these loops adds a row to the index it walks.
\<close>

section \<open>Transfers\<close>

definition transfer_do_apply :: "database \<Rightarrow> transfer_operation \<Rightarrow> database res" where
  "transfer_do_apply db o1 =
     bindE (get_account db (tr_from o1)) (\<lambda>from_account.
     bindE (get_balance from_account (symbol (tr_amount o1))) (\<lambda>b.
     bindE (asset_ge b (tr_amount o1)) (\<lambda>ge.
     fc_assert 905 ge
     (bindE (asset_neg (tr_amount o1)) (\<lambda>neg.
      bindE (adjust_balance db (tr_from o1) neg) (\<lambda>db.
      adjust_balance db (tr_to o1) (tr_amount o1)))))))"

definition transfer_to_vesting_do_apply :: "database \<Rightarrow> transfer_to_vesting_operation \<Rightarrow> database res" where
  "transfer_to_vesting_do_apply db o1 =
     bindE (get_account db (tv_from o1)) (\<lambda>from_account.
     bindE (if tv_to o1 \<noteq> [] then get_account db (tv_to o1) else Inr from_account) (\<lambda>to_account.
     bindE (get_balance from_account (symbol (tv_amount o1))) (\<lambda>b.
     bindE (asset_ge b (tv_amount o1)) (\<lambda>ge.
     fc_assert 915 ge
     (bindE (asset_neg (tv_amount o1)) (\<lambda>neg.
      bindE (adjust_balance db (ac_name from_account) neg) (\<lambda>db.
      bindE (create_vesting db (ac_name to_account) (tv_amount o1) False) (\<lambda>r.
      Inr (fst r)))))))))"

section \<open>Savings\<close>

definition transfer_to_savings_do_apply :: "database \<Rightarrow> transfer_to_savings_operation \<Rightarrow> database res" where
  "transfer_to_savings_do_apply db o1 =
     bindE (get_account db (tts_from o1)) (\<lambda>from_account.
     bindE (get_account db (tts_to o1)) (\<lambda>to_account.
     bindE (get_balance from_account (symbol (tts_amount o1))) (\<lambda>b.
     bindE (asset_ge b (tts_amount o1)) (\<lambda>ge.
     fc_assert 1740 ge
     (bindE (asset_neg (tts_amount o1)) (\<lambda>neg.
      bindE (adjust_balance db (ac_name from_account) neg) (\<lambda>db.
      adjust_savings_balance db (ac_name to_account) (tts_amount o1))))))))"

text \<open>Two withdrawals agree on a unique key: \<open>(from, request_id)\<close>, which every other unique index contains.\<close>

definition savings_clash :: "savings_withdraw_object \<Rightarrow> savings_withdraw_object \<Rightarrow> bool" where
  "savings_clash a b \<longleftrightarrow> sw_from a = sw_from b \<and> sw_request_id a = sw_request_id b"

definition transfer_from_savings_do_apply :: "database \<Rightarrow> transfer_from_savings_operation \<Rightarrow> database res" where
  "transfer_from_savings_do_apply db o1 =
     bindE (get_account db (tfs_from o1)) (\<lambda>from_account.
     bindE (get_account db (tfs_to o1)) (\<lambda>_.
     fc_assert 1751 (ac_savings_withdraw_requests from_account < STEEM_SAVINGS_WITHDRAW_REQUEST_LIMIT)
     (bindE (get_savings_balance from_account (symbol (tfs_amount o1))) (\<lambda>b.
      bindE (asset_ge b (tfs_amount o1)) (\<lambda>ge.
      fc_assert 1753 ge
      (bindE (asset_neg (tfs_amount o1)) (\<lambda>neg.
       bindE (adjust_savings_balance db (ac_name from_account) neg) (\<lambda>db.
       bindE (tbl_create savings_clash (\<lambda>i. \<lparr>
           sw_id = i, sw_from = tfs_from o1, sw_to = tfs_to o1, sw_memo = tfs_memo o1,
           sw_request_id = tfs_request_id o1, sw_amount = tfs_amount o1,
           sw_complete = to_uint32 (head_block_time db + STEEM_SAVINGS_WITHDRAW_TIME) \<rparr>)
         (db_savings_withdraws db)) (\<lambda>t.
       let db = db\<lparr> db_savings_withdraws := t \<rparr> in
       modify_account db (ac_name from_account) (\<lambda>a.
         Inr (a\<lparr> ac_savings_withdraw_requests := to_uint8 (ac_savings_withdraw_requests a + 1) \<rparr>)))))))))))"

definition savings_row :: "account_name_type \<Rightarrow> int \<Rightarrow> savings_withdraw_object \<Rightarrow> bool" where
  "savings_row n r w \<longleftrightarrow> sw_from w = n \<and> sw_request_id w = r"

definition get_savings_withdraw :: "database \<Rightarrow> account_name_type \<Rightarrow> int \<Rightarrow> savings_withdraw_object res" where
  "get_savings_withdraw db n r = tbl_get (savings_row n r) (db_savings_withdraws db)"

definition remove_savings_withdraw :: "database \<Rightarrow> savings_withdraw_object \<Rightarrow> database" where
  "remove_savings_withdraw db w =
     db\<lparr> db_savings_withdraws := tbl_erase w (db_savings_withdraws db) \<rparr>"

definition dec_savings_requests :: "database \<Rightarrow> account_name_type \<Rightarrow> database res" where
  "dec_savings_requests db n =
     modify_account db n (\<lambda>a.
       Inr (a\<lparr> ac_savings_withdraw_requests := to_uint8 (ac_savings_withdraw_requests a - 1) \<rparr>))"

definition cancel_transfer_from_savings_do_apply ::
  "database \<Rightarrow> cancel_transfer_from_savings_operation \<Rightarrow> database res" where
  "cancel_transfer_from_savings_do_apply db o1 =
     bindE (get_savings_withdraw db (ctfs_from o1) (ctfs_request_id o1)) (\<lambda>swo.
     bindE (get_account db (sw_from swo)) (\<lambda>a.
     bindE (adjust_savings_balance db (ac_name a) (sw_amount swo)) (\<lambda>db.
     let db = remove_savings_withdraw db swo in
     bindE (get_account db (ctfs_from o1)) (\<lambda>from_account.
     dec_savings_requests db (ac_name from_account)))))"

text \<open>The order of \<open>by_complete_from_rid\<close>.\<close>

definition savings_key :: "savings_withdraw_object \<Rightarrow> time_point_sec \<times> account_name_type \<times> int" where
  "savings_key w = (sw_complete w, sw_from w, sw_request_id w)"

definition process_savings_withdraw :: "savings_withdraw_object \<Rightarrow> database \<Rightarrow> database res" where
  "process_savings_withdraw w db =
     bindE (get_account db (sw_to w)) (\<lambda>to_account.
     bindE (adjust_balance db (ac_name to_account) (sw_amount w)) (\<lambda>db.
     bindE (get_account db (sw_from w)) (\<lambda>from_account.
     bindE (dec_savings_requests db (ac_name from_account)) (\<lambda>db.
     Inr (remove_savings_withdraw db w)))))"

definition process_savings_withdraws :: "database \<Rightarrow> database res" where
  "process_savings_withdraws db =
     foldE process_savings_withdraw
       (takeWhile (\<lambda>w. \<not> sw_complete w > head_block_time db)
          (sort_key savings_key (rows (db_savings_withdraws db)))) db"

section \<open>Conversions\<close>

definition convert_clash :: "convert_request_object \<Rightarrow> convert_request_object \<Rightarrow> bool" where
  "convert_clash a b \<longleftrightarrow> cr_owner a = cr_owner b \<and> cr_requestid a = cr_requestid b"

definition convert_do_apply :: "database \<Rightarrow> convert_operation \<Rightarrow> database res" where
  "convert_do_apply db o1 =
     bindE (get_account db (cvt_owner o1)) (\<lambda>a.
     bindE (get_balance a (symbol (cvt_amount o1))) (\<lambda>b.
     bindE (asset_ge b (cvt_amount o1)) (\<lambda>ge.
     fc_assert 1476 ge
     (bindE (asset_neg (cvt_amount o1)) (\<lambda>neg.
      bindE (adjust_balance db (cvt_owner o1) neg) (\<lambda>db.
      fc_assert 1481 (\<not> price_is_null (current_median_history db))
      (bindE (tbl_create convert_clash (\<lambda>i. \<lparr>
           cr_id = i, cr_owner = cvt_owner o1, cr_requestid = cvt_requestid o1, cr_amount = cvt_amount o1,
           cr_conversion_date = to_uint32 (head_block_time db + STEEM_CONVERSION_DELAY) \<rparr>)
         (db_converts db)) (\<lambda>t.
       Inr (db\<lparr> db_converts := t \<rparr>)))))))))"

definition convert_key :: "convert_request_object \<Rightarrow> time_point_sec \<times> nat" where
  "convert_key c = (cr_conversion_date c, cr_id c)"

definition process_conversion ::
  "price \<Rightarrow> convert_request_object \<Rightarrow> database \<times> asset \<times> asset \<Rightarrow> (database \<times> asset \<times> asset) res" where
  "process_conversion median c = (\<lambda>(db, net_sbd, net_steem).
     bindE (asset_mul_price (cr_amount c) median) (\<lambda>amount_to_issue.
     bindE (adjust_balance db (cr_owner c) amount_to_issue) (\<lambda>db.
     bindE (asset_add net_sbd (cr_amount c)) (\<lambda>net_sbd.
     bindE (asset_add net_steem amount_to_issue) (\<lambda>net_steem.
     Inr (db\<lparr> db_converts := tbl_erase c (db_converts db) \<rparr>, net_sbd, net_steem))))))"

definition process_conversions :: "database \<Rightarrow> database res" where
  "process_conversions db =
     (let median = current_median_history db in
      if price_is_null median then Inr db
      else
        bindE (foldE (process_conversion median)
            (takeWhile (\<lambda>c. cr_conversion_date c \<le> head_block_time db)
               (sort_key convert_key (rows (db_converts db))))
            (db, mk_asset 0 SBD_SYMBOL, mk_asset 0 STEEM_SYMBOL)) (\<lambda>(db, net_sbd, net_steem).
        modify_dgp db (\<lambda>p.
          bindE (asset_add (dgp_current_supply p) net_steem) (\<lambda>cs.
          bindE (asset_sub (dgp_current_sbd_supply p) net_sbd) (\<lambda>sbd.
          bindE (asset_add (dgp_virtual_supply p) net_steem) (\<lambda>vs.
          bindE (asset_mul_price net_sbd median) (\<lambda>x.
          bindE (asset_sub vs x) (\<lambda>vs.
          Inr (p\<lparr> dgp_current_supply := cs, dgp_current_sbd_supply := sbd, dgp_virtual_supply := vs \<rparr>)))))))))"

section \<open>Escrows\<close>

definition escrow_clash :: "escrow_object \<Rightarrow> escrow_object \<Rightarrow> bool" where
  "escrow_clash a b \<longleftrightarrow> esc_from a = esc_from b \<and> esc_escrow_id a = esc_escrow_id b"

definition escrow_row :: "account_name_type \<Rightarrow> int \<Rightarrow> escrow_object \<Rightarrow> bool" where
  "escrow_row n i e \<longleftrightarrow> esc_from e = n \<and> esc_escrow_id e = i"

definition get_escrow :: "database \<Rightarrow> account_name_type \<Rightarrow> int \<Rightarrow> escrow_object res" where
  "get_escrow db n i = tbl_get (escrow_row n i) (db_escrows db)"

definition modify_escrow ::
  "database \<Rightarrow> account_name_type \<Rightarrow> int \<Rightarrow> (escrow_object \<Rightarrow> escrow_object res) \<Rightarrow> database res" where
  "modify_escrow db n i f =
     bindE (tbl_modify (escrow_row n i) f (db_escrows db)) (\<lambda>t. Inr (db\<lparr> db_escrows := t \<rparr>))"

definition remove_escrow :: "database \<Rightarrow> escrow_object \<Rightarrow> database" where
  "remove_escrow db e = db\<lparr> db_escrows := tbl_erase e (db_escrows db) \<rparr>"

definition new_escrow :: "escrow_transfer_operation \<Rightarrow> nat \<Rightarrow> escrow_object" where
  "new_escrow o1 i = \<lparr>
     esc_id = i, esc_escrow_id = et_escrow_id o1, esc_from = et_from o1, esc_to = et_to o1,
     esc_agent = et_agent o1, esc_ratification_deadline = et_ratification_deadline o1,
     esc_escrow_expiration = et_escrow_expiration o1, esc_sbd_balance = et_sbd_amount o1,
     esc_steem_balance = et_steem_amount o1, esc_pending_fee = et_fee o1,
     esc_to_approved = False, esc_agent_approved = False, esc_disputed = False \<rparr>"

definition escrow_transfer_do_apply :: "database \<Rightarrow> escrow_transfer_operation \<Rightarrow> database res" where
  "escrow_transfer_do_apply db o1 =
     bindE (get_account db (et_from o1)) (\<lambda>from_account.
     bindE (get_account db (et_to o1)) (\<lambda>_.
     bindE (get_account db (et_agent o1)) (\<lambda>_.
     fc_assert 736 (et_ratification_deadline o1 > head_block_time db)
     (fc_assert 737 (et_escrow_expiration o1 > head_block_time db)
     (bindE (if symbol (et_fee o1) = STEEM_SYMBOL then asset_add (et_steem_amount o1) (et_fee o1)
             else Inr (et_steem_amount o1)) (\<lambda>steem_spent.
      bindE (if symbol (et_fee o1) = STEEM_SYMBOL then Inr (et_sbd_amount o1)
             else asset_add (et_sbd_amount o1) (et_fee o1)) (\<lambda>sbd_spent.
      bindE (asset_ge (ac_balance from_account) steem_spent) (\<lambda>ge.
      fc_assert 746 ge
      (bindE (asset_ge (ac_sbd_balance from_account) sbd_spent) (\<lambda>ge.
       fc_assert 747 ge
       (bindE (asset_neg steem_spent) (\<lambda>m.
        bindE (adjust_balance db (ac_name from_account) m) (\<lambda>db.
        bindE (asset_neg sbd_spent) (\<lambda>m.
        bindE (adjust_balance db (ac_name from_account) m) (\<lambda>db.
        bindE (tbl_create escrow_clash (new_escrow o1) (db_escrows db)) (\<lambda>t.
        Inr (db\<lparr> db_escrows := t \<rparr>)))))))))))))))))"

definition escrow_refund :: "database \<Rightarrow> account_name_type \<Rightarrow> escrow_object \<Rightarrow> database res" where
  "escrow_refund db n e =
     bindE (adjust_balance db n (esc_steem_balance e)) (\<lambda>db.
     bindE (adjust_balance db n (esc_sbd_balance e)) (\<lambda>db.
     bindE (adjust_balance db n (esc_pending_fee e)) (\<lambda>db.
     Inr (remove_escrow db e))))"

definition escrow_approve_do_apply :: "database \<Rightarrow> escrow_approve_operation \<Rightarrow> database res" where
  "escrow_approve_do_apply db o1 =
     (let get = (\<lambda>db. get_escrow db (ea_from o1) (ea_escrow_id o1));
          modify = (\<lambda>db. modify_escrow db (ea_from o1) (ea_escrow_id o1));
          reject_escrow = (\<not> ea_approve o1)
      in
      bindE (get db) (\<lambda>escrow.
      fc_assert 775 (esc_to escrow = ea_to o1)
      (fc_assert 776 (esc_agent escrow = ea_agent o1)
      (fc_assert 777 (esc_ratification_deadline escrow \<ge> head_block_time db)
      (bindE (if ea_who o1 = ea_to o1 then
                fc_assert 783 (\<not> esc_to_approved escrow)
                (if \<not> reject_escrow then modify db (\<lambda>esc. Inr (esc\<lparr> esc_to_approved := True \<rparr>)) else Inr db)
              else Inr db) (\<lambda>db.
       bindE (get db) (\<lambda>escrow.
       bindE (if ea_who o1 = ea_agent o1 then
                fc_assert 795 (\<not> esc_agent_approved escrow)
                (if \<not> reject_escrow then modify db (\<lambda>esc. Inr (esc\<lparr> esc_agent_approved := True \<rparr>)) else Inr db)
              else Inr db) (\<lambda>db.
       bindE (get db) (\<lambda>escrow.
       if reject_escrow then escrow_refund db (ea_from o1) escrow
       else if esc_to_approved escrow \<and> esc_agent_approved escrow then
         bindE (adjust_balance db (ea_agent o1) (esc_pending_fee escrow)) (\<lambda>db.
         modify db (\<lambda>esc. Inr (esc\<lparr> esc_pending_fee := (esc_pending_fee esc)\<lparr> amount := 0 \<rparr> \<rparr>)))
       else Inr db))))))))) "

definition escrow_dispute_do_apply :: "database \<Rightarrow> escrow_dispute_operation \<Rightarrow> database res" where
  "escrow_dispute_do_apply db o1 =
     bindE (get_account db (ed_from o1)) (\<lambda>_.
     bindE (get_escrow db (ed_from o1) (ed_escrow_id o1)) (\<lambda>e.
     fc_assert 834 (head_block_time db < esc_escrow_expiration e)
     (fc_assert 835 (esc_to_approved e \<and> esc_agent_approved e)
     (fc_assert 836 (\<not> esc_disputed e)
     (fc_assert 837 (esc_to e = ed_to o1)
     (fc_assert 838 (esc_agent e = ed_agent o1)
     (modify_escrow db (ed_from o1) (ed_escrow_id o1) (\<lambda>esc. Inr (esc\<lparr> esc_disputed := True \<rparr>)))))))))"

text \<open>Who may release, and to whom; the asserts of the two branches on \<open>disputed\<close>.\<close>

definition escrow_release_allowed :: "time_point_sec \<Rightarrow> escrow_object \<Rightarrow> escrow_release_operation \<Rightarrow> unit res" where
  "escrow_release_allowed now e o1 =
     (if esc_disputed e then fc_assert 865 (er_who o1 = esc_agent e) (Inr ())
      else
        fc_assert 869 (er_who o1 = esc_from e \<or> er_who o1 = esc_to e)
        (if esc_escrow_expiration e > now then
           if er_who o1 = esc_from e then fc_assert 876 (er_receiver o1 = esc_to e) (Inr ())
           else if er_who o1 = esc_to e then fc_assert 880 (er_receiver o1 = esc_from e) (Inr ())
           else Inr ()
         else Inr ()))"

definition escrow_debit :: "escrow_release_operation \<Rightarrow> escrow_object \<Rightarrow> escrow_object res" where
  "escrow_debit o1 esc =
     bindE (asset_sub (esc_steem_balance esc) (er_steem_amount o1)) (\<lambda>s.
     bindE (asset_sub (esc_sbd_balance esc) (er_sbd_amount o1)) (\<lambda>d.
     Inr (esc\<lparr> esc_steem_balance := s, esc_sbd_balance := d \<rparr>)))"

definition escrow_release_do_apply :: "database \<Rightarrow> escrow_release_operation \<Rightarrow> database res" where
  "escrow_release_do_apply db o1 =
     bindE (get_account db (er_from o1)) (\<lambda>_.
     bindE (get_escrow db (er_from o1) (er_escrow_id o1)) (\<lambda>e.
     bindE (asset_ge (esc_steem_balance e) (er_steem_amount o1)) (\<lambda>ge.
     fc_assert 855 ge
     (bindE (asset_ge (esc_sbd_balance e) (er_sbd_amount o1)) (\<lambda>ge.
      fc_assert 856 ge
      (fc_assert 857 (esc_to e = er_to o1)
      (fc_assert 858 (esc_agent e = er_agent o1)
      (fc_assert 859 (er_receiver o1 = esc_from e \<or> er_receiver o1 = esc_to e)
      (fc_assert 860 (esc_to_approved e \<and> esc_agent_approved e)
      (bindE (escrow_release_allowed (head_block_time db) e o1) (\<lambda>_.
       bindE (adjust_balance db (er_receiver o1) (er_steem_amount o1)) (\<lambda>db.
       bindE (adjust_balance db (er_receiver o1) (er_sbd_amount o1)) (\<lambda>db.
       bindE (modify_escrow db (er_from o1) (er_escrow_id o1) (escrow_debit o1)) (\<lambda>db.
       bindE (get_escrow db (er_from o1) (er_escrow_id o1)) (\<lambda>e.
       if amount (esc_steem_balance e) = 0 \<and> amount (esc_sbd_balance e) = 0 then Inr (remove_escrow db e)
       else Inr db)))))))))))))))"

text \<open>The order of \<open>by_ratification_deadline\<close>; the walk starts at the first row that is not approved.\<close>

definition escrow_key :: "escrow_object \<Rightarrow> bool \<times> time_point_sec \<times> nat" where
  "escrow_key e = (escrow_is_approved e, esc_ratification_deadline e, esc_id e)"

definition expire_escrow_ratification :: "database \<Rightarrow> database res" where
  "expire_escrow_ratification db =
     foldE (\<lambda>e db. escrow_refund db (esc_from e) e)
       (takeWhile (\<lambda>e. \<not> escrow_is_approved e \<and> esc_ratification_deadline e \<le> head_block_time db)
          (sort_key escrow_key (rows (db_escrows db)))) db"

section \<open>Fees of approved escrows\<close>

text \<open>The fee of an escrow leaves it when both parties have approved.\<close>

definition escrow_settled :: "escrow_object \<Rightarrow> bool" where
  "escrow_settled e \<longleftrightarrow> (escrow_is_approved e \<longrightarrow> amount (esc_pending_fee e) = 0)"

definition escrows_settled :: "database \<Rightarrow> bool" where
  "escrows_settled db \<longleftrightarrow> list_all escrow_settled (rows (db_escrows db))"

section \<open>The ledger is kept\<close>

lemma transfer_same: "transfer_do_apply db o1 = Inr db' \<Longrightarrow> ledger_same db db'"
  by (auto simp: transfer_do_apply_def res_simps credited_def ledger_same_def amt_ops
      dest!: adjust_balance_credited)

lemma transfer_to_vesting_same: "transfer_to_vesting_do_apply db o1 = Inr db' \<Longrightarrow> ledger_same db db'"
  by (auto simp: transfer_to_vesting_do_apply_def res_simps credited_def ledger_same_def amt_ops
      dest!: adjust_balance_credited create_vesting_credited)

lemma transfer_to_savings_same: "transfer_to_savings_do_apply db o1 = Inr db' \<Longrightarrow> ledger_same db db'"
  by (auto simp: transfer_to_savings_do_apply_def res_simps credited_def ledger_same_def amt_ops
      dest!: adjust_balance_credited adjust_savings_balance_credited)

lemma requests_same:
  "modify_account db n (\<lambda>a. Inr (a\<lparr> ac_savings_withdraw_requests := f a \<rparr>)) = Inr db' \<Longrightarrow> ledger_same db db'"
  by (erule modify_account_same) (auto simp: acc_credit_def acc_hold_def same_holdings_def)


lemma transfer_from_savings_same: "transfer_from_savings_do_apply db o1 = Inr db' \<Longrightarrow> ledger_same db db'"
  by (auto simp: transfer_from_savings_do_apply_def res_simps Let_def credited_def ledger_same_def amt_ops
      create_savings_slack dest!: requests_same adjust_savings_balance_credited)

lemma remove_savings_slack:
  "w \<in> set (rows (db_savings_withdraws db)) \<Longrightarrow>
   slack (remove_savings_withdraw db w) s = slack db s + amt (sw_amount w) s"
  "pending_slack (remove_savings_withdraw db w) = pending_slack db"
  "rows (db_savings_withdraws (remove_savings_withdraw db w)) = remove1 w (rows (db_savings_withdraws db))"
  by (simp_all add: remove_savings_withdraw_def erase_slack)

lemma cancel_transfer_from_savings_same:
  assumes "cancel_transfer_from_savings_do_apply db o1 = Inr db'"
  shows "ledger_same db db'"
proof -
  from assms obtain w n m db1 where w: "w \<in> set (rows (db_savings_withdraws db))"
    and d: "adjust_savings_balance db n (sw_amount w) = Inr db1"
    and r: "dec_savings_requests (remove_savings_withdraw db1 w) m = Inr db'"
    by (auto simp: cancel_transfer_from_savings_do_apply_def get_savings_withdraw_def tbl_get_Inr res_simps Let_def
        dest!: tbl_find_Some)
  have "db_savings_withdraws db1 = db_savings_withdraws db"
    by (rule core_frameD[OF adjust_savings_balance_frame[OF d]])
  with w adjust_savings_balance_credited[OF d] requests_same[OF r[unfolded dec_savings_requests_def]] show ?thesis
    by (simp add: ledger_same_def credited_def remove_savings_slack)
qed

lemma process_savings_withdraw_step:
  assumes "w \<in> set (rows (db_savings_withdraws db))" and "process_savings_withdraw w db = Inr db'"
  shows "ledger_same db db' \<and> rows (db_savings_withdraws db') = remove1 w (rows (db_savings_withdraws db))"
proof -
  from assms(2) obtain a b db1 db2 where
    d: "adjust_balance db a (sw_amount w) = Inr db1" "dec_savings_requests db1 b = Inr db2"
      "db' = remove_savings_withdraw db2 w"
    by (auto simp: process_savings_withdraw_def res_simps)
  have f: "db_savings_withdraws db2 = db_savings_withdraws db"
    using core_frameD(11)[OF adjust_balance_frame[OF d(1)]]
      core_frameD(11)[OF modify_account_frame[OF d(2)[unfolded dec_savings_requests_def]]] by simp
  then show ?thesis
    using adjust_balance_credited[OF d(1)] requests_same[OF d(2)[unfolded dec_savings_requests_def]] assms(1)
    by (simp add: d(3) ledger_same_def credited_def remove_savings_slack)
qed

lemma process_savings_withdraws_same: "process_savings_withdraws db = Inr db' \<Longrightarrow> ledger_same db db'"
  unfolding process_savings_withdraws_def
  by (erule foldE_erase[where tab = db_savings_withdraws])
     (auto simp: mset_takeWhile_sort process_savings_withdraw_step intro: ledger_same_trans)

lemma convert_same: "convert_do_apply db o1 = Inr db' \<Longrightarrow> ledger_same db db'"
  by (auto simp: convert_do_apply_def res_simps credited_def ledger_same_def amt_ops create_convert_slack
      dest!: adjust_balance_credited)


type_synonym conversion_state = "database \<times> asset \<times> asset"

definition conversion_gain :: "conversion_state \<Rightarrow> conversion_state \<Rightarrow> bool" where
  "conversion_gain = (\<lambda>(db, sbd, steem) (db', sbd', steem').
     (\<forall>s. slack db' s = slack db s + (amt sbd' s - amt sbd s) - (amt steem' s - amt steem s)) \<and>
     pending_slack db' = pending_slack db)"

lemma process_conversion_step:
  assumes "c \<in> set (rows (db_converts (fst st)))" and "process_conversion median c st = Inr st'"
  shows "conversion_gain st st' \<and> rows (db_converts (fst st')) = remove1 c (rows (db_converts (fst st)))"
proof -
  obtain db sbd steem where st: "st = (db, sbd, steem)" by (cases st)
  from assms(2) obtain x db1 sbd' steem' where
    d: "adjust_balance db (cr_owner c) x = Inr db1" "asset_add sbd (cr_amount c) = Inr sbd'"
      "asset_add steem x = Inr steem'"
      "st' = (db1\<lparr> db_converts := tbl_erase c (db_converts db1) \<rparr>, sbd', steem')"
    by (auto simp: process_conversion_def res_simps st)
  have f: "db_converts db1 = db_converts db" by (rule core_frameD[OF adjust_balance_frame[OF d(1)]])
  have c: "c \<in> set (rows (db_converts db1))" using assms(1) f st by simp
  show ?thesis using adjust_balance_credited[OF d(1)] d(2,3) f
    by (auto simp: conversion_gain_def st d(4) erase_slack(2)[OF c, unfolded f] credited_def amt_ops)
qed

lemma process_conversions_same: "process_conversions db = Inr db' \<Longrightarrow> ledger_same db db'"
proof -
  assume a: "process_conversions db = Inr db'"
  show ?thesis
  proof (cases "price_is_null (current_median_history db)")
    case True with a show ?thesis by (simp add: process_conversions_def Let_def)
  next
    case False
    with a obtain db1 sbd steem where
      f: "foldE (process_conversion (current_median_history db))
            (takeWhile (\<lambda>c. cr_conversion_date c \<le> head_block_time db) (sort_key convert_key (rows (db_converts db))))
            (db, mk_asset 0 SBD_SYMBOL, mk_asset 0 STEEM_SYMBOL) = Inr (db1, sbd, steem)"
      and m: "modify_dgp db1 (\<lambda>p.
          bindE (asset_add (dgp_current_supply p) steem) (\<lambda>cs.
          bindE (asset_sub (dgp_current_sbd_supply p) sbd) (\<lambda>d.
          bindE (asset_add (dgp_virtual_supply p) steem) (\<lambda>vs.
          bindE (asset_mul_price sbd (current_median_history db)) (\<lambda>x.
          bindE (asset_sub vs x) (\<lambda>vs.
          Inr (p\<lparr> dgp_current_supply := cs, dgp_current_sbd_supply := d, dgp_virtual_supply := vs \<rparr>))))))) = Inr db'"
      by (auto simp: process_conversions_def Let_def res_simps split: prod.splits)
    have g: "conversion_gain (db, mk_asset 0 SBD_SYMBOL, mk_asset 0 STEEM_SYMBOL) (db1, sbd, steem)"
      by (rule foldE_erase[OF f, where tab = "\<lambda>st. db_converts (fst st)"])
         (auto simp: mset_takeWhile_sort process_conversion_step, auto simp: conversion_gain_def)
    have "slack db' s = slack db1 s + (amt steem s - amt sbd s)" for s
      by (rule modify_dgp_slack[OF m]) (auto simp: res_simps dgp_net_def amt_ops)
    moreover have "pending_slack db' = pending_slack db1 + 0"
      by (rule modify_dgp_pending[OF m]) (auto simp: res_simps)
    ultimately show ?thesis using g by (simp add: conversion_gain_def ledger_same_def)
  qed
qed


section \<open>Escrow lemmas\<close>

lemma get_escrow_in: "get_escrow db n i = Inr e \<Longrightarrow> e \<in> set (rows (db_escrows db)) \<and> escrow_row n i e"
  by (auto simp: get_escrow_def tbl_get_Inr dest: tbl_find_Some)

lemma modify_escrow_get:
  assumes "modify_escrow db n i f = Inr db'"
  obtains e e' where "get_escrow db n i = Inr e" "f e = Inr e'"
    "\<And>s. slack db' s = slack db s + escrow_hold e s - escrow_hold e' s"
    "pending_slack db' = pending_slack db"
    "escrow_row n i e' \<Longrightarrow> get_escrow db' n i = Inr e'"
    "escrow_row n i e' \<Longrightarrow> remove_first (escrow_row n i) (rows (db_escrows db'))
       = remove_first (escrow_row n i) (rows (db_escrows db))"
proof -
  from assms(1) obtain t where t: "tbl_modify (escrow_row n i) f (db_escrows db) = Inr t" and db': "db' = db\<lparr> db_escrows := t \<rparr>"
    by (auto simp: modify_escrow_def res_simps)
  from tbl_modify_find[OF t] obtain e e' where e: "tbl_find (escrow_row n i) (db_escrows db) = Some e" "f e = Inr e'" by blast
  show thesis
  proof (rule that[of e e'])
    show "get_escrow db n i = Inr e" using e(1) by (simp add: get_escrow_def tbl_get_Inr)
    show "slack db' s = slack db s + escrow_hold e s - escrow_hold e' s" for s
      using tbl_modify_sum[OF t e, of "\<lambda>e. escrow_hold e s"] by (simp add: db' ledger)
    show "escrow_row n i e' \<Longrightarrow> get_escrow db' n i = Inr e'"
      using tbl_modify_find_after[OF t e] by (simp add: db' get_escrow_def tbl_get_Inr)
    show "escrow_row n i e' \<Longrightarrow> remove_first (escrow_row n i) (rows (db_escrows db'))
       = remove_first (escrow_row n i) (rows (db_escrows db))"
      using tbl_modify_remove_first[OF t e] by (simp add: db')
  qed (simp_all add: db' e(2))
qed

lemma modify_escrow_same:
  assumes "modify_escrow db n i f = Inr db'" and "\<And>e e' s. f e = Inr e' \<Longrightarrow> escrow_hold e' s = escrow_hold e s"
  shows "ledger_same db db'"
  using modify_escrow_get[OF assms(1)] assms(2) by (metis add_diff_cancel_right' ledger_same_def)

lemma remove_escrow_slack:
  "e \<in> set (rows (db_escrows db)) \<Longrightarrow> slack (remove_escrow db e) s = slack db s + escrow_hold e s"
  "pending_slack (remove_escrow db e) = pending_slack db"
  "rows (db_escrows (remove_escrow db e)) = remove1 e (rows (db_escrows db))"
  by (simp_all add: remove_escrow_def erase_slack)

lemma escrow_refund_step:
  assumes "e \<in> set (rows (db_escrows db))" and "escrow_refund db n e = Inr db'"
  shows "ledger_same db db' \<and> rows (db_escrows db') = remove1 e (rows (db_escrows db))"
proof -
  from assms(2) obtain a b c where d: "adjust_balance db n (esc_steem_balance e) = Inr a"
    "adjust_balance a n (esc_sbd_balance e) = Inr b" "adjust_balance b n (esc_pending_fee e) = Inr c"
    "db' = remove_escrow c e" by (auto simp: escrow_refund_def res_simps)
  have f: "db_escrows c = db_escrows db"
    using d(1-3)[THEN adjust_balance_frame, THEN core_frameD(10)] by simp
  show ?thesis using d(1-3)[THEN adjust_balance_credited] assms(1)
    by (simp add: d(4) ledger_same_def credited_def remove_escrow_slack f escrow_hold_def)
qed

lemma expire_escrow_ratification_same: "expire_escrow_ratification db = Inr db' \<Longrightarrow> ledger_same db db'"
  unfolding expire_escrow_ratification_def
  by (erule foldE_erase[where tab = db_escrows])
     (auto simp: mset_takeWhile_sort escrow_refund_step intro: ledger_same_trans)

lemma escrow_transfer_same:
  assumes "escrow_transfer_do_apply db o1 = Inr db'"
  shows "ledger_same db db'"
proof -
  from assms obtain n x y x' y' a b t where
    sp: "(if symbol (et_fee o1) = STEEM_SYMBOL then asset_add (et_steem_amount o1) (et_fee o1)
          else Inr (et_steem_amount o1)) = Inr x"
      "(if symbol (et_fee o1) = STEEM_SYMBOL then Inr (et_sbd_amount o1)
          else asset_add (et_sbd_amount o1) (et_fee o1)) = Inr y"
    and d: "asset_neg x = Inr x'" "adjust_balance db n x' = Inr a" "asset_neg y = Inr y'" "adjust_balance a n y' = Inr b"
    and t: "tbl_create escrow_clash (new_escrow o1) (db_escrows b) = Inr t"
    and db': "db' = b\<lparr> db_escrows := t \<rparr>"
    unfolding escrow_transfer_do_apply_def bindE_eq_Inr fc_assert_eq_Inr by blast
  have spent: "amt x s + amt y s = amt (et_steem_amount o1) s + amt (et_sbd_amount o1) s + amt (et_fee o1) s" for s
    using sp by (cases "symbol (et_fee o1) = STEEM_SYMBOL") (auto simp: amt_ops)
  have "slack db' s = slack db s" for s
    using create_escrow_slack[OF t] d(2,4)[THEN adjust_balance_credited] amt_asset_neg[OF d(1)] amt_asset_neg[OF d(3)] spent[of s]
    by (simp add: db' credited_def escrow_hold_def new_escrow_def)
  then show ?thesis using d(2,4)[THEN adjust_balance_credited] by (simp add: ledger_same_def db' credited_def)
qed

lemma escrow_dispute_same: "escrow_dispute_do_apply db o1 = Inr db' \<Longrightarrow> ledger_same db db'"
  by (auto simp: escrow_dispute_do_apply_def res_simps escrow_hold_def intro: modify_escrow_same)

lemma escrow_debit_hold:
  "escrow_debit o1 e = Inr e' \<Longrightarrow>
   escrow_hold e' s = escrow_hold e s - amt (er_steem_amount o1) s - amt (er_sbd_amount o1) s"
  by (auto simp: escrow_debit_def res_simps escrow_hold_def amt_ops)

lemma escrow_debit_fields:
  "escrow_debit o1 e = Inr e' \<Longrightarrow> esc_from e' = esc_from e \<and> esc_escrow_id e' = esc_escrow_id e \<and>
     esc_pending_fee e' = esc_pending_fee e \<and> escrow_is_approved e' = escrow_is_approved e"
  by (auto simp: escrow_debit_def res_simps escrow_is_approved_def)

lemma get_escrow_frame: "core_frame db db' \<Longrightarrow> get_escrow db' n i = get_escrow db n i"
  by (simp add: get_escrow_def core_frameD(10))

lemma get_escrow_settled: "escrows_settled db \<Longrightarrow> get_escrow db n i = Inr e \<Longrightarrow> escrow_settled e"
  by (auto simp: escrows_settled_def list_all_iff dest: get_escrow_in)

lemma escrow_release_same:
  assumes "escrow_release_do_apply db o1 = Inr db'" and "escrows_settled db"
  shows "ledger_same db db'"
proof -
  from assms(1) obtain a b c e0 e where
    e0: "get_escrow db (er_from o1) (er_escrow_id o1) = Inr e0" "esc_to_approved e0" "esc_agent_approved e0"
    and d: "adjust_balance db (er_receiver o1) (er_steem_amount o1) = Inr a"
      "adjust_balance a (er_receiver o1) (er_sbd_amount o1) = Inr b"
    and m: "modify_escrow b (er_from o1) (er_escrow_id o1) (escrow_debit o1) = Inr c"
    and e: "get_escrow c (er_from o1) (er_escrow_id o1) = Inr e"
    and db': "(if amount (esc_steem_balance e) = 0 \<and> amount (esc_sbd_balance e) = 0 then Inr (remove_escrow c e)
       else Inr c) = (Inr db' :: database res)"
    unfolding escrow_release_do_apply_def bindE_eq_Inr fc_assert_eq_Inr
    by (elim exE conjE) (rule that, assumption+)
  have b: "get_escrow b (er_from o1) (er_escrow_id o1) = Inr e0"
    using e0(1) d[THEN adjust_balance_frame, THEN get_escrow_frame] by simp
  from modify_escrow_get[OF m] obtain e' where m': "escrow_debit o1 e0 = Inr e'"
    "\<And>s. slack c s = slack b s + escrow_hold e0 s - escrow_hold e' s" "pending_slack c = pending_slack b"
    "escrow_row (er_from o1) (er_escrow_id o1) e' \<Longrightarrow> get_escrow c (er_from o1) (er_escrow_id o1) = Inr e'"
    using b by (metis Inr_inject)
  have "e' = e" using m'(4) escrow_debit_fields[OF m'(1)] get_escrow_in[OF e0(1)] e by (simp add: escrow_row_def)
  then have fee: "amount (esc_pending_fee e) = 0"
    using get_escrow_settled[OF assms(2) e0(1)] e0(2,3) escrow_debit_fields[OF m'(1)]
    by (simp add: escrow_settled_def escrow_is_approved_def)
  have "ledger_same db c" using d[THEN adjust_balance_credited] m'(2,3) escrow_debit_hold[OF m'(1)]
    by (simp add: ledger_same_def credited_def)
  moreover have "ledger_same c db'"
    using db' fee get_escrow_in[OF e] by (auto simp: ledger_same_def remove_escrow_slack escrow_hold_def amt_def split: if_splits)
  ultimately show ?thesis by (rule ledger_same_trans)
qed


lemma escrows_settled_at:
  "get_escrow db n i = Inr e \<Longrightarrow> escrows_settled db \<longleftrightarrow>
     escrow_settled e \<and> list_all escrow_settled (remove_first (escrow_row n i) (rows (db_escrows db)))"
  unfolding escrows_settled_def get_escrow_def tbl_get_Inr tbl_find_def by (rule find_remove_first_all)

lemma escrow_flag_step:
  assumes "(if c then fc_assert l p (if q then modify_escrow db n i (\<lambda>e. Inr (g e)) else Inr db) else Inr db) = Inr db'"
    and "\<And>e s. escrow_hold (g e) s = escrow_hold e s"
    and "\<And>e. esc_from (g e) = esc_from e \<and> esc_escrow_id (g e) = esc_escrow_id e"
  shows "ledger_same db db'" "remove_first (escrow_row n i) (rows (db_escrows db'))
       = remove_first (escrow_row n i) (rows (db_escrows db))" "\<not> q \<Longrightarrow> db' = db"
proof -
  have "ledger_same db db' \<and> remove_first (escrow_row n i) (rows (db_escrows db'))
       = remove_first (escrow_row n i) (rows (db_escrows db))"
  proof (cases "c \<and> q")
    case True
    with assms(1) have m: "modify_escrow db n i (\<lambda>e. Inr (g e)) = Inr db'" by (auto simp: res_simps)
    from modify_escrow_get[OF m] obtain e e' where e: "get_escrow db n i = Inr e" "Inr (g e) = (Inr e' :: escrow_object res)"
      "escrow_row n i e' \<Longrightarrow> remove_first (escrow_row n i) (rows (db_escrows db'))
       = remove_first (escrow_row n i) (rows (db_escrows db))" by metis
    have "escrow_row n i e'" using e(2) assms(3)[of e] get_escrow_in[OF e(1)] by (auto simp: escrow_row_def)
    then show ?thesis using e(3) modify_escrow_same[OF m] assms(2) by fastforce
  next
    case False
    with assms(1) show ?thesis by (auto simp: res_simps split: if_splits)
  qed
  then show "ledger_same db db'" "remove_first (escrow_row n i) (rows (db_escrows db'))
       = remove_first (escrow_row n i) (rows (db_escrows db))" by auto
  show "\<not> q \<Longrightarrow> db' = db" using assms(1) by (auto simp: res_simps split: if_splits)
qed

lemma escrow_approve_keeps:
  assumes "escrow_approve_do_apply db o1 = Inr db'" and "escrows_settled db"
  shows "ledger_same db db' \<and> escrows_settled db'"
proof -
  let ?n = "ea_from o1" and ?i = "ea_escrow_id o1"
  let ?rest = "\<lambda>db. remove_first (escrow_row ?n ?i) (rows (db_escrows db))"
  from assms(1) obtain e e1 e2 db1 db2 where g1: "get_escrow db ?n ?i = Inr e"
    and s1: "(if ea_who o1 = ea_to o1 then fc_assert 783 (\<not> esc_to_approved e)
         (if \<not> \<not> ea_approve o1 then modify_escrow db ?n ?i (\<lambda>esc. Inr (esc\<lparr> esc_to_approved := True \<rparr>)) else Inr db)
         else Inr db) = Inr db1"
    and "get_escrow db1 ?n ?i = Inr e1"
    and s2: "(if ea_who o1 = ea_agent o1 then fc_assert 795 (\<not> esc_agent_approved e1)
         (if \<not> \<not> ea_approve o1 then modify_escrow db1 ?n ?i (\<lambda>esc. Inr (esc\<lparr> esc_agent_approved := True \<rparr>)) else Inr db1)
         else Inr db1) = Inr db2"
    and g2: "get_escrow db2 ?n ?i = Inr e2"
    and r: "(if \<not> ea_approve o1 then escrow_refund db2 ?n e2
       else if esc_to_approved e2 \<and> esc_agent_approved e2 then
         bindE (adjust_balance db2 (ea_agent o1) (esc_pending_fee e2)) (\<lambda>db.
         modify_escrow db ?n ?i (\<lambda>esc. Inr (esc\<lparr> esc_pending_fee := (esc_pending_fee esc)\<lparr> amount := 0 \<rparr> \<rparr>)))
       else Inr db2) = Inr db'"
    unfolding escrow_approve_do_apply_def Let_def bindE_eq_Inr fc_assert_eq_Inr
    by (elim exE conjE) (rule that, assumption+)
  note g = g1 g2 and f1 = escrow_flag_step[OF s1] and f2 = escrow_flag_step[OF s2]
  have l: "ledger_same db db2" using f1(1) f2(1) by (auto simp: escrow_hold_def intro: ledger_same_trans)
  have rest: "?rest db2 = ?rest db" using f1(2) f2(2) by (simp add: escrow_hold_def)
  have sr: "list_all escrow_settled (?rest db2)" using assms(2) rest escrows_settled_at[OF g(1)] by simp
  show ?thesis
  proof (cases "ea_approve o1")
    case False
    then have "db2 = db" using f1(3) f2(3) by (simp add: escrow_hold_def)
    with False r g(2) escrow_refund_step[of e2 db ?n db'] assms(2) get_escrow_in[OF g(2)] show ?thesis
      by (auto simp: escrows_settled_def list_all_iff dest: notin_set_remove1)
  next
    case True
    show ?thesis
    proof (cases "esc_to_approved e2 \<and> esc_agent_approved e2")
      case False
      with True r have "db' = db2" by simp
      with l sr False escrows_settled_at[OF g(2)] show ?thesis by (auto simp: escrow_settled_def escrow_is_approved_def)
    next
      case appr: True
      with True r obtain db3 where d: "adjust_balance db2 (ea_agent o1) (esc_pending_fee e2) = Inr db3"
        and m: "modify_escrow db3 ?n ?i (\<lambda>esc. Inr (esc\<lparr> esc_pending_fee := (esc_pending_fee esc)\<lparr> amount := 0 \<rparr> \<rparr>)) = Inr db'"
        by (auto simp: res_simps)
      have g3: "get_escrow db3 ?n ?i = Inr e2" "?rest db3 = ?rest db2"
        using g(2) adjust_balance_frame[OF d] by (simp_all add: get_escrow_frame core_frameD(10))
      define e' where "e' = e2\<lparr> esc_pending_fee := (esc_pending_fee e2)\<lparr> amount := 0 \<rparr> \<rparr>"
      have row: "escrow_row ?n ?i e'" using get_escrow_in[OF g(2)] by (simp add: escrow_row_def e'_def)
      have m': "\<And>s. slack db' s = slack db3 s + escrow_hold e2 s - escrow_hold e' s"
        "pending_slack db' = pending_slack db3" "get_escrow db' ?n ?i = Inr e'" "?rest db' = ?rest db3"
        using modify_escrow_get[OF m] g3(1) row unfolding e'_def by (metis Inr_inject)+
      have "ledger_same db2 db'" using adjust_balance_credited[OF d] m'(1,2)
        by (simp add: ledger_same_def credited_def escrow_hold_def e'_def amt_def)
      moreover have "escrows_settled db'" using escrows_settled_at[OF m'(3)] m'(4) g3(2) sr
        by (simp add: escrow_settled_def e'_def)
      ultimately show ?thesis using l by (blast intro: ledger_same_trans)
    qed
  qed
qed


lemma escrows_settled_frame: "core_frame db db' \<Longrightarrow> escrows_settled db' = escrows_settled db"
  by (simp add: escrows_settled_def core_frameD(10))

lemma escrow_transfer_settled:
  "escrow_transfer_do_apply db o1 = Inr db' \<Longrightarrow> escrows_settled db \<Longrightarrow> escrows_settled db'"
  by (auto simp: escrow_transfer_do_apply_def res_simps escrows_settled_def escrow_settled_def escrow_is_approved_def
      new_escrow_def dest!: tbl_create_rows adjust_balance_frame[THEN core_frameD(10)])

lemma modify_escrow_settled:
  assumes "modify_escrow db n i f = Inr db'" and "escrows_settled db"
    and "\<And>e e'. f e = Inr e' \<Longrightarrow> escrow_settled e \<Longrightarrow> escrow_settled e'"
  shows "escrows_settled db'"
  using assms unfolding modify_escrow_def escrows_settled_def list_all_iff
  by (auto simp: res_simps dest!: tbl_modify_rows)

lemma escrow_dispute_settled:
  "escrow_dispute_do_apply db o1 = Inr db' \<Longrightarrow> escrows_settled db \<Longrightarrow> escrows_settled db'"
  by (auto simp: escrow_dispute_do_apply_def res_simps escrow_settled_def escrow_is_approved_def
      elim!: modify_escrow_settled)

lemma remove_escrow_settled: "escrows_settled db \<Longrightarrow> escrows_settled (remove_escrow db e)"
  by (auto simp: escrows_settled_def list_all_iff remove_escrow_def dest: notin_set_remove1)

lemma escrow_release_settled:
  assumes "escrow_release_do_apply db o1 = Inr db'" and "escrows_settled db"
  shows "escrows_settled db'"
proof -
  from assms(1) obtain a b c e where
    d: "adjust_balance db (er_receiver o1) (er_steem_amount o1) = Inr a"
      "adjust_balance a (er_receiver o1) (er_sbd_amount o1) = Inr b"
    and m: "modify_escrow b (er_from o1) (er_escrow_id o1) (escrow_debit o1) = Inr c"
    and "get_escrow c (er_from o1) (er_escrow_id o1) = Inr e"
    and db': "(if amount (esc_steem_balance e) = 0 \<and> amount (esc_sbd_balance e) = 0 then Inr (remove_escrow c e)
       else Inr c) = (Inr db' :: database res)"
    unfolding escrow_release_do_apply_def bindE_eq_Inr fc_assert_eq_Inr
    by (elim exE conjE) (rule that, assumption+)
  have "escrows_settled b" using assms(2) d[THEN adjust_balance_frame, THEN escrows_settled_frame] by simp
  from modify_escrow_settled[OF m this] have "escrows_settled c"
    using escrow_debit_fields by (fastforce simp: escrow_settled_def)
  with db' show ?thesis by (auto intro: remove_escrow_settled split: if_splits)
qed

lemma escrow_refund_settled: "escrow_refund db n e = Inr db' \<Longrightarrow> escrows_settled db \<Longrightarrow> escrows_settled db'"
  by (auto simp: escrow_refund_def res_simps intro!: remove_escrow_settled dest!: adjust_balance_frame[THEN escrows_settled_frame])

lemma expire_escrow_settled: "expire_escrow_ratification db = Inr db' \<Longrightarrow> escrows_settled db \<Longrightarrow> escrows_settled db'"
  unfolding expire_escrow_ratification_def
  by (erule foldE_rel[where R = "\<lambda>a b. escrows_settled a \<longrightarrow> escrows_settled b", THEN mp]) (auto intro: escrow_refund_settled)

end
