(* ===== verification/Market.thy ===== *)
theory Market
  imports Transfers
begin

text \<open>
  The internal market: limit orders, the order book and the matching of
  src/src/core/chain/database.cpp (\<open>apply_order\<close>, \<open>match\<close>, \<open>fill_order\<close>, \<open>cancel_order\<close>,
  \<open>clear_expired_orders\<close>) with the order evaluators of src/src/core/chain/steem_evaluator.cpp.

  An order is found by its id.  \<open>match\<close> reads the old order again after the new one has been filled,
  as the code does through the reference.  The book is the part of the \<open>by_price\<close> index between its
  two bounds, in the order of that index; orders are matched against it from a snapshot, since a
  match changes only the two orders it fills and no price.
\<close>

section \<open>Orders\<close>

definition order_clash :: "limit_order_object \<Rightarrow> limit_order_object \<Rightarrow> bool" where
  "order_clash a b \<longleftrightarrow> lo_seller a = lo_seller b \<and> lo_orderid a = lo_orderid b"

definition find_order :: "database \<Rightarrow> nat \<Rightarrow> limit_order_object option" where
  "find_order db i = tbl_find (\<lambda>x. lo_id x = i) (db_orders db)"

definition get_order :: "database \<Rightarrow> nat \<Rightarrow> limit_order_object res" where
  "get_order db i = tbl_get (\<lambda>x. lo_id x = i) (db_orders db)"

definition get_limit_order :: "database \<Rightarrow> account_name_type \<Rightarrow> int \<Rightarrow> limit_order_object res" where
  "get_limit_order db n i = tbl_get (\<lambda>x. lo_seller x = n \<and> lo_orderid x = i) (db_orders db)"

definition remove_order :: "database \<Rightarrow> limit_order_object \<Rightarrow> database" where
  "remove_order db x = db\<lparr> db_orders := tbl_erase x (db_orders db) \<rparr>"

definition sell_order :: "int \<Rightarrow> limit_order_object \<Rightarrow> limit_order_object res" where
  "sell_order pays b = bindE (safe_sub (lo_for_sale b) pays) (\<lambda>v. Inr (b\<lparr> lo_for_sale := v \<rparr>))"

definition modify_order ::
  "database \<Rightarrow> nat \<Rightarrow> (limit_order_object \<Rightarrow> limit_order_object res) \<Rightarrow> database res" where
  "modify_order db i f =
     bindE (tbl_modify (\<lambda>x. lo_id x = i) f (db_orders db)) (\<lambda>t. Inr (db\<lparr> db_orders := t \<rparr>))"

definition cancel_order :: "database \<Rightarrow> limit_order_object \<Rightarrow> database res" where
  "cancel_order db x =
     bindE (adjust_balance db (lo_seller x) (amount_for_sale x)) (\<lambda>db. Inr (remove_order db x))"

definition fill_order :: "database \<Rightarrow> limit_order_object \<Rightarrow> asset \<Rightarrow> asset \<Rightarrow> (database \<times> bool) res" where
  "fill_order db order pays receives =
     fc_assert 3349 (symbol (amount_for_sale order) = symbol pays)
     (fc_assert 3352 (symbol pays \<noteq> symbol receives)
     (bindE (adjust_balance db (lo_seller order) receives) (\<lambda>db.
      if pays = amount_for_sale order then Inr (remove_order db order, True)
      else
        bindE (asset_lt pays (amount_for_sale order)) (\<lambda>lt.
        fc_assert 3365 lt
        (bindE (modify_order db (lo_id order) (sell_order (amount pays))) (\<lambda>db.
         bindE (get_order db (lo_id order)) (\<lambda>order.
         bindE (amount_to_receive order) (\<lambda>r.
         if amount r = 0 then bindE (cancel_order db order) (\<lambda>db. Inr (db, True))
         else Inr (db, False)))))))))"

section \<open>Matching\<close>

text \<open>What the new and the old order receive; each pays what the other receives.\<close>

definition match_amounts :: "asset \<Rightarrow> asset \<Rightarrow> price \<Rightarrow> (asset \<times> asset) res" where
  "match_amounts new_for_sale old_for_sale match_price =
     bindE (asset_mul_price old_for_sale match_price) (\<lambda>x.
     bindE (asset_le new_for_sale x) (\<lambda>le.
     if le then
       bindE (asset_mul_price new_for_sale match_price) (\<lambda>new_receives. Inr (new_receives, new_for_sale))
     else
       bindE (asset_mul_price old_for_sale match_price) (\<lambda>old_receives. Inr (old_for_sale, old_receives))))"

definition match_orders :: "database \<Rightarrow> nat \<Rightarrow> nat \<Rightarrow> (database \<times> bool \<times> bool) res" where
  "match_orders db new_id old_id =
     bindE (get_order db new_id) (\<lambda>new_order.
     bindE (get_order db old_id) (\<lambda>old_order.
     let match_price = lo_sell_price old_order in
     fc_assert 3286 (symbol (quote (lo_sell_price new_order)) = symbol (base (lo_sell_price old_order)))
     (fc_assert 3289 (symbol (base (lo_sell_price new_order)) = symbol (quote (lo_sell_price old_order)))
     (fc_assert 3292 (lo_for_sale new_order > 0 \<and> lo_for_sale old_order > 0)
     (fc_assert 3295 (symbol (quote match_price) = symbol (base (lo_sell_price new_order)))
     (fc_assert 3298 (symbol (base match_price) = symbol (base (lo_sell_price old_order)))
     (bindE (match_amounts (amount_for_sale new_order) (amount_for_sale old_order) match_price)
        (\<lambda>(new_order_receives, old_order_receives).
      let old_order_pays = new_order_receives; new_order_pays = old_order_receives in
      fc_assert 3325 (new_order_pays = amount_for_sale new_order \<or> old_order_pays = amount_for_sale old_order)
      (bindE (fill_order db new_order new_order_pays new_order_receives) (\<lambda>(db, new_filled).
       bindE (get_order db old_id) (\<lambda>old_order.
       bindE (fill_order db old_order old_order_pays old_order_receives) (\<lambda>(db, old_filled).
       fc_assert 3336 (new_filled \<or> old_filled) (Inr (db, new_filled, old_filled))))))))))))))"

text \<open>The order of \<open>by_price\<close>: greater prices first, then smaller ids.\<close>

definition order_before :: "limit_order_object \<Rightarrow> limit_order_object \<Rightarrow> bool" where
  "order_before a b \<longleftrightarrow> price_gt (lo_sell_price a) (lo_sell_price b) \<or>
     (\<not> price_gt (lo_sell_price b) (lo_sell_price a) \<and> lo_id a < lo_id b)"

fun insert_order :: "limit_order_object \<Rightarrow> limit_order_object list \<Rightarrow> limit_order_object list" where
  "insert_order x [] = [x]"
| "insert_order x (y # ys) = (if order_before y x then y # insert_order x ys else x # y # ys)"

definition sort_orders :: "limit_order_object list \<Rightarrow> limit_order_object list" where
  "sort_orders xs = foldr insert_order xs []"

text \<open>\<open>lower_bound( max )\<close> is the first order whose price does not come before it, and
  \<open>upper_bound( max_price )\<close> the first that comes after.\<close>

definition price_inv :: "price \<Rightarrow> price res" where
  "price_inv p = mk_price (quote p) (base p)"

definition crossing :: "price \<Rightarrow> price \<Rightarrow> limit_order_object \<Rightarrow> bool" where
  "crossing pmax max_price x \<longleftrightarrow> \<not> price_gt (lo_sell_price x) pmax \<and> \<not> price_gt max_price (lo_sell_price x)"

definition order_book :: "database \<Rightarrow> price \<Rightarrow> limit_order_object list res" where
  "order_book db sell_price =
     bindE (price_inv sell_price) (\<lambda>max_price.
     bindE (price_max (symbol (base max_price)) (symbol (quote max_price))) (\<lambda>pmax.
     Inr (sort_orders (filter (crossing pmax max_price) (rows (db_orders db))))))"

fun match_loop :: "nat \<Rightarrow> nat list \<Rightarrow> database \<Rightarrow> database res" where
  "match_loop new_id [] db = Inr db"
| "match_loop new_id (i # book) db =
     bindE (match_orders db new_id i) (\<lambda>(db, new_filled, old_filled).
     if new_filled then Inr db else match_loop new_id book db)"

definition apply_order :: "database \<Rightarrow> nat \<Rightarrow> (database \<times> bool) res" where
  "apply_order db order_id =
     bindE (get_order db order_id) (\<lambda>new_order.
     bindE (order_book db (lo_sell_price new_order)) (\<lambda>book.
     bindE (match_loop order_id (map lo_id book) db) (\<lambda>db.
     Inr (db, find_order db order_id = None))))"

section \<open>Evaluators\<close>

definition place_order ::
  "database \<Rightarrow> nat \<Rightarrow> account_name_type \<Rightarrow> int \<Rightarrow> asset \<Rightarrow> price res \<Rightarrow> bool \<Rightarrow> time_point_sec \<Rightarrow> database res" where
  "place_order db l owner orderid amount_to_sell get_price fill_or_kill expiration =
     fc_assert l (expiration > head_block_time db)
     (fc_assert (l + 2) (expiration \<le> to_uint32 (head_block_time db + STEEM_MAX_LIMIT_ORDER_EXPIRATION))
     (bindE (get_account db owner) (\<lambda>a.
      bindE (get_balance a (symbol amount_to_sell)) (\<lambda>b.
      bindE (asset_ge b amount_to_sell) (\<lambda>ge.
      fc_assert (l + 4) ge
      (bindE (asset_neg amount_to_sell) (\<lambda>m.
       bindE (adjust_balance db owner m) (\<lambda>db.
       bindE get_price (\<lambda>p.
       bindE (tbl_create order_clash (\<lambda>i. \<lparr>
           lo_id = i, lo_created = head_block_time db, lo_expiration = expiration, lo_seller = owner,
           lo_orderid = orderid, lo_for_sale = amount amount_to_sell, lo_sell_price = p \<rparr>)
         (db_orders db)) (\<lambda>t.
       bindE (apply_order (db\<lparr> db_orders := t \<rparr>) (next_id (db_orders db))) (\<lambda>(db, filled).
       if fill_or_kill then fc_assert (l + 20) filled (Inr db) else Inr db)))))))))))"

definition limit_order_create_do_apply :: "database \<Rightarrow> limit_order_create_operation \<Rightarrow> database res" where
  "limit_order_create_do_apply db o1 =
     place_order db 1497 (loc_owner o1) (loc_orderid o1) (loc_amount_to_sell o1)
       (asset_div (loc_amount_to_sell o1) (loc_min_to_receive o1)) (loc_fill_or_kill o1) (loc_expiration o1)"

definition limit_order_create2_do_apply :: "database \<Rightarrow> limit_order_create2_operation \<Rightarrow> database res" where
  "limit_order_create2_do_apply db o1 =
     place_order db 1522 (lo2_owner o1) (lo2_orderid o1) (lo2_amount_to_sell o1)
       (Inr (lo2_exchange_rate o1)) (lo2_fill_or_kill o1) (lo2_expiration o1)"

definition limit_order_cancel_do_apply :: "database \<Rightarrow> limit_order_cancel_operation \<Rightarrow> database res" where
  "limit_order_cancel_do_apply db o1 =
     bindE (get_limit_order db (lox_owner o1) (lox_orderid o1)) (cancel_order db)"

definition clear_expired_orders :: "database \<Rightarrow> database res" where
  "clear_expired_orders db =
     foldE (\<lambda>x db. cancel_order db x)
       (takeWhile (\<lambda>x. lo_expiration x < head_block_time db) (sort_key lo_expiration (rows (db_orders db)))) db"

section \<open>The ledger is kept\<close>

lemma get_order_in: "get_order db i = Inr x \<Longrightarrow> x \<in> set (rows (db_orders db)) \<and> lo_id x = i"
  by (auto simp: get_order_def tbl_get_Inr dest: tbl_find_Some)

lemma remove_order_slack:
  "x \<in> set (rows (db_orders db)) \<Longrightarrow> slack (remove_order db x) s = slack db s + order_hold x s"
  "pending_slack (remove_order db x) = pending_slack db"
  "rows (db_orders (remove_order db x)) = remove1 x (rows (db_orders db))"
  by (simp_all add: remove_order_def erase_slack)

lemma cancel_order_step:
  assumes "x \<in> set (rows (db_orders db))" and "cancel_order db x = Inr db'"
  shows "ledger_same db db' \<and> rows (db_orders db') = remove1 x (rows (db_orders db))"
proof -
  from assms(2) obtain d where d: "adjust_balance db (lo_seller x) (amount_for_sale x) = Inr d" "db' = remove_order d x"
    by (auto simp: cancel_order_def res_simps)
  have "db_orders d = db_orders db" by (rule core_frameD[OF adjust_balance_frame[OF d(1)]])
  with assms(1) adjust_balance_credited[OF d(1)] show ?thesis
    by (simp add: d(2) ledger_same_def credited_def remove_order_slack order_hold_def)
qed

lemma modify_order_slack:
  assumes "modify_order db (lo_id x) (sell_order v) = Inr db'" and "get_order db (lo_id x) = Inr x"
  shows "slack db' s = slack db s + (if symbol (base (lo_sell_price x)) = s then v else 0)"
    "pending_slack db' = pending_slack db"
    "get_order db' (lo_id x) = Inr (x\<lparr> lo_for_sale := lo_for_sale x - v \<rparr>)"
proof -
  from assms(1) obtain t where t: "tbl_modify (\<lambda>y. lo_id y = lo_id x) (sell_order v) (db_orders db) = Inr t"
    and db': "db' = db\<lparr> db_orders := t \<rparr>" by (auto simp: modify_order_def res_simps)
  have f: "tbl_find (\<lambda>y. lo_id y = lo_id x) (db_orders db) = Some x"
    using assms(2) by (simp add: get_order_def tbl_get_Inr)
  with tbl_modify_find[OF t] obtain y where "sell_order v x = Inr y" by auto
  then have s: "sell_order v x = Inr (x\<lparr> lo_for_sale := lo_for_sale x - v \<rparr>)"
    by (auto simp: sell_order_def bindE_eq_Inr dest: safe_sub_value)
  show "slack db' s = slack db s + (if symbol (base (lo_sell_price x)) = s then v else 0)"
    using tbl_modify_sum[OF t f s, of "\<lambda>x. order_hold x s"]
    by (simp add: db' ledger order_hold_def amount_for_sale_def)
  show "pending_slack db' = pending_slack db" by (simp add: db')
  show "get_order db' (lo_id x) = Inr (x\<lparr> lo_for_sale := lo_for_sale x - v \<rparr>)"
    using tbl_modify_find_after[OF t f s] by (simp add: db' get_order_def tbl_get_Inr)
qed

lemma get_order_frame: "core_frame db db' \<Longrightarrow> get_order db' i = get_order db i"
  by (simp add: get_order_def core_frameD(9))

lemma fill_order_slack:
  assumes "fill_order db x pays receives = Inr (db', b)" and "get_order db (lo_id x) = Inr x"
  shows "slack db' s = slack db s + amt pays s - amt receives s \<and> pending_slack db' = pending_slack db"
proof -
  from assms(1) obtain d where sy: "symbol (amount_for_sale x) = symbol pays"
    and d: "adjust_balance db (lo_seller x) receives = Inr d"
    and r: "(if pays = amount_for_sale x then Inr (remove_order d x, True)
      else
        bindE (asset_lt pays (amount_for_sale x)) (\<lambda>lt.
        fc_assert 3365 lt
        (bindE (modify_order d (lo_id x) (sell_order (amount pays))) (\<lambda>db.
         bindE (get_order db (lo_id x)) (\<lambda>order.
         bindE (amount_to_receive order) (\<lambda>r.
         if amount r = 0 then bindE (cancel_order db order) (\<lambda>db. Inr (db, True))
         else Inr (db, False))))))) = Inr (db', b)"
    unfolding fill_order_def bindE_eq_Inr fc_assert_eq_Inr by (elim exE conjE) (rule that, assumption+)
  note c = adjust_balance_credited[OF d]
  have g: "get_order d (lo_id x) = Inr x" using assms(2) adjust_balance_frame[OF d] by (simp add: get_order_frame)
  show ?thesis
  proof (cases "pays = amount_for_sale x")
    case True
    then have "db' = remove_order d x" using r by simp
    with c True get_order_in[OF g] show ?thesis by (simp add: credited_def remove_order_slack order_hold_def)
  next
    case False
    with r obtain e y where m: "modify_order d (lo_id x) (sell_order (amount pays)) = Inr e"
      and y: "get_order e (lo_id x) = Inr y" and t: "db' = e \<or> cancel_order e y = Inr db'"
      by (auto simp: res_simps split: if_splits)
    have "ledger_same e db'" using t cancel_order_step get_order_in[OF y] by blast
    with modify_order_slack[OF m g] c sy show ?thesis
      by (simp add: credited_def ledger_same_def amount_for_sale_def amt_def)
  qed
qed

lemma match_orders_same:
  assumes "match_orders db i j = Inr (db', r)"
  shows "ledger_same db db'"
proof -
  from assms obtain x nr orr d a z where x: "get_order db i = Inr x"
    and f: "fill_order db x orr nr = Inr (d, a)" and z: "get_order d j = Inr z"
    and f': "\<exists>b. fill_order d z nr orr = Inr (db', b)"
    unfolding match_orders_def Let_def by (auto simp: bindE_eq_Inr fc_assert_eq_Inr split: prod.splits) blast+
  then obtain b where f': "fill_order d z nr orr = Inr (db', b)" by blast
  have "lo_id x = i" "lo_id z = j" using get_order_in x z by auto
  with x z fill_order_slack[OF f] fill_order_slack[OF f'] show ?thesis by (simp add: ledger_same_def)
qed

lemma match_loop_same: "match_loop i book db = Inr db' \<Longrightarrow> ledger_same db db'"
  by (induction book arbitrary: db)
     (auto simp: bindE_eq_Inr split: prod.splits if_splits dest: match_orders_same intro: ledger_same_trans)

lemma apply_order_same: "apply_order db i = Inr (db', b) \<Longrightarrow> ledger_same db db'"
  by (auto simp: apply_order_def res_simps intro: match_loop_same)

lemma place_order_same:
  assumes "place_order db l owner orderid sell gp fk ex = Inr db'" and "\<And>p. gp = Inr p \<Longrightarrow> symbol (base p) = symbol sell"
  shows "ledger_same db db'"
proof -
  from assms(1) obtain m d p t f where m: "asset_neg sell = Inr m" and d: "adjust_balance db owner m = Inr d" and p: "gp = Inr p"
    and t: "tbl_create order_clash (\<lambda>i. \<lparr>
           lo_id = i, lo_created = head_block_time d, lo_expiration = ex, lo_seller = owner,
           lo_orderid = orderid, lo_for_sale = amount sell, lo_sell_price = p \<rparr>) (db_orders d) = Inr t"
    and a: "apply_order (d\<lparr> db_orders := t \<rparr>) (next_id (db_orders d)) = Inr (db', f)"
    unfolding place_order_def by (auto simp: bindE_eq_Inr fc_assert_eq_Inr split: prod.splits if_splits)
  have "ledger_same db (d\<lparr> db_orders := t \<rparr>)"
    using adjust_balance_credited[OF d] create_order_slack[OF t] assms(2)[OF p] amt_asset_neg[OF m]
    by (simp add: ledger_same_def credited_def order_hold_def amount_for_sale_def amt_def)
  then show ?thesis using apply_order_same[OF a] by (rule ledger_same_trans)
qed

lemma limit_order_create_same: "limit_order_create_do_apply db o1 = Inr db' \<Longrightarrow> ledger_same db db'"
  unfolding limit_order_create_do_apply_def
  by (erule place_order_same) (auto simp: asset_div_def res_simps mk_price_def)

lemma limit_order_create2_same:
  "limit_order_create2_do_apply db o1 = Inr db' \<Longrightarrow> limit_order_create2_validate o1 = Inr () \<Longrightarrow> ledger_same db db'"
  unfolding limit_order_create2_do_apply_def
  by (erule place_order_same) (simp add: limit_order_create2_validate_def res_simps)

lemma limit_order_cancel_same: "limit_order_cancel_do_apply db o1 = Inr db' \<Longrightarrow> ledger_same db db'"
  by (auto simp: limit_order_cancel_do_apply_def get_limit_order_def bindE_eq_Inr tbl_get_Inr
      dest!: cancel_order_step[rotated] dest: tbl_find_Some)

lemma clear_expired_orders_same: "clear_expired_orders db = Inr db' \<Longrightarrow> ledger_same db db'"
  unfolding clear_expired_orders_def
  by (erule foldE_erase[where tab = db_orders]) (auto simp: mset_takeWhile_sort cancel_order_step intro: ledger_same_trans)


section \<open>The book after matching\<close>

definition order_ids :: "database \<Rightarrow> nat list" where
  "order_ids db = map lo_id (rows (db_orders db))"

text \<open>Orders only disappear or sell some of their amount.\<close>

definition orders_shrink :: "database \<Rightarrow> database \<Rightarrow> bool" where
  "orders_shrink db db' \<longleftrightarrow> (distinct (order_ids db) \<longrightarrow> distinct (order_ids db')) \<and>
     (\<forall>x'\<in>set (rows (db_orders db')). \<exists>x\<in>set (rows (db_orders db)).
        lo_id x = lo_id x' \<and> lo_sell_price x = lo_sell_price x')"

lemma orders_shrink_refl: "orders_shrink db db"
  by (auto simp: orders_shrink_def)

lemma orders_shrink_trans: "orders_shrink a b \<Longrightarrow> orders_shrink b c \<Longrightarrow> orders_shrink a c"
  unfolding orders_shrink_def by metis

lemma orders_shrink_ids: "orders_shrink db db' \<Longrightarrow> i \<in> set (order_ids db') \<Longrightarrow> i \<in> set (order_ids db)"
  unfolding orders_shrink_def order_ids_def by (metis (no_types, lifting) imageE imageI set_map)

lemma orders_shrink_frame: "core_frame db db' \<Longrightarrow> orders_shrink db db'"
  by (auto simp: orders_shrink_def order_ids_def core_frameD(9))

lemma distinct_map_remove1:
  "distinct (map f xs) \<Longrightarrow> distinct (map f (remove1 x xs)) \<and> (x \<in> set xs \<longrightarrow> f x \<notin> f ` set (remove1 x xs))"
proof (induction xs)
  case (Cons y ys)
  have "f ` set (remove1 x ys) \<subseteq> f ` set ys" by (rule image_mono[OF set_remove1_subset])
  then show ?case using Cons by auto (metis imageI)
qed simp

lemma remove_order_shrink:
  "orders_shrink db (remove_order db x)"
  "distinct (order_ids db) \<Longrightarrow> x \<in> set (rows (db_orders db)) \<Longrightarrow> lo_id x \<notin> set (order_ids (remove_order db x))"
  using distinct_map_remove1[of lo_id "rows (db_orders db)" x]
  by (auto simp: orders_shrink_def order_ids_def remove_order_def dest: set_remove1_subset[THEN subsetD])

lemma sell_order_shrink:
  assumes "modify_order db i (sell_order v) = Inr db'"
  shows "orders_shrink db db' \<and> order_ids db' = order_ids db"
proof -
  from assms obtain ys where ys: "modify_first (\<lambda>y. lo_id y = i) (sell_order v) (rows (db_orders db)) = Inr ys"
    "db' = db\<lparr> db_orders := (db_orders db)\<lparr> rows := ys \<rparr> \<rparr>"
    by (auto simp: modify_order_def tbl_modify_def res_simps)
  from modify_first_split[OF ys(1)] obtain us w w' vs where
    "rows (db_orders db) = us @ w # vs" "ys = us @ w' # vs" "sell_order v w = Inr w'" by blast
  moreover from this(3) have "lo_id w' = lo_id w" "lo_sell_price w' = lo_sell_price w"
    by (auto simp: sell_order_def bindE_eq_Inr)
  ultimately show ?thesis using ys(2) by (auto simp: orders_shrink_def order_ids_def)
qed

lemma fill_order_shrink:
  assumes "fill_order db x pays receives = Inr (db', b)" and "get_order db (lo_id x) = Inr x" and "distinct (order_ids db)"
  shows "orders_shrink db db' \<and> (b \<longrightarrow> lo_id x \<notin> set (order_ids db'))"
proof -
  from assms(1) obtain d where d: "adjust_balance db (lo_seller x) receives = Inr d"
    and r: "(if pays = amount_for_sale x then Inr (remove_order d x, True)
      else
        bindE (asset_lt pays (amount_for_sale x)) (\<lambda>lt.
        fc_assert 3365 lt
        (bindE (modify_order d (lo_id x) (sell_order (amount pays))) (\<lambda>db.
         bindE (get_order db (lo_id x)) (\<lambda>order.
         bindE (amount_to_receive order) (\<lambda>r.
         if amount r = 0 then bindE (cancel_order db order) (\<lambda>db. Inr (db, True))
         else Inr (db, False))))))) = Inr (db', b)"
    unfolding fill_order_def bindE_eq_Inr fc_assert_eq_Inr by (elim exE conjE) (rule that, assumption+)
  have f: "orders_shrink db d" "db_orders d = db_orders db"
    using adjust_balance_frame[OF d] by (simp_all add: orders_shrink_frame core_frameD(9))
  have dist: "distinct (order_ids d)" using assms(3) f(2) by (simp add: order_ids_def)
  have g: "get_order d (lo_id x) = Inr x" using assms(2) f(2) by (simp add: get_order_def)
  show ?thesis
  proof (cases "pays = amount_for_sale x")
    case True
    with r remove_order_shrink[of d x] f(1) dist get_order_in[OF g] show ?thesis by (auto intro: orders_shrink_trans)
  next
    case False
    with r obtain e y where m: "modify_order d (lo_id x) (sell_order (amount pays)) = Inr e"
      and y: "get_order e (lo_id x) = Inr y" and t: "(db' = e \<and> \<not> b) \<or> (cancel_order e y = Inr db')"
      by (auto simp: res_simps split: if_splits)
    from sell_order_shrink[OF m] dist have e: "orders_shrink d e" "distinct (order_ids e)" by auto
    show ?thesis using t
    proof
      assume "db' = e \<and> \<not> b" with f(1) e(1) show ?thesis by (auto intro: orders_shrink_trans)
    next
      assume "cancel_order e y = Inr db'"
      then obtain h where h: "adjust_balance e (lo_seller y) (amount_for_sale y) = Inr h" "db' = remove_order h y"
        by (auto simp: cancel_order_def bindE_eq_Inr)
      have o: "orders_shrink e h" "db_orders h = db_orders e"
        using adjust_balance_frame[OF h(1)] by (simp_all add: orders_shrink_frame core_frameD(9))
      have "lo_id y \<notin> set (order_ids db')"
        using remove_order_shrink(2)[of h y] e(2) o(2) get_order_in[OF y] by (simp add: h(2) order_ids_def)
      then show ?thesis using f(1) e(1) o(1) remove_order_shrink(1)[of h y] get_order_in[OF y]
        by (auto simp: h(2) intro: orders_shrink_trans)
    qed
  qed
qed


lemma match_orders_shrink:
  assumes "match_orders db i j = Inr (db', nf, of')" and "distinct (order_ids db)"
  shows "orders_shrink db db' \<and> (nf \<longrightarrow> i \<notin> set (order_ids db')) \<and> (nf \<or> j \<notin> set (order_ids db'))"
proof -
  from assms(1) obtain x nr orr d z where x: "get_order db i = Inr x"
    and f: "fill_order db x orr nr = Inr (d, nf)" and z: "get_order d j = Inr z"
    and f': "fill_order d z nr orr = Inr (db', of')" and r: "nf \<or> of'"
    unfolding match_orders_def Let_def by (auto simp: bindE_eq_Inr fc_assert_eq_Inr split: prod.splits)
  have ids: "lo_id x = i" "lo_id z = j" using get_order_in x z by auto
  have s1: "orders_shrink db d \<and> (nf \<longrightarrow> i \<notin> set (order_ids d))" using fill_order_shrink[OF f] x ids assms(2) by simp
  then have "distinct (order_ids d)" using assms(2) by (simp add: orders_shrink_def)
  with fill_order_shrink[OF f'] z ids have s2: "orders_shrink d db' \<and> (of' \<longrightarrow> j \<notin> set (order_ids db'))" by simp
  show ?thesis using s1 s2 r by (blast intro: orders_shrink_trans dest: orders_shrink_ids)
qed

lemma match_loop_shrink:
  "match_loop i book db = Inr db' \<Longrightarrow> distinct (order_ids db) \<Longrightarrow>
   orders_shrink db db' \<and> (i \<in> set (order_ids db') \<longrightarrow> (\<forall>j\<in>set book. j \<notin> set (order_ids db')))"
proof (induction book arbitrary: db)
  case (Cons j book)
  from Cons.prems(1) obtain d nf of' where m: "match_orders db i j = Inr (d, nf, of')"
    and r: "(if nf then Inr d else match_loop i book d) = Inr db'" by (auto simp: bindE_eq_Inr split: prod.splits)
  note s = match_orders_shrink[OF m Cons.prems(2)]
  show ?case
  proof (cases nf)
    case True then show ?thesis using s r by auto
  next
    case False
    then have l: "match_loop i book d = Inr db'" using r by simp
    have "distinct (order_ids d)" using s Cons.prems(2) by (simp add: orders_shrink_def)
    from Cons.IH[OF l this] s False show ?thesis by (auto intro: orders_shrink_trans dest: orders_shrink_ids)
  qed
qed (simp add: orders_shrink_refl)

lemma insert_order_set: "set (insert_order x xs) = insert x (set xs)"
  by (induction xs) auto

lemma sort_orders_set: "set (sort_orders xs) = set xs"
  by (induction xs) (simp_all add: sort_orders_def insert_order_set)

lemma find_order_ids: "find_order db i = None \<longleftrightarrow> i \<notin> set (order_ids db)"
  by (auto simp: find_order_def tbl_find_def order_ids_def find_None_iff)

section \<open>A concrete book\<close>

definition book_price :: price where
  "book_price = \<lparr> base = mk_asset 1000 STEEM_SYMBOL, quote = mk_asset 500 SBD_SYMBOL \<rparr>"

definition taker_price :: price where
  "taker_price = \<lparr> base = mk_asset 600 SBD_SYMBOL, quote = mk_asset 1200 STEEM_SYMBOL \<rparr>"

definition sample_order :: "nat \<Rightarrow> string \<Rightarrow> int \<Rightarrow> price \<Rightarrow> limit_order_object" where
  "sample_order i n v p = \<lparr> lo_id = i, lo_created = 0, lo_expiration = 1600000000, lo_seller = n, lo_orderid = 7,
     lo_for_sale = v, lo_sell_price = p \<rparr>"

definition market_db :: database where
  "market_db = sample_db\<lparr> db_orders :=
     \<lparr> rows = [sample_order 0 ''bob'' 1000 book_price, sample_order 1 ''alice'' 600 taker_price], next_id = 2 \<rparr> \<rparr>"

definition market_after :: database where
  "market_after = (case apply_order market_db 1 of Inr (d, f) \<Rightarrow> d | Inl e \<Rightarrow> market_db)"

section \<open>Properties\<close>

text \<open>C13. Matching leaves no crossed book: when \<open>apply_order\<close> returns without having filled the new
  order, no order that remains in the book has a price between the best possible one and the inverse of
  the price the new order asks for, which are the bounds of the walk over \<open>by_price\<close>.\<close>

theorem order_book_uncrossed:
  assumes "apply_order db i = Inr (db', False)" and "distinct (order_ids db)"
    and "get_order db i = Inr x" and "price_inv (lo_sell_price x) = Inr mp"
    and "price_max (symbol (base mp)) (symbol (quote mp)) = Inr pm"
  shows "list_all (\<lambda>y. \<not> crossing pm mp y) (rows (db_orders db'))"
  unfolding list_all_iff
proof
  fix y assume y: "y \<in> set (rows (db_orders db'))"
  from assms(1,3-5) have
    l: "match_loop i (map lo_id (sort_orders (filter (crossing pm mp) (rows (db_orders db))))) db = Inr db'"
    and n: "find_order db' i \<noteq> None"
    by (auto simp: apply_order_def order_book_def bindE_eq_Inr)
  from match_loop_shrink[OF l assms(2)] n find_order_ids[of db' i]
  have s: "orders_shrink db db'" and g: "\<forall>z\<in>set (rows (db_orders db)). crossing pm mp z \<longrightarrow> lo_id z \<notin> set (order_ids db')"
    by (auto simp: sort_orders_set)
  from s y obtain z where z: "z \<in> set (rows (db_orders db))" "lo_id z = lo_id y" "lo_sell_price z = lo_sell_price y"
    unfolding orders_shrink_def by blast
  have "lo_id y \<in> set (order_ids db')" using y by (simp add: order_ids_def)
  with g z show "\<not> crossing pm mp y" by (auto simp: crossing_def)
qed

theorem order_book_uncrossed_witness:
  "apply_order market_db 1 = Inr (market_after, False) \<and> order_ids market_after = [1] \<and>
   list_all (\<lambda>y. \<not> crossing \<lparr> base = mk_asset STEEM_MAX_SATOSHIS STEEM_SYMBOL, quote = mk_asset 1 SBD_SYMBOL \<rparr>
     \<lparr> base = mk_asset 1200 STEEM_SYMBOL, quote = mk_asset 600 SBD_SYMBOL \<rparr> y) (rows (db_orders market_after))"
proof -
  have a: "apply_order market_db 1 = Inr (market_after, False)" by code_simp
  have i: "order_ids market_after = [1]" by code_simp
  have d: "distinct (order_ids market_db)" by code_simp
  have g: "get_order market_db 1 = Inr (sample_order 1 ''alice'' 600 taker_price)" by code_simp
  have p: "price_inv (lo_sell_price (sample_order 1 ''alice'' 600 taker_price)) =
      Inr \<lparr> base = mk_asset 1200 STEEM_SYMBOL, quote = mk_asset 600 SBD_SYMBOL \<rparr>" by code_simp
  have m: "price_max (symbol (base \<lparr> base = mk_asset 1200 STEEM_SYMBOL, quote = mk_asset 600 SBD_SYMBOL \<rparr>))
      (symbol (quote \<lparr> base = mk_asset 1200 STEEM_SYMBOL, quote = mk_asset 600 SBD_SYMBOL \<rparr>)) =
      Inr \<lparr> base = mk_asset STEEM_MAX_SATOSHIS STEEM_SYMBOL, quote = mk_asset 1 SBD_SYMBOL \<rparr>" by code_simp
  from order_book_uncrossed[OF a d g p m] a i show ?thesis by blast
qed

text \<open>C15. A match trades within both orders and at the match price: for positive amounts whose value
  fits 64 bits, neither order pays more than it has for sale, one of the two is sold out, and what the
  sold-out order receives is the exact value at the match price rounded down to a whole unit.\<close>

theorem match_within_price:
  assumes "price_ok p" and n: "symbol n = symbol (quote p)" "0 < amount n" "amount n \<le> int64_max"
    and o: "symbol o1 = symbol (base p)" "0 < amount o1" "amount o1 \<le> int64_max"
    and fits: "amount o1 * amount (quote p) div amount (base p) \<le> int64_max"
    and m: "match_amounts n o1 p = Inr (nr, orr)"
  shows "symbol nr = symbol (base p) \<and> symbol orr = symbol (quote p) \<and>
    0 \<le> amount nr \<and> amount nr \<le> amount o1 \<and> 0 \<le> amount orr \<and> amount orr \<le> amount n \<and>
    (orr = n \<and> amount nr = amount n * amount (base p) div amount (quote p) \<or>
     nr = o1 \<and> amount orr = amount o1 * amount (quote p) div amount (base p))"
proof -
  let ?b = "amount (base p)" and ?q = "amount (quote p)"
  have pos: "0 < ?b" "0 < ?q" "symbol (base p) \<noteq> symbol (quote p)" using assms(1) by (simp_all add: price_ok_def)
  have x: "asset_mul_price o1 p = Inr \<lparr> amount = amount o1 * ?q div ?b, symbol = symbol (quote p) \<rparr>"
    using asset_mul_price_base[OF assms(1) o(1)] o fits by (simp add: Let_def)
  have xp: "0 \<le> amount o1 * ?q div ?b" using pos o by (simp add: pos_imp_zdiv_nonneg_iff)
  show ?thesis
  proof (cases "amount n \<le> amount o1 * ?q div ?b")
    case True
    have "amount n * ?b \<le> (amount o1 * ?q div ?b) * ?b" using True pos by simp
    also have "\<dots> \<le> amount o1 * ?q" using pos by (simp add: minus_mod_eq_div_mult[symmetric])
    finally have "amount n * ?b div ?q \<le> amount o1 * ?q div ?q" using pos by (intro zdiv_mono1) auto
    then have le: "amount n * ?b div ?q \<le> amount o1" using pos by simp
    have ge: "0 \<le> amount n * ?b div ?q" using pos n by (simp add: pos_imp_zdiv_nonneg_iff)
    have "asset_mul_price n p = Inr \<lparr> amount = amount n * ?b div ?q, symbol = symbol (base p) \<rparr>"
      using asset_mul_price_quote[OF assms(1) n(1)] n le o by (simp add: Let_def)
    with m x n True le ge show ?thesis by (auto simp: match_amounts_def res_simps)
  next
    case False
    with m x n o xp show ?thesis by (auto simp: match_amounts_def res_simps)
  qed
qed

theorem match_within_price_witness:
  "match_amounts (mk_asset 600 SBD_SYMBOL) (mk_asset 1000 STEEM_SYMBOL) book_price =
     Inr (mk_asset 1000 STEEM_SYMBOL, mk_asset 500 SBD_SYMBOL) \<and>
   amount (mk_asset 500 SBD_SYMBOL) \<le> amount (mk_asset 600 SBD_SYMBOL)"
proof -
  have m: "match_amounts (mk_asset 600 SBD_SYMBOL) (mk_asset 1000 STEEM_SYMBOL) book_price =
     Inr (mk_asset 1000 STEEM_SYMBOL, mk_asset 500 SBD_SYMBOL)" by code_simp
  have p: "price_ok book_price" by (simp add: price_ok_def book_price_def)
  show ?thesis
    using match_within_price[OF p _ _ _ _ _ _ _ m] m by (simp add: book_price_def)
qed

end
