(* ===== verification/Vesting.thy ===== *)
theory Vesting
  imports Market
begin

text \<open>
  Vesting shares: withdrawing them over thirteen weeks, the routes withdrawn shares take, and the
  delegation of shares to other accounts (src/src/core/chain/steem_evaluator.cpp), with the
  block-time processing of due withdrawals and of returned delegations
  (src/src/core/chain/database.cpp).

  The lemmas show that withdrawals conserve the ledger, that the routes of an account never exceed
  one hundred percent, and that delegated and received shares are the sums of the delegations.
\<close>

section \<open>Withdrawing\<close>

definition get_effective_vesting_shares :: "account_object \<Rightarrow> asset_symbol_type \<Rightarrow> asset res" where
  "get_effective_vesting_shares a vested_symbol =
     (if vested_symbol = VESTS_SYMBOL then
        bindE (asset_sub (ac_vesting_shares a) (ac_delegated_vesting_shares a)) (\<lambda>x.
        asset_add x (ac_received_vesting_shares a))
      else Inl (Assert_exception 566))"

definition stop_withdrawal :: "account_object \<Rightarrow> account_object res" where
  "stop_withdrawal a =
     Inr (a\<lparr> ac_vesting_withdraw_rate := mk_asset 0 VESTS_SYMBOL,
             ac_next_vesting_withdrawal := time_maximum, ac_to_withdraw := 0, ac_withdrawn := 0 \<rparr>)"

definition start_withdrawal :: "time_point_sec \<Rightarrow> int \<Rightarrow> account_object \<Rightarrow> account_object res" where
  "start_withdrawal now shares a =
     bindE (safe_div shares STEEM_VESTING_WITHDRAW_INTERVALS) (\<lambda>q.
     let rate = mk_asset (if q = 0 then 1 else q) VESTS_SYMBOL in
     bindE (asset_ne (ac_vesting_withdraw_rate a) rate) (\<lambda>ne.
     fc_assert 968 ne
     (Inr (a\<lparr> ac_vesting_withdraw_rate := rate,
              ac_next_vesting_withdrawal := to_uint32 (now + STEEM_VESTING_WITHDRAW_INTERVAL_SECONDS),
              ac_to_withdraw := shares, ac_withdrawn := 0 \<rparr>))))"

definition withdraw_vesting_do_apply :: "database \<Rightarrow> withdraw_vesting_operation \<Rightarrow> database res" where
  "withdraw_vesting_do_apply db o1 =
     bindE (get_account db (wd_account o1)) (\<lambda>account.
     if amount (wd_vesting_shares o1) < 0 then
       if head_block_num db > 23847548 then Inl (Assert_exception 932) else Inr db
     else
       bindE (asset_ge (ac_vesting_shares account) (mk_asset 0 VESTS_SYMBOL)) (\<lambda>ge0.
       fc_assert 943 ge0
       (bindE (asset_sub (ac_vesting_shares account) (ac_delegated_vesting_shares account)) (\<lambda>avail.
        bindE (asset_ge avail (wd_vesting_shares o1)) (\<lambda>ge.
        fc_assert 944 ge
        (if amount (wd_vesting_shares o1) = 0 then
           fc_assert 948 (amount (ac_vesting_withdraw_rate account) \<noteq> 0)
           (modify_account db (wd_account o1) stop_withdrawal)
         else modify_account db (wd_account o1) (start_withdrawal (head_block_time db) (amount (wd_vesting_shares o1)))))))))"

section \<open>Routes\<close>

definition route_clash :: "withdraw_vesting_route_object \<Rightarrow> withdraw_vesting_route_object \<Rightarrow> bool" where
  "route_clash x y \<longleftrightarrow> wvr_from_account x = wvr_from_account y \<and> wvr_to_account x = wvr_to_account y"

definition is_route :: "account_name_type \<Rightarrow> account_name_type \<Rightarrow> withdraw_vesting_route_object \<Rightarrow> bool" where
  "is_route f t r \<longleftrightarrow> wvr_from_account r = f \<and> wvr_to_account r = t"

text \<open>The range of \<open>by_withdraw_route\<close> from \<open>upper_bound( from, account_name_type() )\<close> on, while the
  entries are those of the account.\<close>

definition routes_of :: "database \<Rightarrow> account_name_type \<Rightarrow> withdraw_vesting_route_object list" where
  "routes_of db f =
     sort_key wvr_to_account
       (filter (\<lambda>r. wvr_from_account r = f \<and> wvr_to_account r \<noteq> []) (rows (db_routes db)))"

definition change_route ::
  "database \<Rightarrow> set_withdraw_vesting_route_operation \<Rightarrow> account_object \<Rightarrow> account_object \<Rightarrow> database res" where
  "change_route db o1 from_account to_account =
     (let f = ac_name from_account; t = ac_name to_account in
      case tbl_find (is_route f t) (db_routes db) of
         None \<Rightarrow>
           fc_assert 989 (swr_percent o1 \<noteq> 0)
           (fc_assert 990 (ac_withdraw_routes from_account < STEEM_MAX_WITHDRAW_ROUTES)
           (bindE (tbl_create route_clash (\<lambda>i. \<lparr>
                wvr_id = i, wvr_from_account = f, wvr_to_account = t, wvr_percent = swr_percent o1,
                wvr_auto_vest = swr_auto_vest o1 \<rparr>) (db_routes db)) (\<lambda>rt.
            modify_account (db\<lparr> db_routes := rt \<rparr>) f (\<lambda>a.
              Inr (a\<lparr> ac_withdraw_routes := to_uint16 (ac_withdraw_routes a + 1) \<rparr>)))))
       | Some itr \<Rightarrow>
           if swr_percent o1 = 0 then
             modify_account (db\<lparr> db_routes := tbl_erase itr (db_routes db) \<rparr>) f (\<lambda>a.
               Inr (a\<lparr> ac_withdraw_routes := to_uint16 (ac_withdraw_routes a - 1) \<rparr>))
           else
             bindE (tbl_modify (is_route f t) (\<lambda>r. Inr (r\<lparr> wvr_from_account := f, wvr_to_account := t,
                 wvr_percent := swr_percent o1, wvr_auto_vest := swr_auto_vest o1 \<rparr>)) (db_routes db)) (\<lambda>rt.
             Inr (db\<lparr> db_routes := rt \<rparr>)))"

definition total_percent :: "database \<Rightarrow> account_name_type \<Rightarrow> int" where
  "total_percent db f = foldl (\<lambda>t r. to_uint16 (t + wvr_percent r)) 0 (routes_of db f)"

definition set_withdraw_vesting_route_do_apply ::
  "database \<Rightarrow> set_withdraw_vesting_route_operation \<Rightarrow> database res" where
  "set_withdraw_vesting_route_do_apply db o1 =
     bindE (get_account db (swr_from_account o1)) (\<lambda>from_account.
     bindE (get_account db (swr_to_account o1)) (\<lambda>to_account.
     bindE (change_route db o1 from_account to_account) (\<lambda>db.
     fc_assert 1034 (total_percent db (ac_name from_account) \<le> STEEM_100_PERCENT) (Inr db))))"

section \<open>Processing due withdrawals\<close>

definition withdraw_amount :: "account_object \<Rightarrow> int res" where
  "withdraw_amount a =
     bindE (safe_sub (ac_to_withdraw a) (ac_withdrawn a)) (\<lambda>left.
     let rate = amount (ac_vesting_withdraw_rate a); shares = amount (ac_vesting_shares a) in
     if left < rate then
       bindE (safe_mod (ac_to_withdraw a) rate) (\<lambda>m. Inr (min shares m))
     else Inr (min shares rate))"

definition route_deposit :: "int \<Rightarrow> withdraw_vesting_route_object \<Rightarrow> int res" where
  "route_deposit to_withdraw r =
     (let x = to_uint128 (to_uint128 to_withdraw * wvr_percent r) div STEEM_100_PERCENT in
      fc_assert 97 (x < two64) (Inr (to_int64 x)))"

definition gain_vests :: "int \<Rightarrow> account_object \<Rightarrow> account_object res" where
  "gain_vests to_deposit a =
     bindE (safe_add (amount (ac_vesting_shares a)) to_deposit) (\<lambda>v.
     Inr (a\<lparr> ac_vesting_shares := (ac_vesting_shares a)\<lparr> amount := v \<rparr> \<rparr>))"

definition gain_steem :: "asset \<Rightarrow> account_object \<Rightarrow> account_object res" where
  "gain_steem converted_steem a =
     bindE (asset_add (ac_balance a) converted_steem) (\<lambda>b. Inr (a\<lparr> ac_balance := b \<rparr>))"

definition deposit_vests ::
  "int \<Rightarrow> withdraw_vesting_route_object \<Rightarrow> database \<times> int \<Rightarrow> (database \<times> int) res" where
  "deposit_vests to_withdraw r = (\<lambda>(db, as_vests).
     if wvr_auto_vest r then
       bindE (route_deposit to_withdraw r) (\<lambda>to_deposit.
       bindE (safe_add as_vests to_deposit) (\<lambda>as_vests.
       if to_deposit > 0 then
         bindE (get_account db (wvr_to_account r)) (\<lambda>to_account.
         bindE (modify_account db (ac_name to_account) (gain_vests to_deposit)) (\<lambda>db.
         bindE (adjust_proxied_witness_votes db (ac_name to_account) to_deposit 0) (\<lambda>db.
         Inr (db, as_vests))))
       else Inr (db, as_vests)))
     else Inr (db, as_vests))"

definition leave_vesting_fund ::
  "asset \<Rightarrow> int \<Rightarrow> dynamic_global_property_object \<Rightarrow> dynamic_global_property_object res" where
  "leave_vesting_fund steem vests g =
     bindE (asset_sub (dgp_total_vesting_fund_steem g) steem) (\<lambda>f.
     bindE (safe_sub (amount (dgp_total_vesting_shares g)) vests) (\<lambda>v.
     Inr (g\<lparr> dgp_total_vesting_fund_steem := f,
             dgp_total_vesting_shares := (dgp_total_vesting_shares g)\<lparr> amount := v \<rparr> \<rparr>)))"

definition deposit_steem ::
  "int \<Rightarrow> withdraw_vesting_route_object \<Rightarrow> database \<times> int \<times> asset \<Rightarrow> (database \<times> int \<times> asset) res" where
  "deposit_steem to_withdraw r = (\<lambda>(db, as_steem, total_steem_converted).
     if \<not> wvr_auto_vest r then
       bindE (get_account db (wvr_to_account r)) (\<lambda>to_account.
       bindE (route_deposit to_withdraw r) (\<lambda>to_deposit.
       bindE (safe_add as_steem to_deposit) (\<lambda>as_steem.
       bindE (get_vesting_share_price (db_dgp db)) (\<lambda>share_price.
       bindE (asset_mul_price (mk_asset to_deposit VESTS_SYMBOL) share_price) (\<lambda>converted_steem.
       bindE (asset_add total_steem_converted converted_steem) (\<lambda>total_steem_converted.
       if to_deposit > 0 then
         bindE (modify_account db (ac_name to_account) (gain_steem converted_steem)) (\<lambda>db.
         bindE (modify_dgp db (leave_vesting_fund converted_steem to_deposit)) (\<lambda>db.
         Inr (db, as_steem, total_steem_converted)))
       else Inr (db, as_steem, total_steem_converted)))))))
     else Inr (db, as_steem, total_steem_converted))"

definition pay_withdrawal :: "int \<Rightarrow> asset \<Rightarrow> account_object \<Rightarrow> account_object res" where
  "pay_withdrawal to_withdraw converted_steem a =
     bindE (safe_sub (amount (ac_vesting_shares a)) to_withdraw) (\<lambda>v.
     bindE (asset_add (ac_balance a) converted_steem) (\<lambda>b.
     bindE (safe_add (ac_withdrawn a) to_withdraw) (\<lambda>w.
     let a = a\<lparr> ac_vesting_shares := (ac_vesting_shares a)\<lparr> amount := v \<rparr>, ac_balance := b, ac_withdrawn := w \<rparr> in
     if w \<ge> ac_to_withdraw a \<or> v = 0 then
       Inr (a\<lparr> ac_vesting_withdraw_rate := (ac_vesting_withdraw_rate a)\<lparr> amount := 0 \<rparr>,
               ac_next_vesting_withdrawal := time_maximum \<rparr>)
     else
       Inr (a\<lparr> ac_next_vesting_withdrawal :=
                 to_uint32 (ac_next_vesting_withdrawal a + STEEM_VESTING_WITHDRAW_INTERVAL_SECONDS) \<rparr>))))"

definition process_vesting_withdrawal :: "database \<Rightarrow> account_name_type \<Rightarrow> database res" where
  "process_vesting_withdrawal db n =
     bindE (get_account db n) (\<lambda>from_account.
     bindE (withdraw_amount from_account) (\<lambda>to_withdraw.
     bindE (foldE (deposit_vests to_withdraw) (routes_of db n) (db, 0)) (\<lambda>(db, as_vests).
     bindE (foldE (deposit_steem to_withdraw) (routes_of db n) (db, 0, mk_asset 0 STEEM_SYMBOL)) (\<lambda>(db, as_steem, total).
     bindE (safe_sub to_withdraw as_steem) (\<lambda>x.
     bindE (safe_sub x as_vests) (\<lambda>to_convert.
     fc_assert 1479 (to_convert \<ge> 0)
     (bindE (get_vesting_share_price (db_dgp db)) (\<lambda>share_price.
      bindE (asset_mul_price (mk_asset to_convert VESTS_SYMBOL) share_price) (\<lambda>converted_steem.
      bindE (modify_account db n (pay_withdrawal to_withdraw converted_steem)) (\<lambda>db.
      bindE (modify_dgp db (leave_vesting_fund converted_steem to_convert)) (\<lambda>db.
      if to_withdraw > 0 then
        bindE (safe_neg to_withdraw) (\<lambda>m. adjust_proxied_witness_votes db n m 0)
      else Inr db)))))))))))"

text \<open>The walk over \<open>by_next_vesting_withdrawal\<close>.  The iterator is advanced before the account it
  pointed to is rescheduled, so an account comes up a second time exactly when its new key is due
  and lies behind the entry the iterator already points to.\<close>

type_synonym withdrawal_key = "time_point_sec \<times> account_name_type"

definition due_again :: "time_point_sec \<Rightarrow> withdrawal_key \<Rightarrow> withdrawal_key list \<Rightarrow> time_point_sec \<Rightarrow> bool" where
  "due_again now k rest t \<longleftrightarrow>
     fst k < t \<and> t \<le> now \<and> (case rest of [] \<Rightarrow> False | next # _ \<Rightarrow> next < (t, snd k))"

function withdrawal_loop :: "time_point_sec \<Rightarrow> withdrawal_key list \<Rightarrow> database \<Rightarrow> database res" where
  "withdrawal_loop now [] db = Inr db"
| "withdrawal_loop now (k # rest) db =
     bindE (process_vesting_withdrawal db (snd k)) (\<lambda>db.
     bindE (get_account db (snd k)) (\<lambda>a.
     let t = ac_next_vesting_withdrawal a in
     if due_again now k rest t then withdrawal_loop now (insort (t, snd k) rest) db
     else withdrawal_loop now rest db))"
  by pat_completeness auto
termination
proof (relation "measure (\<lambda>(now, ks, db). sum_list (map (\<lambda>k. nat (now - fst k) + 1) ks))", goal_cases)
  case (2 now k rest db db1 a t)
  have "sum_list (map (\<lambda>k. nat (now - fst k) + 1) (insort x rest)) =
      nat (now - fst x) + 1 + sum_list (map (\<lambda>k. nat (now - fst k) + 1) rest)" for x :: withdrawal_key
    by (induction rest) auto
  with 2 show ?case by (simp add: due_again_def)
qed auto

definition process_vesting_withdrawals :: "database \<Rightarrow> database res" where
  "process_vesting_withdrawals db =
     (let now = head_block_time db in
      withdrawal_loop now
        (takeWhile (\<lambda>k. fst k \<le> now)
          (sort (map (\<lambda>a. (ac_next_vesting_withdrawal a, ac_name a)) (rows (db_accounts db))))) db)"

section \<open>Delegation\<close>

definition delegation_clash :: "vesting_delegation_object \<Rightarrow> vesting_delegation_object \<Rightarrow> bool" where
  "delegation_clash x y \<longleftrightarrow> vd_delegator x = vd_delegator y \<and> vd_delegatee x = vd_delegatee y"

definition is_delegation :: "account_name_type \<Rightarrow> account_name_type \<Rightarrow> vesting_delegation_object \<Rightarrow> bool" where
  "is_delegation r e d \<longleftrightarrow> vd_delegator d = r \<and> vd_delegatee d = e"

definition add_delegated :: "database \<Rightarrow> account_name_type \<Rightarrow> asset \<Rightarrow> database res" where
  "add_delegated db n x = modify_account db n (\<lambda>a.
     bindE (asset_add (ac_delegated_vesting_shares a) x) (\<lambda>v. Inr (a\<lparr> ac_delegated_vesting_shares := v \<rparr>)))"

definition sub_delegated :: "database \<Rightarrow> account_name_type \<Rightarrow> asset \<Rightarrow> database res" where
  "sub_delegated db n x = modify_account db n (\<lambda>a.
     bindE (asset_sub (ac_delegated_vesting_shares a) x) (\<lambda>v. Inr (a\<lparr> ac_delegated_vesting_shares := v \<rparr>)))"

definition add_received :: "database \<Rightarrow> account_name_type \<Rightarrow> asset \<Rightarrow> database res" where
  "add_received db n x = modify_account db n (\<lambda>a.
     bindE (asset_add (ac_received_vesting_shares a) x) (\<lambda>v. Inr (a\<lparr> ac_received_vesting_shares := v \<rparr>)))"

definition sub_received :: "database \<Rightarrow> account_name_type \<Rightarrow> asset \<Rightarrow> database res" where
  "sub_received db n x = modify_account db n (\<lambda>a.
     bindE (asset_sub (ac_received_vesting_shares a) x) (\<lambda>v. Inr (a\<lparr> ac_received_vesting_shares := v \<rparr>)))"

definition set_delegation :: "database \<Rightarrow> delegate_vesting_shares_operation \<Rightarrow> database res" where
  "set_delegation db o1 =
     bindE (tbl_modify (is_delegation (dvs_delegator o1) (dvs_delegatee o1))
       (\<lambda>d. Inr (d\<lparr> vd_vesting_shares := dvs_vesting_shares o1 \<rparr>)) (db_delegations db)) (\<lambda>t.
     Inr (db\<lparr> db_delegations := t \<rparr>))"

definition create_delegation ::
  "database \<Rightarrow> account_name_type \<Rightarrow> account_name_type \<Rightarrow> asset \<Rightarrow> time_point_sec \<Rightarrow> database res" where
  "create_delegation db delegator delegatee shares t =
     bindE (tbl_create delegation_clash (\<lambda>i. \<lparr>
         vd_id = i, vd_delegator = delegator, vd_delegatee = delegatee, vd_vesting_shares = shares,
         vd_min_delegation_time = t \<rparr>) (db_delegations db)) (\<lambda>t.
     Inr (db\<lparr> db_delegations := t \<rparr>))"

definition delegate_new :: "database \<Rightarrow> delegate_vesting_shares_operation \<Rightarrow> asset \<Rightarrow> asset \<Rightarrow> database res" where
  "delegate_new db op available min_delegation =
     bindE (asset_ge available (dvs_vesting_shares op)) (\<lambda>c1.
     fc_assert 1898 c1
     (bindE (asset_ge (dvs_vesting_shares op) min_delegation) (\<lambda>c2.
      fc_assert 1899 c2
      (bindE (create_delegation db (dvs_delegator op) (dvs_delegatee op) (dvs_vesting_shares op) (head_block_time db)) (\<lambda>db.
       bindE (add_delegated db (dvs_delegator op) (dvs_vesting_shares op)) (\<lambda>db.
       add_received db (dvs_delegatee op) (dvs_vesting_shares op)))))))"

definition delegate_more ::
  "database \<Rightarrow> delegate_vesting_shares_operation \<Rightarrow> vesting_delegation_object \<Rightarrow> asset \<Rightarrow> asset \<Rightarrow> database res" where
  "delegate_more db op d available min_update =
     bindE (asset_sub (dvs_vesting_shares op) (vd_vesting_shares d)) (\<lambda>delta.
     bindE (asset_ge delta min_update) (\<lambda>c1.
     fc_assert 1924 c1
     (bindE (asset_ge available delta) (\<lambda>c2.
      fc_assert 1925 c2
      (bindE (add_delegated db (dvs_delegator op) delta) (\<lambda>db.
       bindE (add_received db (dvs_delegatee op) delta) (\<lambda>db.
       set_delegation db op)))))))"

definition delegate_less ::
  "database \<Rightarrow> delegate_vesting_shares_operation \<Rightarrow> vesting_delegation_object \<Rightarrow> asset \<Rightarrow> asset \<Rightarrow> database res" where
  "delegate_less db op d min_delegation min_update =
     bindE (asset_sub (vd_vesting_shares d) (dvs_vesting_shares op)) (\<lambda>delta.
     bindE (if amount (dvs_vesting_shares op) > 0 then
              bindE (asset_ge delta min_update) (\<lambda>c1.
              fc_assert 1949 c1
              (bindE (asset_ge (dvs_vesting_shares op) min_delegation) (\<lambda>c2. fc_assert 1950 c2 (Inr ()))))
            else fc_assert 1954 (amount (vd_vesting_shares d) > 0) (Inr ())) (\<lambda>_.
     bindE (tbl_create (\<lambda>x y. False) (\<lambda>i. \<lparr>
         vde_id = i, vde_delegator = dvs_delegator op, vde_vesting_shares = delta,
         vde_expiration = max (to_uint32 (head_block_time db + dgp_delegation_return_period (db_dgp db)))
           (vd_min_delegation_time d) \<rparr>) (db_delegation_expirations db)) (\<lambda>et.
     bindE (sub_received (db\<lparr> db_delegation_expirations := et \<rparr>) (dvs_delegatee op) delta) (\<lambda>db.
     if amount (dvs_vesting_shares op) > 0 then set_delegation db op
     else Inr (db\<lparr> db_delegations := tbl_erase d (db_delegations db) \<rparr>)))))"

definition min_delegations :: "database \<Rightarrow> (asset \<times> asset) res" where
  "min_delegations db =
     (let fee = amount (cp_account_creation_fee (wso_median_props (db_wso db))) in
      bindE (safe_div fee 3) (\<lambda>x.
      bindE (get_vesting_share_price (db_dgp db)) (\<lambda>p.
      bindE (asset_mul_price (mk_asset x STEEM_SYMBOL) p) (\<lambda>min_delegation.
      bindE (safe_div fee 30) (\<lambda>y.
      bindE (asset_mul_price (mk_asset y STEEM_SYMBOL) p) (\<lambda>min_update.
      Inr (min_delegation, min_update)))))))"

definition available_shares :: "account_object \<Rightarrow> asset res" where
  "available_shares a =
     bindE (asset_sub (ac_vesting_shares a) (ac_delegated_vesting_shares a)) (\<lambda>x.
     bindE (safe_sub (ac_to_withdraw a) (ac_withdrawn a)) (\<lambda>y.
     asset_sub x (mk_asset y VESTS_SYMBOL)))"

definition delegate_vesting_shares_do_apply :: "database \<Rightarrow> delegate_vesting_shares_operation \<Rightarrow> database res" where
  "delegate_vesting_shares_do_apply db op =
     bindE (get_account db (dvs_delegator op)) (\<lambda>delegator.
     bindE (get_account db (dvs_delegatee op)) (\<lambda>delegatee.
     bindE (available_shares delegator) (\<lambda>available.
     bindE (min_delegations db) (\<lambda>(min_delegation, min_update).
     case tbl_find (is_delegation (dvs_delegator op) (dvs_delegatee op)) (db_delegations db) of
       None \<Rightarrow> delegate_new db op available min_delegation
     | Some d \<Rightarrow>
         bindE (asset_ge (dvs_vesting_shares op) (vd_vesting_shares d)) (\<lambda>ge.
         if ge then delegate_more db op d available min_update
         else delegate_less db op d min_delegation min_update)))))"

definition return_delegation :: "vesting_delegation_expiration_object \<Rightarrow> database \<Rightarrow> database res" where
  "return_delegation e db =
     bindE (sub_delegated db (vde_delegator e) (vde_vesting_shares e)) (\<lambda>db.
     Inr (db\<lparr> db_delegation_expirations := tbl_erase e (db_delegation_expirations db) \<rparr>))"

definition clear_expired_delegations :: "database \<Rightarrow> database res" where
  "clear_expired_delegations db =
     foldE return_delegation
       (takeWhile (\<lambda>e. vde_expiration e < head_block_time db)
         (sort_key (\<lambda>e. (vde_expiration e, vde_id e)) (rows (db_delegation_expirations db)))) db"

section \<open>Conservation\<close>

lemma modify_account_hold_in:
  assumes "modify_account db n f = Inr db'"
    and "\<And>a a'. a \<in> set (rows (db_accounts db)) \<Longrightarrow> f a = Inr a' \<Longrightarrow>
      (\<forall>s. acc_hold a' s = acc_hold a s + h s) \<and> amount (ac_reward_vesting_steem a') = amount (ac_reward_vesting_steem a)"
  shows "slack db' s = slack db s - h s" and "pending_slack db' = pending_slack db"
proof -
  from assms(1) obtain t where t: "tbl_modify (\<lambda>a. ac_name a = n) f (db_accounts db) = Inr t"
    and db': "db' = db\<lparr> db_accounts := t \<rparr>"
    by (auto simp: modify_account_def res_simps)
  from tbl_modify_find[OF t] obtain v v' where v: "tbl_find (\<lambda>a. ac_name a = n) (db_accounts db) = Some v" "f v = Inr v'"
    by blast
  have h: "\<forall>s. acc_hold v' s = acc_hold v s + h s" "amount (ac_reward_vesting_steem v') = amount (ac_reward_vesting_steem v)"
    using assms(2)[OF _ v(2)] tbl_find_Some[OF v(1)] by simp_all
  show "slack db' s = slack db s - h s"
    using tbl_modify_sum[OF t v, of "\<lambda>a. acc_hold a s"] h(1) by (simp add: db' ledger)
  show "pending_slack db' = pending_slack db"
    using tbl_modify_sum[OF t v, of "\<lambda>a. amount (ac_reward_vesting_steem a)"] h(2) by (simp add: db' ledger)
qed

lemma modify_account_credited_in:
  assumes "modify_account db n f = Inr db'"
    and "\<And>a a'. a \<in> set (rows (db_accounts db)) \<Longrightarrow> f a = Inr a' \<Longrightarrow> acc_credit d a a'"
  shows "credited d db db'"
  using modify_account_hold_in[OF assms(1), of "amt d"] assms(2) by (simp add: credited_def acc_credit_def)

lemma withdraw_vesting_modifies:
  assumes "withdraw_vesting_do_apply db o1 = Inr db'"
  obtains "db' = db" | "modify_account db (wd_account o1) stop_withdrawal = Inr db'"
    | "modify_account db (wd_account o1) (start_withdrawal (head_block_time db) (amount (wd_vesting_shares o1))) = Inr db'"
  using assms unfolding withdraw_vesting_do_apply_def
  by (auto simp: bindE_eq_Inr fc_assert_eq_Inr split: if_splits)

lemma withdrawal_fields:
  "stop_withdrawal a = Inr a' \<Longrightarrow> same_holdings a a'"
  "start_withdrawal now v a = Inr a' \<Longrightarrow> same_holdings a a'"
  by (auto simp: stop_withdrawal_def start_withdrawal_def bindE_eq_Inr fc_assert_eq_Inr Let_def same_holdings_def)

lemma withdraw_vesting_same: "withdraw_vesting_do_apply db o1 = Inr db' \<Longrightarrow> ledger_same db db'"
  by (erule withdraw_vesting_modifies) (auto intro: modify_account_same withdrawal_fields)

lemma modify_routes_same:
  assumes "modify_account (db\<lparr> db_routes := t \<rparr>) n f = Inr db'" "\<And>a a'. f a = Inr a' \<Longrightarrow> same_holdings a a'"
  shows "ledger_same db db'"
  using modify_account_same[OF assms] by (simp add: ledger_same_def)

lemma change_route_same:
  assumes "change_route db o1 fa ta = Inr db'"
  shows "ledger_same db db'"
proof (cases "tbl_find (is_route (ac_name fa) (ac_name ta)) (db_routes db)")
  case None
  with assms obtain rt where "modify_account (db\<lparr> db_routes := rt \<rparr>) (ac_name fa) (\<lambda>a.
      Inr (a\<lparr> ac_withdraw_routes := to_uint16 (ac_withdraw_routes a + 1) \<rparr>)) = Inr db'"
    by (auto simp: change_route_def Let_def bindE_eq_Inr fc_assert_eq_Inr)
  then show ?thesis by (rule modify_routes_same) (auto simp: same_holdings_def)
next
  case (Some itr)
  with assms consider "modify_account (db\<lparr> db_routes := tbl_erase itr (db_routes db) \<rparr>) (ac_name fa) (\<lambda>a.
               Inr (a\<lparr> ac_withdraw_routes := to_uint16 (ac_withdraw_routes a - 1) \<rparr>)) = Inr db'"
    | rt where "db' = db\<lparr> db_routes := rt \<rparr>"
    by (auto simp: change_route_def Let_def bindE_eq_Inr split: if_splits)
  then show ?thesis
  proof cases
    case 1
    then show ?thesis by (rule modify_routes_same) (auto simp: same_holdings_def)
  qed (simp add: ledger_same_def)
qed

lemma set_withdraw_vesting_route_same:
  "set_withdraw_vesting_route_do_apply db o1 = Inr db' \<Longrightarrow> ledger_same db db'"
  by (auto simp: set_withdraw_vesting_route_do_apply_def bindE_eq_Inr fc_assert_eq_Inr dest: change_route_same)

text \<open>The fields that hold vesting shares carry the symbol VESTS, and the amounts are 64-bit integers.\<close>

definition account_typed :: "account_object \<Rightarrow> bool" where
  "account_typed a \<longleftrightarrow> symbol (ac_vesting_shares a) = VESTS_SYMBOL \<and> in_int64 (amount (ac_vesting_shares a)) \<and>
     in_int64 (amount (ac_vesting_withdraw_rate a)) \<and> in_int64 (ac_to_withdraw a)"

definition vests_typed :: "database \<Rightarrow> bool" where
  "vests_typed db \<longleftrightarrow>
     list_all account_typed (rows (db_accounts db)) \<and>
     list_all (\<lambda>r. 0 \<le> wvr_percent r \<and> wvr_percent r \<le> STEEM_100_PERCENT) (rows (db_routes db)) \<and>
     symbol (dgp_total_vesting_shares (db_dgp db)) = VESTS_SYMBOL"

lemma modify_account_all:
  assumes "modify_account db n f = Inr db'" and "\<And>a a'. f a = Inr a' \<Longrightarrow> P a \<Longrightarrow> P a'"
    and "list_all P (rows (db_accounts db))"
  shows "list_all P (rows (db_accounts db'))"
proof -
  from assms(1) obtain t where t: "tbl_modify (\<lambda>a. ac_name a = n) f (db_accounts db) = Inr t"
    and db': "db' = db\<lparr> db_accounts := t \<rparr>"
    by (auto simp: modify_account_def res_simps)
  have "P v" if "v \<in> set (rows t)" for v
    using tbl_modify_rows[OF t that] assms(2,3) by (auto simp: list_all_iff)
  then show ?thesis by (simp add: db' list_all_iff)
qed

lemma modify_account_typed:
  assumes "modify_account db n f = Inr db'"
    and "\<And>a a'. f a = Inr a' \<Longrightarrow> account_typed a \<Longrightarrow> account_typed a'"
    and "vests_typed db"
  shows "vests_typed db'"
  using modify_account_all[OF assms(1,2)] modify_account_fields[OF assms(1)] assms(3)
  by (auto simp: vests_typed_def)

lemma modify_dgp_typed:
  assumes "modify_dgp db f = Inr db'"
    and "\<And>g g'. f g = Inr g' \<Longrightarrow> symbol (dgp_total_vesting_shares g') = symbol (dgp_total_vesting_shares g)"
    and "vests_typed db"
  shows "vests_typed db'"
  using assms by (auto simp: modify_dgp_def vests_typed_def res_simps)

interpretation vote_typed: vote_frame "\<lambda>db db'. vests_typed db \<longrightarrow> vests_typed db'"
proof unfold_locales
  fix db n f db' assume "modify_witness db n f = Inr db'"
  then show "vests_typed db \<longrightarrow> vests_typed db'"
    by (auto simp: modify_witness_def res_simps vests_typed_def)
next
  fix db n g db' assume m: "modify_account db n g = Inr db'"
    and g: "\<And>a a'. g a = Inr a' \<Longrightarrow> \<exists>v. a' = a\<lparr> ac_proxied_vsf_votes := v \<rparr>"
  have "account_typed a'" if "g a = Inr a'" "account_typed a" for a a'
    using g[OF that(1)] that(2) by (auto simp: account_typed_def)
  then show "vests_typed db \<longrightarrow> vests_typed db'" by (blast intro: modify_account_typed[OF m])
qed auto

definition vests_moved :: "int \<Rightarrow> database \<Rightarrow> database \<Rightarrow> bool" where
  "vests_moved x db db' \<longleftrightarrow> credited (mk_asset x VESTS_SYMBOL) db db' \<and> vests_typed db' \<and> db_routes db' = db_routes db"

lemma vests_moved_refl [intro, simp]: "vests_typed db \<Longrightarrow> vests_moved 0 db db"
  by (simp add: vests_moved_def credited_def)

lemma vests_moved_trans: "vests_moved x a b \<Longrightarrow> vests_moved y b c \<Longrightarrow> vests_moved (x + y) a c"
  by (auto simp: vests_moved_def credited_def)

lemma vests_movedI:
  assumes "credited d a b" "symbol d = VESTS_SYMBOL" "amount d = x" "vests_typed b" "core_frame a b"
  shows "vests_moved x a b"
  using assms by (auto simp: vests_moved_def credited_def amt_def core_frameD(13))

lemma votes_moved:
  assumes "adjust_proxied_witness_votes db n v d = Inr db'" "vests_typed db"
  shows "vests_moved 0 db db'"
  using vote_typed.adjust_proxied_frame[OF assms(1)] vote_core.adjust_proxied_frame[OF assms(1)]
    adjust_proxied_same[OF assms(1)] assms(2)
  by (simp add: vests_moved_def credited_def ledger_same_def core_frameD(13))

lemma safe_in_int64: 
  "safe_add x y = Inr z \<Longrightarrow> in_int64 x \<Longrightarrow> in_int64 z" 
  "safe_sub x y = Inr z \<Longrightarrow> in_int64 x \<Longrightarrow> in_int64 z" 
  by (auto simp: safe_add_def safe_sub_def in_int64_def split: if_splits)

text \<open>A route receives nothing of a negative amount: its 128-bit product is refused.\<close>

lemma route_deposit_nonneg:
  assumes "route_deposit w r = Inr x" "in_int64 w" "0 \<le> wvr_percent r" "wvr_percent r \<le> 10000"
  shows "0 \<le> x"
proof (cases "0 \<le> w")
  case True
  have "w * wvr_percent r \<le> w * 10000" using assms True by (intro mult_left_mono) auto
  moreover have "w \<le> 9223372036854775807" using assms(2) by (simp add: in_int64_def)
  ultimately have "0 \<le> w * wvr_percent r" "w * wvr_percent r \<le> 92233720368547758070000" "w < two128"
    using True assms(3) by auto
  with assms True show ?thesis
    by (auto simp: route_deposit_def Let_def res_simps in_int64_def to_int64_def pos_imp_zdiv_nonneg_iff)
next
  case False
  then have w: "to_uint128 w = w + two128" using assms(2)
    by (simp add: to_uint128_def in_int64_def) (smt (verit) mod_add_self2 mod_pos_pos_trivial)
  have e: "to_uint128 (to_uint128 w * wvr_percent r) = (w * wvr_percent r) mod two128"
    unfolding w by (simp add: to_uint128_def distrib_right)
  show ?thesis
  proof (cases "wvr_percent r = 0")
    case False
    have "w * wvr_percent r \<ge> w * 10000" using assms \<open>\<not> 0 \<le> w\<close> by (intro mult_left_mono_neg) auto
    moreover have "w * wvr_percent r < 0" using \<open>\<not> 0 \<le> w\<close> assms(3) False by (simp add: mult_less_0_iff)
    moreover have "w \<ge> -9223372036854775808" using assms(2) by (simp add: in_int64_def)
    ultimately have m: "(w * wvr_percent r) mod two128 = w * wvr_percent r + two128"
      and b: "two64 * 10000 \<le> w * wvr_percent r + two128"
      by (smt (verit) mod_add_self2 mod_pos_pos_trivial)+
    from zdiv_mono1[OF b, of 10000] have "\<not> to_uint128 (to_uint128 w * wvr_percent r) div 10000 < two64"
      unfolding e m by simp
    with assms(1) show ?thesis by (simp add: route_deposit_def)
  qed (use assms in \<open>simp add: route_deposit_def Let_def res_simps to_uint128_def to_int64_def\<close>)
qed

lemma amt_amount_add: "amt (x\<lparr> amount := amount x + d \<rparr>) s = amt x s + amt (mk_asset d (symbol x)) s"
  by (simp add: amt_def)

lemma amt_amount_sub: "amt (x\<lparr> amount := amount x - d \<rparr>) s = amt x s - amt (mk_asset d (symbol x)) s"
  by (simp add: amt_def)

lemma gain_vests_credit:
  assumes "gain_vests x a = Inr a'" "account_typed a"
  shows "acc_credit (mk_asset x VESTS_SYMBOL) a a'" and "account_typed a'"
proof -
  obtain v where v: "safe_add (amount (ac_vesting_shares a)) x = Inr v"
    and a': "a' = a\<lparr> ac_vesting_shares := (ac_vesting_shares a)\<lparr> amount := v \<rparr> \<rparr>"
    using assms(1) by (auto simp: gain_vests_def bindE_eq_Inr)
  show "account_typed a'"
    using assms(2) safe_in_int64(1)[OF v] by (simp add: a' account_typed_def)
  show "acc_credit (mk_asset x VESTS_SYMBOL) a a'"
    using assms(2) unfolding a' safe_add_value[OF v]
    by (simp add: acc_credit_def acc_hold_def account_typed_def amt_amount_add del: amt_mk_asset)
qed

lemma deposit_vests_moved:
  assumes "deposit_vests w r (db, v) = Inr (db', v')" "vests_typed db" "in_int64 w" "r \<in> set (rows (db_routes db))"
  shows "vests_moved (v' - v) db db'"
proof -
  have p: "0 \<le> wvr_percent r" "wvr_percent r \<le> 10000" using assms(2,4) by (auto simp: vests_typed_def list_all_iff)
  consider (none) "db' = db" "v' = v" | (zero) x where "route_deposit w r = Inr x" "v' = v + x" "\<not> x > 0" "db' = db"
    | (pay) x n db1 where "v' = v + x"
       "modify_account db n (gain_vests x) = Inr db1"
       "adjust_proxied_witness_votes db1 n x 0 = Inr db'"
    using assms(1) by (auto simp: deposit_vests_def bindE_eq_Inr split: if_splits dest!: safe_add_value)
  then show ?thesis
  proof cases
    case none
    with assms(2) show ?thesis by simp
  next
    case zero
    with route_deposit_nonneg[OF zero(1) assms(3) p] assms(2) show ?thesis by simp
  next
    case pay
    have "credited (mk_asset x VESTS_SYMBOL) db db1"
      by (rule modify_account_credited_in[OF pay(2)])
        (use assms(2) gain_vests_credit in \<open>auto simp: vests_typed_def list_all_iff\<close>)
    moreover have t: "vests_typed db1"
      by (rule modify_account_typed[OF pay(2) _ assms(2)]) (rule gain_vests_credit)
    ultimately have "vests_moved x db db1"
      using modify_account_frame[OF pay(2)] by (intro vests_movedI) auto
    from vests_moved_trans[OF this votes_moved[OF pay(3) t]] pay(1) show ?thesis by simp
  qed
qed

lemma leave_fund_moved:
  assumes m: "modify_account db n f = Inr db1" and g: "modify_dgp db1 (leave_vesting_fund c x) = Inr db'"
    and t: "vests_typed db"
    and f: "\<And>a a'. f a = Inr a' \<Longrightarrow> account_typed a \<Longrightarrow> account_typed a' \<and>
      (\<forall>s. acc_hold a' s = acc_hold a s + (amt c s - amt (mk_asset w VESTS_SYMBOL) s)) \<and>
      amount (ac_reward_vesting_steem a') = amount (ac_reward_vesting_steem a)"
  shows "vests_moved (x - w) db db'"
proof -
  have t1: "vests_typed db1" using modify_account_typed[OF m _ t] f by blast
  have f1: "(\<forall>s. acc_hold a' s = acc_hold a s + (amt c s - amt (mk_asset w VESTS_SYMBOL) s)) \<and>
      amount (ac_reward_vesting_steem a') = amount (ac_reward_vesting_steem a)"
    if "a \<in> set (rows (db_accounts db))" "f a = Inr a'" for a a'
    using f[OF that(2)] that(1) t unfolding vests_typed_def list_all_iff by blast
  have "slack db1 s = slack db s - (amt c s - amt (mk_asset w VESTS_SYMBOL) s)" for s
    by (rule modify_account_hold_in(1)[OF m f1])
  moreover have "pending_slack db1 = pending_slack db" by (rule modify_account_hold_in(2)[OF m f1])
  moreover have "slack db' s = slack db1 s + amt c s - amt (mk_asset x VESTS_SYMBOL) s" for s
    using g t1
    by (auto simp: modify_dgp_def leave_vesting_fund_def bindE_eq_Inr vests_typed_def ledger dgp_net_def amt_ops
        amt_amount_sub dest!: safe_sub_value)
  moreover have "pending_slack db' = pending_slack db1"
    using g by (auto simp: modify_dgp_def leave_vesting_fund_def bindE_eq_Inr ledger)
  ultimately have "credited (mk_asset (x - w) VESTS_SYMBOL) db db'" by (simp add: credited_def)
  moreover have "vests_typed db'"
    by (rule modify_dgp_typed[OF g _ t1]) (auto simp: leave_vesting_fund_def bindE_eq_Inr)
  ultimately show ?thesis
    using modify_account_frame[OF m] modify_dgp_frame[OF g] by (auto intro: vests_movedI core_frame_trans)
qed

lemma deposit_steem_moved:
  assumes "deposit_steem w r (db, v, tot) = Inr (db', v', tot')" "vests_typed db" "in_int64 w" "r \<in> set (rows (db_routes db))"
  shows "vests_moved (v' - v) db db'"
proof -
  have p: "0 \<le> wvr_percent r" "wvr_percent r \<le> 10000" using assms(2,4) by (auto simp: vests_typed_def list_all_iff)
  consider (none) "db' = db" "v' = v" | (zero) x where "route_deposit w r = Inr x" "v' = v + x" "\<not> x > 0" "db' = db"
    | (pay) x n db1 c where "modify_account db n (gain_steem c) = Inr db1"
       "modify_dgp db1 (leave_vesting_fund c x) = Inr db'" "v' = v + x"
    using assms(1) by (auto simp: deposit_steem_def bindE_eq_Inr split: if_splits dest!: safe_add_value)
  then show ?thesis
  proof cases
    case none
    with assms(2) show ?thesis by simp
  next
    case zero
    with route_deposit_nonneg[OF zero(1) assms(3) p] assms(2) show ?thesis by simp
  next
    case pay
    have "vests_moved (x - 0) db db'"
      by (rule leave_fund_moved[OF pay(1,2) assms(2)])
        (auto simp: gain_steem_def bindE_eq_Inr account_typed_def acc_hold_def amt_ops)
    with pay(3) show ?thesis by simp
  qed
qed

lemma foldE_moved:
  assumes "foldE f rs (db, v) = Inr (db', v')" "vests_typed db" "\<forall>r\<in>set rs. r \<in> set (rows (db_routes db))"
    and step: "\<And>r db v db' v'. f r (db, v) = Inr (db', v') \<Longrightarrow> vests_typed db \<Longrightarrow> r \<in> set (rows (db_routes db)) \<Longrightarrow>
      vests_moved (h v' - h v) db db'"
  shows "vests_moved (h v' - h v) db db'"
  using assms(1-3)
proof (induction rs arbitrary: db v)
  case (Cons r rs)
  then obtain db1 v1 where 1: "f r (db, v) = Inr (db1, v1)" "foldE f rs (db1, v1) = Inr (db', v')"
    by (auto simp: bindE_eq_Inr)
  have s: "vests_moved (h v1 - h v) db db1" using step[OF 1(1)] Cons.prems by simp
  then have "vests_typed db1" "db_routes db1 = db_routes db" by (auto simp: vests_moved_def)
  with Cons.IH[OF 1(2)] Cons.prems(3) have "vests_moved (h v' - h v1) db1 db'" by simp
  from vests_moved_trans[OF s this] show ?case by simp
qed simp

lemma crem_in_int64:
  assumes "in_int64 b" "b \<noteq> 0"
  shows "in_int64 (crem a b)"
proof -
  have "b * (sgn a * sgn b * q) = sgn a * (\<bar>b\<bar> * q)" for q by (simp add: abs_sgn mult_ac)
  then have "crem a b = sgn a * \<bar>a\<bar> - sgn a * (\<bar>b\<bar> * (\<bar>a\<bar> div \<bar>b\<bar>))"
    by (simp only: crem_def cdiv_def sgn_mult_abs)
  also have "\<dots> = sgn a * (\<bar>a\<bar> mod \<bar>b\<bar>)"
    by (simp add: minus_mult_div_eq_mod[symmetric] right_diff_distrib)
  finally have "\<bar>crem a b\<bar> \<le> \<bar>a\<bar> mod \<bar>b\<bar>" using assms(2) by (simp add: abs_mult abs_sgn_eq)
  moreover have "\<bar>a\<bar> mod \<bar>b\<bar> < \<bar>b\<bar>" using assms(2) by simp
  ultimately show ?thesis using assms(1) by (auto simp: in_int64_def)
qed

lemma withdraw_amount_in_int64:
  assumes "withdraw_amount a = Inr w" "account_typed a"
  shows "in_int64 w"
proof -
  obtain m where m: "w = min (amount (ac_vesting_shares a)) m"
    and "m = amount (ac_vesting_withdraw_rate a) \<or> safe_mod (ac_to_withdraw a) (amount (ac_vesting_withdraw_rate a)) = Inr m"
    using assms(1) by (auto simp: withdraw_amount_def Let_def bindE_eq_Inr split: if_splits)
  then have "in_int64 m"
    using assms(2) by (auto simp: safe_mod_def account_typed_def crem_in_int64 split: if_splits)
  with m assms(2) show ?thesis by (simp add: account_typed_def min_def)
qed

lemma routes_of_rows: "r \<in> set (routes_of db n) \<Longrightarrow> r \<in> set (rows (db_routes db))"
  by (simp add: routes_of_def)

lemma pay_withdrawal_hold:
  assumes "pay_withdrawal w c a = Inr a'" "account_typed a"
  shows "account_typed a' \<and> (\<forall>s. acc_hold a' s = acc_hold a s + (amt c s - amt (mk_asset w VESTS_SYMBOL) s)) \<and>
      amount (ac_reward_vesting_steem a') = amount (ac_reward_vesting_steem a)"
proof -
  obtain v b u where v: "safe_sub (amount (ac_vesting_shares a)) w = Inr v" and b: "asset_add (ac_balance a) c = Inr b"
    and u: "safe_add (ac_withdrawn a) w = Inr u"
    and e: "(let a = a\<lparr> ac_vesting_shares := (ac_vesting_shares a)\<lparr> amount := v \<rparr>, ac_balance := b, ac_withdrawn := u \<rparr> in
     if u \<ge> ac_to_withdraw a \<or> v = 0 then
       Inr (a\<lparr> ac_vesting_withdraw_rate := (ac_vesting_withdraw_rate a)\<lparr> amount := 0 \<rparr>,
               ac_next_vesting_withdrawal := time_maximum \<rparr>)
     else
       Inr (a\<lparr> ac_next_vesting_withdrawal :=
                 to_uint32 (ac_next_vesting_withdrawal a + STEEM_VESTING_WITHDRAW_INTERVAL_SECONDS) \<rparr>)) = (Inr a' :: account_object res)"
    using assms(1) unfolding pay_withdrawal_def bindE_eq_Inr by (elim exE conjE) (rule that, assumption+)
  have a': "ac_vesting_shares a' = (ac_vesting_shares a)\<lparr> amount := v \<rparr>" "ac_balance a' = b"
      "ac_savings_balance a' = ac_savings_balance a" "ac_reward_steem_balance a' = ac_reward_steem_balance a"
      "ac_sbd_balance a' = ac_sbd_balance a" "ac_savings_sbd_balance a' = ac_savings_sbd_balance a"
      "ac_reward_sbd_balance a' = ac_reward_sbd_balance a" "ac_reward_vesting_balance a' = ac_reward_vesting_balance a"
      "ac_reward_vesting_steem a' = ac_reward_vesting_steem a" "ac_to_withdraw a' = ac_to_withdraw a"
      "amount (ac_vesting_withdraw_rate a') \<in> {0, amount (ac_vesting_withdraw_rate a)}"
    using e by (auto simp: Let_def split: if_splits)
  have "account_typed a'"
    using assms(2) safe_in_int64(2)[OF v] a' by (auto simp: account_typed_def)
  moreover have "acc_hold a' s = acc_hold a s + (amt c s - amt (mk_asset w VESTS_SYMBOL) s)" for s
    using assms(2) unfolding acc_hold_def a' safe_sub_value[OF v] amt_asset_add[OF b]
    by (simp add: account_typed_def amt_amount_sub del: amt_mk_asset)
  ultimately show ?thesis using a'(9) by simp
qed

lemma process_vesting_withdrawal_moved:
  assumes run: "process_vesting_withdrawal db n = Inr db'" and t: "vests_typed db"
  shows "vests_moved 0 db db'"
proof -
  obtain a w db1 av db2 as tot x c p cs db3 db4 where
    a: "get_account db n = Inr a" and w: "withdraw_amount a = Inr w"
    and f1: "foldE (deposit_vests w) (routes_of db n) (db, 0) = Inr (db1, av)"
    and f2: "foldE (deposit_steem w) (routes_of db1 n) (db1, 0, mk_asset 0 STEEM_SYMBOL) = Inr (db2, as, tot)"
    and c: "safe_sub w as = Inr x" "safe_sub x av = Inr c"
    and p: "get_vesting_share_price (db_dgp db2) = Inr p" "asset_mul_price (mk_asset c VESTS_SYMBOL) p = Inr cs"
    and m: "modify_account db2 n (pay_withdrawal w cs) = Inr db3"
    and g: "modify_dgp db3 (leave_vesting_fund cs c) = Inr db4"
    and v: "(if w > 0 then bindE (safe_neg w) (\<lambda>m. adjust_proxied_witness_votes db4 n m 0) else Inr db4) = Inr db'"
    using run unfolding process_vesting_withdrawal_def
    by (auto simp: bindE_eq_Inr fc_assert_eq_Inr)
  have "account_typed a"
    using a t by (auto simp: get_account_def tbl_get_Inr vests_typed_def list_all_iff dest!: tbl_find_Some)
  with w have wi: "in_int64 w" by (rule withdraw_amount_in_int64)
  have 1: "vests_moved (id av - id 0) db db1"
    by (rule foldE_moved[OF f1 t]) (auto intro: deposit_vests_moved wi dest: routes_of_rows)
  then have t1: "vests_typed db1" by (simp add: vests_moved_def)
  have 2: "vests_moved (fst (as, tot) - fst (0, mk_asset 0 STEEM_SYMBOL)) db1 db2"
    by (rule foldE_moved[OF f2 t1]) (auto intro: deposit_steem_moved wi dest: routes_of_rows)
  then have t2: "vests_typed db2" by (simp add: vests_moved_def)
  have 3: "vests_moved (c - w) db2 db4"
    by (rule leave_fund_moved[OF m g t2 pay_withdrawal_hold])
  then have t4: "vests_typed db4" by (simp add: vests_moved_def)
  have 4: "vests_moved 0 db4 db'"
    using v t4 votes_moved[OF _ t4] by (auto simp: bindE_eq_Inr split: if_splits)
  from vests_moved_trans[OF vests_moved_trans[OF vests_moved_trans[OF 1 2] 3] 4] c show ?thesis
    by (auto dest!: safe_sub_value)
qed

lemma withdrawal_loop_moved:
  "withdrawal_loop now ks db = Inr db' \<Longrightarrow> vests_typed db \<Longrightarrow> vests_moved 0 db db'"
proof (induction now ks db arbitrary: db' rule: withdrawal_loop.induct)
  case (2 now k rest db)
  from 2(3) obtain db1 a where 1: "process_vesting_withdrawal db (snd k) = Inr db1" "get_account db1 (snd k) = Inr a"
    and r: "(if due_again now k rest (ac_next_vesting_withdrawal a)
       then withdrawal_loop now (insort (ac_next_vesting_withdrawal a, snd k) rest) db1
       else withdrawal_loop now rest db1) = Inr db'"
    by (auto simp: bindE_eq_Inr Let_def)
  have m: "vests_moved 0 db db1" by (rule process_vesting_withdrawal_moved[OF 1(1) 2(4)])
  then have t: "vests_typed db1" by (simp add: vests_moved_def)
  have "vests_moved 0 db1 db'" using 2(1,2)[OF 1 refl _ _ t] r by (auto split: if_splits)
  from vests_moved_trans[OF m this] show ?case by simp
qed simp

lemma process_vesting_withdrawals_same:
  assumes "process_vesting_withdrawals db = Inr db'" "vests_typed db"
  shows "ledger_same db db'"
  using withdrawal_loop_moved[OF assms(1)[unfolded process_vesting_withdrawals_def Let_def] assms(2)]
  by (simp add: vests_moved_def credited_def ledger_same_def)

section \<open>Delegations do not move assets\<close>

lemma delegation_step_same:
  "add_delegated db n x = Inr db' \<Longrightarrow> ledger_same db db'"
  "sub_delegated db n x = Inr db' \<Longrightarrow> ledger_same db db'"
  "add_received db n x = Inr db' \<Longrightarrow> ledger_same db db'"
  "sub_received db n x = Inr db' \<Longrightarrow> ledger_same db db'"
  unfolding add_delegated_def sub_delegated_def add_received_def sub_received_def
  by (erule modify_account_same, auto simp: bindE_eq_Inr same_holdings_def)+

lemma delegation_table_same:
  "set_delegation db o1 = Inr db' \<Longrightarrow> ledger_same db db'"
  "create_delegation db r e x t = Inr db' \<Longrightarrow> ledger_same db db'"
  by (auto simp: set_delegation_def create_delegation_def bindE_eq_Inr ledger_same_def)

lemmas delegation_same = delegation_step_same delegation_table_same

lemma delegate_new_same: "delegate_new db op av md = Inr db' \<Longrightarrow> ledger_same db db'"
  unfolding delegate_new_def
  by (auto simp: bindE_eq_Inr fc_assert_eq_Inr dest!: delegation_same intro: ledger_same_trans)

lemma delegate_more_same: "delegate_more db op d av mu = Inr db' \<Longrightarrow> ledger_same db db'"
  unfolding delegate_more_def
  by (auto simp: bindE_eq_Inr fc_assert_eq_Inr dest!: delegation_same intro: ledger_same_trans)

lemma delegate_less_same:
  assumes "delegate_less db op d md mu = Inr db'"
  shows "ledger_same db db'"
proof -
  obtain et delta db1 where 1: "sub_received (db\<lparr> db_delegation_expirations := et \<rparr>) (dvs_delegatee op) delta = Inr db1"
    and 2: "(if amount (dvs_vesting_shares op) > 0 then set_delegation db1 op
     else Inr (db1\<lparr> db_delegations := tbl_erase d (db_delegations db1) \<rparr>)) = Inr db'"
    using assms unfolding delegate_less_def bindE_eq_Inr by (elim exE conjE) (rule that, assumption+)
  have "ledger_same db db1" using delegation_same(4)[OF 1] by (simp add: ledger_same_def)
  also have "ledger_same db1 db'" using 2 by (auto split: if_splits dest: delegation_same simp: ledger_same_def)
  finally show ?thesis .
qed

lemma delegate_vesting_shares_same: "delegate_vesting_shares_do_apply db op = Inr db' \<Longrightarrow> ledger_same db db'"
  unfolding delegate_vesting_shares_do_apply_def
  by (auto simp: bindE_eq_Inr split: option.splits prod.splits if_splits
      dest: delegate_new_same delegate_more_same delegate_less_same)

lemma clear_expired_delegations_same: "clear_expired_delegations db = Inr db' \<Longrightarrow> ledger_same db db'"
  unfolding clear_expired_delegations_def
proof (erule foldE_rel)
  fix e t t' assume "return_delegation e t = Inr t'"
  then show "ledger_same t t'"
    by (auto simp: return_delegation_def bindE_eq_Inr ledger_same_def dest!: delegation_same(2))
qed (auto intro: ledger_same_trans)

section \<open>Delegated and received shares\<close>

definition delegated_out :: "database \<Rightarrow> account_name_type \<Rightarrow> int" where
  "delegated_out db n =
     tbl_sum (\<lambda>d. if vd_delegator d = n then amount (vd_vesting_shares d) else 0) (db_delegations db) +
     tbl_sum (\<lambda>e. if vde_delegator e = n then amount (vde_vesting_shares e) else 0) (db_delegation_expirations db)"

definition delegated_in :: "database \<Rightarrow> account_name_type \<Rightarrow> int" where
  "delegated_in db n =
     tbl_sum (\<lambda>d. if vd_delegatee d = n then amount (vd_vesting_shares d) else 0) (db_delegations db)"

text \<open>\<open>deleg_off db u v\<close>: the accounts are \<open>u\<close> short of what they delegated and \<open>v\<close> short of what
  they received.\<close>

definition deleg_off :: "database \<Rightarrow> (account_name_type \<Rightarrow> int) \<Rightarrow> (account_name_type \<Rightarrow> int) \<Rightarrow> bool" where
  "deleg_off db u v \<longleftrightarrow>
     distinct (map ac_name (rows (db_accounts db))) \<and>
     (\<forall>a\<in>set (rows (db_accounts db)).
        amount (ac_delegated_vesting_shares a) + u (ac_name a) = delegated_out db (ac_name a) \<and>
        amount (ac_received_vesting_shares a) + v (ac_name a) = delegated_in db (ac_name a))"

definition delegations_balanced :: "database \<Rightarrow> bool" where
  "delegations_balanced db \<longleftrightarrow>
     distinct (map ac_name (rows (db_accounts db))) \<and>
     list_all (\<lambda>a.
        amount (ac_delegated_vesting_shares a) = delegated_out db (ac_name a) \<and>
        amount (ac_received_vesting_shares a) = delegated_in db (ac_name a)) (rows (db_accounts db))"

definition at_name :: "account_name_type \<Rightarrow> int \<Rightarrow> account_name_type \<Rightarrow> int" where
  "at_name n x m = (if m = n then x else 0)"

lemma balanced_off: "delegations_balanced db \<longleftrightarrow> deleg_off db (\<lambda>_. 0) (\<lambda>_. 0)"
  by (simp add: delegations_balanced_def deleg_off_def list_all_iff)

lemma modify_account_off:
  assumes "modify_account db n f = Inr db'" "deleg_off db u v"
    and f: "\<And>a a'. f a = Inr a' \<Longrightarrow> ac_name a' = ac_name a \<and>
      amount (ac_delegated_vesting_shares a') = amount (ac_delegated_vesting_shares a) + x \<and>
      amount (ac_received_vesting_shares a') = amount (ac_received_vesting_shares a) + y"
  shows "deleg_off db' (\<lambda>m. u m - at_name n x m) (\<lambda>m. v m - at_name n y m)"
proof -
  from assms(1) obtain t where t: "tbl_modify (\<lambda>a. ac_name a = n) f (db_accounts db) = Inr t"
    and db': "db' = db\<lparr> db_accounts := t \<rparr>"
    by (auto simp: modify_account_def res_simps)
  have d: "distinct (map ac_name (rows (db_accounts db)))" using assms(2) by (simp add: deleg_off_def)
  from tbl_modify_key[OF t d] obtain a a' where a: "a \<in> set (rows (db_accounts db))" "ac_name a = n" "f a = Inr a'"
    and r: "rows t = map (\<lambda>x. if ac_name x = n then a' else x) (rows (db_accounts db))" by blast
  have n: "map ac_name (rows t) = map ac_name (rows (db_accounts db))"
    using f[OF a(3)] a(2) by (simp add: r)
  have o: "delegated_out db' = delegated_out db" "delegated_in db' = delegated_in db"
    by (simp_all add: fun_eq_iff delegated_out_def delegated_in_def db')
  have "distinct (map ac_name (rows (db_accounts db')))" using d n by (simp add: db')
  moreover have "amount (ac_delegated_vesting_shares b) + (u (ac_name b) - at_name n x (ac_name b)) = delegated_out db (ac_name b) \<and>
      amount (ac_received_vesting_shares b) + (v (ac_name b) - at_name n y (ac_name b)) = delegated_in db (ac_name b)"
    if "b \<in> set (rows (db_accounts db'))" for b
    using that assms(2) f[OF a(3)] a(1,2) by (auto simp: db' r deleg_off_def at_name_def)
  ultimately show ?thesis by (simp add: deleg_off_def o)
qed

lemma delegation_step_off:
  "add_delegated db n x = Inr db' \<Longrightarrow> deleg_off db u v \<Longrightarrow> deleg_off db' (\<lambda>m. u m - at_name n (amount x) m) v"
  "sub_delegated db n x = Inr db' \<Longrightarrow> deleg_off db u v \<Longrightarrow> deleg_off db' (\<lambda>m. u m + at_name n (amount x) m) v"
  "add_received db n x = Inr db' \<Longrightarrow> deleg_off db u v \<Longrightarrow> deleg_off db' u (\<lambda>m. v m - at_name n (amount x) m)"
  "sub_received db n x = Inr db' \<Longrightarrow> deleg_off db u v \<Longrightarrow> deleg_off db' u (\<lambda>m. v m + at_name n (amount x) m)"
proof -
  have z: "(\<lambda>m. w m - at_name n 0 m) = w" "(\<lambda>m. w m - at_name n (- y) m) = (\<lambda>m. w m + at_name n y m)" for w y
    by (simp_all add: fun_eq_iff at_name_def)
  show "add_delegated db n x = Inr db' \<Longrightarrow> deleg_off db u v \<Longrightarrow> deleg_off db' (\<lambda>m. u m - at_name n (amount x) m) v"
    unfolding add_delegated_def by (drule modify_account_off[where x = "amount x" and y = 0], assumption)
      (auto simp: bindE_eq_Inr z dest!: asset_add_value)
  show "sub_delegated db n x = Inr db' \<Longrightarrow> deleg_off db u v \<Longrightarrow> deleg_off db' (\<lambda>m. u m + at_name n (amount x) m) v"
    unfolding sub_delegated_def by (drule modify_account_off[where x = "- amount x" and y = 0], assumption)
      (auto simp: bindE_eq_Inr z dest!: asset_sub_value)
  show "add_received db n x = Inr db' \<Longrightarrow> deleg_off db u v \<Longrightarrow> deleg_off db' u (\<lambda>m. v m - at_name n (amount x) m)"
    unfolding add_received_def by (drule modify_account_off[where y = "amount x" and x = 0], assumption)
      (auto simp: bindE_eq_Inr z dest!: asset_add_value)
  show "sub_received db n x = Inr db' \<Longrightarrow> deleg_off db u v \<Longrightarrow> deleg_off db' u (\<lambda>m. v m + at_name n (amount x) m)"
    unfolding sub_received_def by (drule modify_account_off[where y = "- amount x" and x = 0], assumption)
      (auto simp: bindE_eq_Inr z dest!: asset_sub_value)
qed

text \<open>Changes of the two delegation tables.\<close>

lemma off_tables:
  assumes "deleg_off db u v"
    and "\<And>n. delegated_out db' n = delegated_out db n + x n" "\<And>n. delegated_in db' n = delegated_in db n + y n"
    and "db_accounts db' = db_accounts db"
  shows "deleg_off db' (\<lambda>n. u n + x n) (\<lambda>n. v n + y n)"
  using assms by (auto simp: deleg_off_def)

lemma create_delegation_off:
  assumes "create_delegation db r e x t = Inr db'" "deleg_off db u v"
  shows "deleg_off db' (\<lambda>n. u n + at_name r (amount x) n) (\<lambda>n. v n + at_name e (amount x) n)"
  by (rule off_tables[OF assms(2)])
    (use assms(1) in \<open>auto simp: create_delegation_def bindE_eq_Inr delegated_out_def delegated_in_def at_name_def tbl_create_sum\<close>)

lemma set_delegation_off:
  assumes "set_delegation db op = Inr db'" "deleg_off db u v"
    and d: "tbl_find (is_delegation (dvs_delegator op) (dvs_delegatee op)) (db_delegations db) = Some d"
    and x: "amount (dvs_vesting_shares op) - amount (vd_vesting_shares d) = x"
  shows "deleg_off db' (\<lambda>n. u n + at_name (dvs_delegator op) x n) (\<lambda>n. v n + at_name (dvs_delegatee op) x n)"
proof -
  obtain t where t: "tbl_modify (is_delegation (dvs_delegator op) (dvs_delegatee op))
       (\<lambda>d. Inr (d\<lparr> vd_vesting_shares := dvs_vesting_shares op \<rparr>)) (db_delegations db) = Inr t"
    and db': "db' = db\<lparr> db_delegations := t \<rparr>"
    using assms(1) by (auto simp: set_delegation_def bindE_eq_Inr)
  from tbl_find_Some[OF d] have "vd_delegator d = dvs_delegator op" "vd_delegatee d = dvs_delegatee op"
    by (auto simp: is_delegation_def)
  then show ?thesis
    using x by (intro off_tables[OF assms(2)])
      (auto simp: db' delegated_out_def delegated_in_def at_name_def tbl_modify_sum[OF t d refl])
qed

lemma erase_delegation_off:
  assumes "d \<in> set (rows (db_delegations db))" "deleg_off db u v"
  shows "deleg_off (db\<lparr> db_delegations := tbl_erase d (db_delegations db) \<rparr>)
    (\<lambda>n. u n + at_name (vd_delegator d) (- amount (vd_vesting_shares d)) n)
    (\<lambda>n. v n + at_name (vd_delegatee d) (- amount (vd_vesting_shares d)) n)"
  by (rule off_tables[OF assms(2)])
    (auto simp: delegated_out_def delegated_in_def at_name_def tbl_erase_sum[OF assms(1)])

lemma expiration_off:
  "tbl_create c mk (db_delegation_expirations db) = Inr t \<Longrightarrow> deleg_off db u v \<Longrightarrow>
   mk (next_id (db_delegation_expirations db)) = e \<Longrightarrow>
   deleg_off (db\<lparr> db_delegation_expirations := t \<rparr>) (\<lambda>n. u n + at_name (vde_delegator e) (amount (vde_vesting_shares e)) n) (\<lambda>n. v n + 0)"
  "e \<in> set (rows (db_delegation_expirations db)) \<Longrightarrow> deleg_off db u v \<Longrightarrow>
   deleg_off (db\<lparr> db_delegation_expirations := tbl_erase e (db_delegation_expirations db) \<rparr>)
     (\<lambda>n. u n + at_name (vde_delegator e) (- amount (vde_vesting_shares e)) n) (\<lambda>n. v n + 0)"
  subgoal by (rule off_tables, assumption) (auto simp: delegated_out_def delegated_in_def at_name_def tbl_create_sum)
  subgoal by (rule off_tables, assumption) (auto simp: delegated_out_def delegated_in_def at_name_def tbl_erase_sum)
  done

lemma step_tables:
  "add_delegated db n x = Inr db' \<Longrightarrow> db_delegations db' = db_delegations db \<and> db_delegation_expirations db' = db_delegation_expirations db"
  "sub_delegated db n x = Inr db' \<Longrightarrow> db_delegations db' = db_delegations db \<and> db_delegation_expirations db' = db_delegation_expirations db"
  "add_received db n x = Inr db' \<Longrightarrow> db_delegations db' = db_delegations db \<and> db_delegation_expirations db' = db_delegation_expirations db"
  "sub_received db n x = Inr db' \<Longrightarrow> db_delegations db' = db_delegations db \<and> db_delegation_expirations db' = db_delegation_expirations db"
  unfolding add_delegated_def sub_delegated_def add_received_def sub_received_def
  by (auto dest!: modify_account_fields)

lemma delegate_new_balanced:
  assumes "delegate_new db op av md = Inr db'" "delegations_balanced db"
  shows "delegations_balanced db'"
proof -
  obtain db1 db2 where 1: "create_delegation db (dvs_delegator op) (dvs_delegatee op) (dvs_vesting_shares op) (head_block_time db) = Inr db1"
    and 2: "add_delegated db1 (dvs_delegator op) (dvs_vesting_shares op) = Inr db2"
    and 3: "add_received db2 (dvs_delegatee op) (dvs_vesting_shares op) = Inr db'"
    using assms(1) unfolding delegate_new_def by (auto simp: bindE_eq_Inr fc_assert_eq_Inr)
  from delegation_step_off(3)[OF 3 delegation_step_off(1)[OF 2 create_delegation_off[OF 1 assms(2)[unfolded balanced_off]]]]
  show ?thesis by (simp add: balanced_off)
qed

lemma delegate_more_balanced:
  assumes "delegate_more db op d av mu = Inr db'" "delegations_balanced db"
    and d: "tbl_find (is_delegation (dvs_delegator op) (dvs_delegatee op)) (db_delegations db) = Some d"
  shows "delegations_balanced db'"
proof -
  obtain db1 db2 delta where 0: "asset_sub (dvs_vesting_shares op) (vd_vesting_shares d) = Inr delta"
    and 1: "add_delegated db (dvs_delegator op) delta = Inr db1"
    and 2: "add_received db1 (dvs_delegatee op) delta = Inr db2" and 3: "set_delegation db2 op = Inr db'"
    using assms(1) unfolding delegate_more_def by (auto simp: bindE_eq_Inr fc_assert_eq_Inr)
  have d2: "tbl_find (is_delegation (dvs_delegator op) (dvs_delegatee op)) (db_delegations db2) = Some d"
    using d step_tables(1)[OF 1] step_tables(3)[OF 2] by simp
  have x: "amount (dvs_vesting_shares op) - amount (vd_vesting_shares d) = amount delta"
    using asset_sub_value[OF 0] by simp
  from set_delegation_off[OF 3 delegation_step_off(3)[OF 2 delegation_step_off(1)[OF 1 assms(2)[unfolded balanced_off]]] d2 x]
  show ?thesis by (simp add: balanced_off)
qed

lemma delegate_less_balanced:
  assumes "delegate_less db op d md mu = Inr db'" "delegations_balanced db" "0 \<le> amount (dvs_vesting_shares op)"
    and d: "tbl_find (is_delegation (dvs_delegator op) (dvs_delegatee op)) (db_delegations db) = Some d"
  shows "delegations_balanced db'"
proof -
  obtain delta u et db1 where 0: "asset_sub (vd_vesting_shares d) (dvs_vesting_shares op) = Inr delta"
    and 1: "tbl_create (\<lambda>x y. False) (\<lambda>i. \<lparr>
         vde_id = i, vde_delegator = dvs_delegator op, vde_vesting_shares = delta,
         vde_expiration = max (to_uint32 (head_block_time db + dgp_delegation_return_period (db_dgp db)))
           (vd_min_delegation_time d) \<rparr>) (db_delegation_expirations db) = Inr et"
    and 2: "sub_received (db\<lparr> db_delegation_expirations := et \<rparr>) (dvs_delegatee op) delta = Inr db1"
    and 3: "(if amount (dvs_vesting_shares op) > 0 then set_delegation db1 op
     else Inr (db1\<lparr> db_delegations := tbl_erase d (db_delegations db1) \<rparr>)) = Inr db'"
    using assms(1) unfolding delegate_less_def bindE_eq_Inr by (elim exE conjE) (rule that, assumption+)
  have d1: "tbl_find (is_delegation (dvs_delegator op) (dvs_delegatee op)) (db_delegations db1) = Some d"
    using d step_tables(4)[OF 2] by simp
  have x: "amount (dvs_vesting_shares op) - amount (vd_vesting_shares d) = - amount delta"
    using asset_sub_value[OF 0] by simp
  from tbl_find_Some[OF d1] have n: "d \<in> set (rows (db_delegations db1))"
    "vd_delegator d = dvs_delegator op" "vd_delegatee d = dvs_delegatee op"
    by (auto simp: is_delegation_def)
  note off = delegation_step_off(4)[OF 2 expiration_off(1)[OF 1 assms(2)[unfolded balanced_off] refl]]
  have z: "(\<lambda>n. at_name m y n + at_name m (- y) n) = (\<lambda>_. 0)" for m y by (simp add: at_name_def fun_eq_iff)
  show ?thesis
  proof (cases "amount (dvs_vesting_shares op) > 0")
    case True
    with 3 set_delegation_off[OF _ off d1 x] show ?thesis by (simp add: balanced_off z)
  next
    case False
    with assms(3) x have "amount delta = amount (vd_vesting_shares d)" by simp
    with False 3 erase_delegation_off[OF n(1) off] n show ?thesis by (auto simp: balanced_off z)
  qed
qed

lemma return_delegation_balanced:
  assumes "return_delegation e db = Inr db'" "e \<in> set (rows (db_delegation_expirations db))"
  shows "delegations_balanced db \<Longrightarrow> delegations_balanced db'"
    and "rows (db_delegation_expirations db') = remove1 e (rows (db_delegation_expirations db))"
proof -
  obtain db1 where 1: "sub_delegated db (vde_delegator e) (vde_vesting_shares e) = Inr db1"
    and 2: "db' = db1\<lparr> db_delegation_expirations := tbl_erase e (db_delegation_expirations db1) \<rparr>"
    using assms(1) by (auto simp: return_delegation_def bindE_eq_Inr)
  have e: "e \<in> set (rows (db_delegation_expirations db1))" using assms(2) step_tables(2)[OF 1] by simp
  have z: "(\<lambda>n. at_name m y n + at_name m (- y) n) = (\<lambda>_. 0)" for m y by (simp add: at_name_def fun_eq_iff)
  show "delegations_balanced db \<Longrightarrow> delegations_balanced db'"
    using expiration_off(2)[OF e delegation_step_off(2)[OF 1, of "\<lambda>_. 0" "\<lambda>_. 0"]]
    by (simp add: balanced_off 2 z)
  show "rows (db_delegation_expirations db') = remove1 e (rows (db_delegation_expirations db))"
    using step_tables(2)[OF 1] by (simp add: 2)
qed

section \<open>Routes\<close>

definition route_sum :: "database \<Rightarrow> account_name_type \<Rightarrow> int" where
  "route_sum db f = tbl_sum (\<lambda>r. if wvr_from_account r = f then wvr_percent r else 0) (db_routes db)"

definition routes_within :: "database \<Rightarrow> bool" where
  "routes_within db \<longleftrightarrow>
     list_all (\<lambda>r. wvr_to_account r \<noteq> [] \<and> 0 \<le> wvr_percent r \<and> route_sum db (wvr_from_account r) \<le> STEEM_100_PERCENT)
       (rows (db_routes db))"

lemma uint16_foldl:
  "0 \<le> t \<Longrightarrow> t < 65536 \<Longrightarrow> foldl (\<lambda>t r. to_uint16 (t + g r)) t xs = (t + sum_list (map g xs)) mod 65536"
proof (induction xs arbitrary: t)
  case (Cons x xs)
  show ?case using Cons.IH[of "to_uint16 (t + g x)"]
    by (simp add: to_uint16_def mod_simps add.assoc)
qed simp

lemma sum_list_filter: "sum_list (map g (filter P xs)) = (sum_list (map (\<lambda>x. if P x then g x else 0) xs) :: int)"
  by (induction xs) auto

lemma total_percent_sum:
  assumes "\<forall>r\<in>set (rows (db_routes db)). wvr_to_account r \<noteq> []"
  shows "total_percent db f = route_sum db f mod 65536"
proof -
  have "map (\<lambda>r. if wvr_from_account r = f \<and> wvr_to_account r \<noteq> [] then wvr_percent r else 0) (rows (db_routes db)) =
      map (\<lambda>r. if wvr_from_account r = f then wvr_percent r else 0) (rows (db_routes db))"
    using assms by auto
  from arg_cong[OF this, of sum_list] show ?thesis
    by (simp add: total_percent_def uint16_foldl routes_of_def sum_list_sort_key sum_list_filter route_sum_def tbl_sum_def)
qed

lemma route_sum_nonneg:
  assumes "\<forall>r\<in>set (rows (db_routes db)). 0 \<le> wvr_percent r"
  shows "0 \<le> route_sum db f"
  unfolding route_sum_def tbl_sum_def by (rule sum_list_nonneg) (use assms in auto)

text \<open>What an accepted change does to the routes.\<close>

lemma change_route_rows:
  assumes "change_route db o1 fa ta = Inr db'" "\<forall>r\<in>set (rows (db_routes db)). 0 \<le> wvr_percent r" "0 \<le> swr_percent o1"
  shows "r \<in> set (rows (db_routes db')) \<Longrightarrow> r \<in> set (rows (db_routes db)) \<or>
      wvr_from_account r = ac_name fa \<and> wvr_to_account r = ac_name ta \<and> wvr_percent r = swr_percent o1" (is "_ \<Longrightarrow> ?rows")
    and "route_sum db' g \<le> route_sum db g + (if g = ac_name fa then swr_percent o1 else 0)"
    and "g \<noteq> ac_name fa \<Longrightarrow> route_sum db' g = route_sum db g"
proof -
  have a: "modify_account d n h = Inr d' \<Longrightarrow> db_routes d' = db_routes d" for d d' n h
    by (auto dest!: modify_account_fields)
  let ?new = "\<lambda>i. \<lparr> wvr_id = i, wvr_from_account = ac_name fa, wvr_to_account = ac_name ta,
    wvr_percent = swr_percent o1, wvr_auto_vest = swr_auto_vest o1 \<rparr>"
  consider (new) rt where "tbl_create route_clash ?new (db_routes db) = Inr rt" "db_routes db' = rt"
    | (del) itr where "tbl_find (is_route (ac_name fa) (ac_name ta)) (db_routes db) = Some itr"
      "db_routes db' = tbl_erase itr (db_routes db)"
    | (set) itr where "tbl_find (is_route (ac_name fa) (ac_name ta)) (db_routes db) = Some itr"
      "tbl_modify (is_route (ac_name fa) (ac_name ta)) (\<lambda>r. Inr (r\<lparr> wvr_from_account := ac_name fa, wvr_to_account := ac_name ta,
                 wvr_percent := swr_percent o1, wvr_auto_vest := swr_auto_vest o1 \<rparr>)) (db_routes db) = Inr (db_routes db')"
    using assms(1) unfolding change_route_def Let_def
    by (auto simp: bindE_eq_Inr fc_assert_eq_Inr split: option.splits if_splits dest!: a)
  then have "(r \<in> set (rows (db_routes db')) \<longrightarrow> ?rows) \<and>
    route_sum db' g \<le> route_sum db g + (if g = ac_name fa then swr_percent o1 else 0) \<and>
    (g \<noteq> ac_name fa \<longrightarrow> route_sum db' g = route_sum db g)"
  proof cases
    case new
    then show ?thesis by (auto simp: route_sum_def tbl_create_sum dest!: tbl_create_rows)
  next
    case del
    from tbl_find_Some[OF del(1)] have i: "itr \<in> set (rows (db_routes db))" "wvr_from_account itr = ac_name fa"
      by (auto simp: is_route_def)
    with assms(2,3) show ?thesis
      by (auto simp: route_sum_def del(2) tbl_erase_sum dest: set_remove1_subset[THEN subsetD])
  next
    case set
    from tbl_find_Some[OF set(1)] have i: "itr \<in> set (rows (db_routes db))" "wvr_from_account itr = ac_name fa"
      by (auto simp: is_route_def)
    with assms(2) have p: "0 \<le> wvr_percent itr" by blast
    have "route_sum db' g = route_sum db g +
       (if g = ac_name fa then swr_percent o1 - wvr_percent itr else 0)"
      using i by (auto simp: route_sum_def tbl_modify_sum[OF set(2,1) refl])
    with p show ?thesis using tbl_modify_rows[OF set(2), of r] by auto
  qed
  then show "r \<in> set (rows (db_routes db')) \<Longrightarrow> ?rows"
    "route_sum db' g \<le> route_sum db g + (if g = ac_name fa then swr_percent o1 else 0)"
    "g \<noteq> ac_name fa \<Longrightarrow> route_sum db' g = route_sum db g" by auto
qed

text \<open>C12. The withdrawal routes of an account never add up to more than one hundred percent: the invariant
  that every account with routes has at most 10000 basis points of them is kept by every accepted
  \<open>set_withdraw_vesting_route\<close> operation.  The check sums in 16 bits, and it cannot wrap because a
  single operation adds at most 10000.\<close>

theorem withdraw_routes_within_limit:
  assumes inv: "routes_within db"
    and valid: "set_withdraw_vesting_route_validate o1 = Inr u"
    and run: "set_withdraw_vesting_route_do_apply db o1 = Inr db'"
  shows "routes_within db'"
proof -
  obtain fa ta where fa: "get_account db (swr_from_account o1) = Inr fa" and ta: "get_account db (swr_to_account o1) = Inr ta"
    and c: "change_route db o1 fa ta = Inr db'" and t: "total_percent db' (ac_name fa) \<le> 10000"
    using run by (auto simp: set_withdraw_vesting_route_do_apply_def bindE_eq_Inr fc_assert_eq_Inr)
  have p: "0 \<le> swr_percent o1" "swr_percent o1 \<le> 10000" and n: "swr_to_account o1 \<noteq> []"
    using valid by (auto simp: set_withdraw_vesting_route_validate_def res_simps validate_account_name_def is_valid_account_name_def)
  have tn: "ac_name ta \<noteq> []" using ta n by (auto simp: get_account_def tbl_get_Inr dest!: tbl_find_Some)
  have i: "\<forall>r\<in>set (rows (db_routes db)). 0 \<le> wvr_percent r" "\<forall>r\<in>set (rows (db_routes db)). wvr_to_account r \<noteq> []"
    using inv by (auto simp: routes_within_def list_all_iff)
  note ch = change_route_rows[OF c i(1) p(1)]
  have i': "\<forall>r\<in>set (rows (db_routes db')). 0 \<le> wvr_percent r" "\<forall>r\<in>set (rows (db_routes db')). wvr_to_account r \<noteq> []"
    using ch(1) i p(1) tn by metis+
  have old: "route_sum db g \<le> 10000" for g
  proof (cases "\<exists>r\<in>set (rows (db_routes db)). wvr_from_account r = g")
    case True
    then show ?thesis using inv by (auto simp: routes_within_def list_all_iff)
  next
    case False
    then have "map (\<lambda>r. if wvr_from_account r = g then wvr_percent r else 0) (rows (db_routes db)) = map (\<lambda>r. 0) (rows (db_routes db))"
      by auto
    then show ?thesis by (simp add: route_sum_def tbl_sum_def del: map_eq_conv)
  qed
  have "route_sum db' (ac_name fa) \<le> 20000" using ch(2)[of "ac_name fa"] old[of "ac_name fa"] p(2) by simp
  with t route_sum_nonneg[OF i'(1)] total_percent_sum[OF i'(2)] have "route_sum db' (ac_name fa) \<le> 10000" by simp
  with ch(3) old have "route_sum db' g \<le> 10000" for g by (cases "g = ac_name fa") simp_all
  with i' show ?thesis by (simp add: routes_within_def list_all_iff)
qed

definition route_op :: "string \<Rightarrow> int \<Rightarrow> bool \<Rightarrow> set_withdraw_vesting_route_operation" where
  "route_op t p v = \<lparr> swr_from_account = ''alice'', swr_to_account = t, swr_percent = p, swr_auto_vest = v \<rparr>"

definition routed_db :: database where
  "routed_db = res_or sample_db (set_withdraw_vesting_route_do_apply sample_db (route_op ''bob'' 6000 True))"

theorem withdraw_routes_within_limit_witness:
  "set_withdraw_vesting_route_do_apply routed_db (route_op ''carol'' 4000 False) =
     Inr (res_or sample_db (set_withdraw_vesting_route_do_apply routed_db (route_op ''carol'' 4000 False))) \<and>
   routes_within (res_or sample_db (set_withdraw_vesting_route_do_apply routed_db (route_op ''carol'' 4000 False))) \<and>
   \<not> isOK (set_withdraw_vesting_route_do_apply routed_db (route_op ''carol'' 4001 False))"
proof -
  have i: "routes_within routed_db" by code_simp
  have v: "set_withdraw_vesting_route_validate (route_op ''carol'' 4000 False) = Inr ()" by code_simp
  have r: "set_withdraw_vesting_route_do_apply routed_db (route_op ''carol'' 4000 False) =
     Inr (res_or sample_db (set_withdraw_vesting_route_do_apply routed_db (route_op ''carol'' 4000 False)))" by code_simp
  have e: "\<not> isOK (set_withdraw_vesting_route_do_apply routed_db (route_op ''carol'' 4001 False))" by code_simp
  from withdraw_routes_within_limit[OF i v r] r e show ?thesis by blast
qed

section \<open>Runs of delegations\<close>

inductive delegation_step :: "database \<Rightarrow> database \<Rightarrow> bool" where
  Delegate: "delegate_vesting_shares_validate op = Inr u \<Longrightarrow> delegate_vesting_shares_do_apply db op = Inr db' \<Longrightarrow>
     delegation_step db db'"
| Return: "clear_expired_delegations db = Inr db' \<Longrightarrow> delegation_step db db'"
| Withdraw: "withdraw_vesting_do_apply db o1 = Inr db' \<Longrightarrow> delegation_step db db'"
| Next_block: "delegation_step db (db\<lparr> db_dgp := g \<rparr>)"

lemma withdrawal_names:
  "stop_withdrawal a = Inr a' \<Longrightarrow> ac_name a' = ac_name a \<and>
    amount (ac_delegated_vesting_shares a') = amount (ac_delegated_vesting_shares a) + 0 \<and>
    amount (ac_received_vesting_shares a') = amount (ac_received_vesting_shares a) + 0"
  "start_withdrawal now v a = Inr a' \<Longrightarrow> ac_name a' = ac_name a \<and>
    amount (ac_delegated_vesting_shares a') = amount (ac_delegated_vesting_shares a) + 0 \<and>
    amount (ac_received_vesting_shares a') = amount (ac_received_vesting_shares a) + 0"
  by (auto simp: stop_withdrawal_def start_withdrawal_def bindE_eq_Inr fc_assert_eq_Inr Let_def)

lemma delegation_step_balanced: "delegation_step db db' \<Longrightarrow> delegations_balanced db \<Longrightarrow> delegations_balanced db'"
proof (induction rule: delegation_step.induct)
  case (Delegate op u db db')
  have nn: "0 \<le> amount (dvs_vesting_shares op)"
    using Delegate(1) by (auto simp: delegate_vesting_shares_validate_def res_simps)
  show ?case
  proof (cases "tbl_find (is_delegation (dvs_delegator op) (dvs_delegatee op)) (db_delegations db)")
    case None
    with Delegate(2,3) show ?thesis
      by (auto simp: delegate_vesting_shares_do_apply_def bindE_eq_Inr dest: delegate_new_balanced)
  next
    case (Some d)
    with Delegate(2,3) nn show ?thesis
      by (auto simp: delegate_vesting_shares_do_apply_def bindE_eq_Inr split: if_splits
          dest: delegate_more_balanced delegate_less_balanced)
  qed
next
  case (Return db db')
  have "delegations_balanced db \<longrightarrow> delegations_balanced db'"
    using Return(1) unfolding clear_expired_delegations_def
    by (rule foldE_erase[where tab = db_delegation_expirations])
      (auto simp: mset_takeWhile_sort return_delegation_balanced)
  with Return(2) show ?case by blast
next
  case (Withdraw db o1 db')
  have z: "deleg_off d (\<lambda>m. 0 - at_name n 0 m) (\<lambda>m. 0 - at_name n 0 m) \<longleftrightarrow> delegations_balanced d" for d n
    by (simp add: balanced_off at_name_def)
  from Withdraw(1) show ?case
  proof (cases rule: withdraw_vesting_modifies)
    case 2
    from modify_account_off[OF this Withdraw(2)[unfolded balanced_off] withdrawal_names(1)] show ?thesis
      by (simp only: z)
  next
    case 3
    from modify_account_off[OF this Withdraw(2)[unfolded balanced_off] withdrawal_names(2)] show ?thesis
      by (simp only: z)
  qed (use Withdraw(2) in simp)
next
  case (Next_block db g)
  then show ?case by (simp add: delegations_balanced_def delegated_out_def delegated_in_def)
qed

section \<open>Properties\<close>

text \<open>C10. Delegated shares are accounted for: in every state reached from a balanced one by validated
  delegations, returns of expired delegations, withdrawals and new blocks, the delegated shares of
  each account are the sum of its delegations and of the reductions that have not been returned
  yet, and its received shares are the sum of the delegations made to it.\<close>

theorem delegation_accounting:
  assumes "delegation_step\<^sup>*\<^sup>* db db'" and "delegations_balanced db"
  shows "delegations_balanced db'"
  using assms by (induction rule: rtranclp_induct) (auto dest: delegation_step_balanced)

definition bob_delegates :: "int \<Rightarrow> delegate_vesting_shares_operation" where
  "bob_delegates x = \<lparr> dvs_delegator = ''bob'', dvs_delegatee = ''alice'', dvs_vesting_shares = mk_asset x VESTS_SYMBOL \<rparr>"

definition delegated_db :: database where
  "delegated_db = res_or sample_db (delegate_vesting_shares_do_apply sample_db (bob_delegates 1500000))"

definition reduced_db :: database where
  "reduced_db = res_or sample_db (delegate_vesting_shares_do_apply delegated_db (bob_delegates 1200000))"

definition later_db :: database where
  "later_db = reduced_db\<lparr> db_dgp := sample_dgp\<lparr> dgp_time := 1500432001 \<rparr> \<rparr>"

definition returned_db :: database where
  "returned_db = res_or sample_db (clear_expired_delegations later_db)"

theorem delegation_accounting_witness:
  "delegations_balanced returned_db \<and> delegated_out reduced_db ''bob'' = 1500000 \<and>
   delegated_out returned_db ''bob'' = 1200000 \<and> delegated_in returned_db ''alice'' = 1200000"
proof -
  have v: "delegate_vesting_shares_validate (bob_delegates 1500000) = Inr ()"
    "delegate_vesting_shares_validate (bob_delegates 1200000) = Inr ()" by code_simp+
  have 1: "delegate_vesting_shares_do_apply sample_db (bob_delegates 1500000) = Inr delegated_db" by code_simp
  have 2: "delegate_vesting_shares_do_apply delegated_db (bob_delegates 1200000) = Inr reduced_db" by code_simp
  have 3: "clear_expired_delegations later_db = Inr returned_db" by code_simp
  have n: "delegation_step reduced_db later_db" unfolding later_db_def by (rule Next_block)
  have s: "delegations_balanced sample_db" by code_simp
  have "delegation_step\<^sup>*\<^sup>* sample_db returned_db"
    using Delegate[OF v(1) 1] Delegate[OF v(2) 2] n Return[OF 3] by (meson r_into_rtranclp rtranclp_trans)
  from delegation_accounting[OF this s] show ?thesis
    by (intro conjI) (assumption | code_simp)+
qed

text \<open>C11. Powering down conserves every asset: for a state whose vesting fields are typed as the C++
  members are, the payment of due withdrawals along their routes leaves the supply of each symbol
  equal to the sum of the holdings exactly as before, whatever the routes, the rounding of the
  share price and the number of accounts that are due.\<close>

theorem vesting_withdrawals_conserve:
  assumes "process_vesting_withdrawals db = Inr db'" and "vests_typed db"
  shows "ledger_same db db'"
  using assms by (rule process_vesting_withdrawals_same)

definition due_db :: database where
  "due_db = routed_db\<lparr> db_dgp := sample_dgp\<lparr> dgp_time := 1500604800 \<rparr>,
     db_accounts := (db_accounts routed_db)\<lparr> rows := map (\<lambda>a. if ac_name a = ''alice''
       then a\<lparr> ac_next_vesting_withdrawal := 1500604800, ac_vesting_withdraw_rate := mk_asset 1007 VESTS_SYMBOL,
               ac_to_withdraw := 13091 \<rparr> else a) (rows (db_accounts routed_db)) \<rparr> \<rparr>"

definition paid_db :: database where
  "paid_db = res_or due_db (process_vesting_withdrawals due_db)"

theorem vesting_withdrawals_conserve_witness:
  "process_vesting_withdrawals due_db = Inr paid_db \<and> ledger_same due_db paid_db \<and>
   map (\<lambda>a. amount (ac_vesting_shares a)) (rows (db_accounts paid_db)) = [998993, 2000604, 3000000]"
proof -
  have r: "process_vesting_withdrawals due_db = Inr paid_db" by code_simp
  have t: "vests_typed due_db" by code_simp
  have a: "map (\<lambda>a. amount (ac_vesting_shares a)) (rows (db_accounts paid_db)) = [998993, 2000604, 3000000]" by code_simp
  from vesting_withdrawals_conserve[OF r t] r a show ?thesis by blast
qed

end
