(* ===== verification/Witnesses.thy ===== *)
theory Witnesses
  imports Vesting
begin

text \<open>
  Witness operations of src/src/core/chain/steem_evaluator.cpp: registering a witness and changing its
  properties, publishing a price, voting for witnesses, setting a voting proxy and declining voting
  rights; and from src/src/core/chain/database.cpp the processing of declined voting rights and the
  median of the published prices.

  The witness's fee is a legacy asset whose symbol is always the canonical one, so the
  \<open>is_canon\<close> assertion has no counterpart.  Whether the node is producing blocks is an argument of
  \<open>witness_update_do_apply\<close>.
\<close>

section \<open>Properties of a witness\<close>

definition new_witness :: "nat \<Rightarrow> witness_object" where
  "new_witness i = \<lparr> w_id = i, w_owner = [], w_created = 0, w_url = [], w_total_missed = 0, w_last_aslot = 0,
     w_last_confirmed_block_num = 0, w_signing_key = [],
     w_props = \<lparr> cp_account_creation_fee = mk_asset STEEM_MIN_ACCOUNT_CREATION_FEE STEEM_SYMBOL,
       cp_maximum_block_size = STEEM_MIN_BLOCK_SIZE_LIMIT * 2,
       cp_sbd_interest_rate = STEEM_DEFAULT_SBD_INTEREST_RATE, cp_account_subsidy_limit = 0 \<rparr>,
     w_sbd_exchange_rate = default_price, w_last_sbd_exchange_update = 0, w_votes = 0, w_schedule = none,
     w_virtual_last_update = 0, w_virtual_position = 0, w_virtual_scheduled_time = uint128_max,
     w_running_version = 0, w_hardfork_version_vote = 0, w_hardfork_time_vote = STEEM_GENESIS_TIME \<rparr>"

definition copy_legacy_chain_properties :: "legacy_chain_properties \<Rightarrow> chain_properties \<Rightarrow> chain_properties" where
  "copy_legacy_chain_properties src dest =
     dest\<lparr> cp_account_creation_fee := mk_asset (lcp_account_creation_fee src) STEEM_SYMBOL,
           cp_maximum_block_size := lcp_maximum_block_size src,
           cp_sbd_interest_rate := lcp_sbd_interest_rate src \<rparr>"

definition witness_clash :: "witness_object \<Rightarrow> witness_object \<Rightarrow> bool" where
  "witness_clash x y \<longleftrightarrow> w_owner x = w_owner y"

definition witness_update_do_apply :: "bool \<Rightarrow> database \<Rightarrow> witness_update_operation \<Rightarrow> database res" where
  "witness_update_do_apply producing db o1 =
     bindE (get_account db (wu_owner o1)) (\<lambda>_.
     fc_assert 92 (producing \<longrightarrow> lcp_maximum_block_size (wu_props o1) \<le> STEEM_SOFT_MAX_BLOCK_SIZE)
     (if find_witness db (wu_owner o1) \<noteq> None then
        modify_witness db (wu_owner o1) (\<lambda>w.
          Inr (w\<lparr> w_url := wu_url o1, w_signing_key := wu_block_signing_key o1,
                  w_props := copy_legacy_chain_properties (wu_props o1) (w_props w) \<rparr>))
      else
        bindE (tbl_create witness_clash (\<lambda>i. let w = new_witness i in
          w\<lparr> w_owner := wu_owner o1, w_url := wu_url o1, w_signing_key := wu_block_signing_key o1,
             w_created := head_block_time db,
             w_props := copy_legacy_chain_properties (wu_props o1) (w_props w) \<rparr>) (db_witnesses db)) (\<lambda>t.
        Inr (db\<lparr> db_witnesses := t \<rparr>))))"

text \<open>The pattern of one property: when it is present it is unpacked and stored.\<close>

definition set_prop ::
  "(string \<times> packed) list \<Rightarrow> string \<Rightarrow> (packed \<Rightarrow> 'x res) \<Rightarrow> ('x \<Rightarrow> witness_object \<Rightarrow> witness_object) \<Rightarrow>
   witness_object \<Rightarrow> witness_object res" where
  "set_prop props name unpack upd w =
     (case map_of props name of None \<Rightarrow> Inr w | Some p \<Rightarrow> bindE (unpack p) (\<lambda>x. Inr (upd x w)))"

definition witness_set_properties_do_apply :: "database \<Rightarrow> witness_set_properties_operation \<Rightarrow> database res" where
  "witness_set_properties_do_apply db o1 =
     bindE (get_witness db (wsp_owner o1)) (\<lambda>witness.
     bindE (case map_of (wsp_props o1) ''key'' of None \<Rightarrow> Inl Out_of_range | Some p \<Rightarrow> unpack_key p) (\<lambda>key.
     fc_assert 146 (key = w_signing_key witness)
     (modify_witness db (wsp_owner o1) (\<lambda>w.
       bindE (set_prop (wsp_props o1) ''account_creation_fee'' unpack_asset
         (\<lambda>x w. w\<lparr> w_props := (w_props w)\<lparr> cp_account_creation_fee := x \<rparr> \<rparr>) w) (\<lambda>w.
       bindE (set_prop (wsp_props o1) ''maximum_block_size'' unpack_uint32
         (\<lambda>x w. w\<lparr> w_props := (w_props w)\<lparr> cp_maximum_block_size := x \<rparr> \<rparr>) w) (\<lambda>w.
       bindE (set_prop (wsp_props o1) ''sbd_interest_rate'' unpack_uint16
         (\<lambda>x w. w\<lparr> w_props := (w_props w)\<lparr> cp_sbd_interest_rate := x \<rparr> \<rparr>) w) (\<lambda>w.
       bindE (set_prop (wsp_props o1) ''account_subsidy_limit'' unpack_uint32
         (\<lambda>x w. w\<lparr> w_props := (w_props w)\<lparr> cp_account_subsidy_limit := x \<rparr> \<rparr>) w) (\<lambda>w.
       bindE (set_prop (wsp_props o1) ''new_signing_key'' unpack_key (\<lambda>x w. w\<lparr> w_signing_key := x \<rparr>) w) (\<lambda>w.
       bindE (set_prop (wsp_props o1) ''sbd_exchange_rate'' unpack_price
         (\<lambda>x w. w\<lparr> w_sbd_exchange_rate := x, w_last_sbd_exchange_update := head_block_time db \<rparr>) w) (\<lambda>w.
       set_prop (wsp_props o1) ''url'' unpack_string (\<lambda>x w. w\<lparr> w_url := x \<rparr>) w))))))))))"

definition feed_publish_do_apply :: "database \<Rightarrow> feed_publish_operation \<Rightarrow> database res" where
  "feed_publish_do_apply db o1 =
     fc_assert 1463 (is_asset_type (base (fp_exchange_rate o1)) SBD_SYMBOL \<and>
                     is_asset_type (quote (fp_exchange_rate o1)) STEEM_SYMBOL)
     (bindE (get_witness db (fp_publisher o1)) (\<lambda>witness.
      modify_witness db (fp_publisher o1) (\<lambda>w.
        Inr (w\<lparr> w_sbd_exchange_rate := fp_exchange_rate o1, w_last_sbd_exchange_update := head_block_time db \<rparr>))))"

section \<open>Median price\<close>

fun insert_price :: "price \<Rightarrow> price list \<Rightarrow> price list" where
  "insert_price x [] = [x]"
| "insert_price x (y # ys) = (if price_lt y x then y # insert_price x ys else x # y # ys)"

definition sort_prices :: "price list \<Rightarrow> price list" where
  "sort_prices xs = foldr insert_price xs []"

definition median_price :: "price list \<Rightarrow> price" where
  "median_price xs = sort_prices xs ! (length xs div 2)"

definition current_feeds :: "database \<Rightarrow> price list res" where
  "current_feeds db =
     foldE (\<lambda>n feeds. bindE (get_witness db n) (\<lambda>wit.
        if head_block_time db < to_uint32 (w_last_sbd_exchange_update wit + STEEM_MAX_FEED_AGE_SECONDS) \<and>
           \<not> price_is_null (w_sbd_exchange_rate wit)
        then Inr (feeds @ [w_sbd_exchange_rate wit]) else Inr feeds))
       (take (nat (wso_num_scheduled_witnesses (db_wso db))) (wso_current_shuffled_witnesses (db_wso db))) []"

definition push_feed :: "dynamic_global_property_object \<Rightarrow> price \<Rightarrow> feed_history_object \<Rightarrow> feed_history_object res" where
  "push_feed gpo median_feed fho =
     (let h = fh_price_history fho @ [median_feed];
          h = (if length h > STEEM_FEED_HISTORY_WINDOW then tl h else h);
          m = median_price h
      in bindE (safe_mul 9 (amount (dgp_current_sbd_supply gpo))) (\<lambda>x.
         bindE (mk_price (mk_asset x SBD_SYMBOL) (dgp_current_supply gpo)) (\<lambda>min_price.
         Inr (fho\<lparr> fh_price_history := h,
                   fh_current_median_history := (if price_gt min_price m then min_price else m) \<rparr>))))"

definition update_median_feed :: "database \<Rightarrow> database res" where
  "update_median_feed db =
     (if head_block_num db mod STEEM_FEED_INTERVAL_BLOCKS \<noteq> 0 then Inr db
      else bindE (current_feeds db) (\<lambda>feeds.
        if length feeds \<ge> STEEM_MIN_FEEDS then
          bindE (push_feed (db_dgp db) (median_price feeds) (db_feed db)) (\<lambda>f. Inr (db\<lparr> db_feed := f \<rparr>))
        else Inr db))"

section \<open>Votes for witnesses\<close>

definition witness_vote_clash :: "witness_vote_object \<Rightarrow> witness_vote_object \<Rightarrow> bool" where
  "witness_vote_clash x y \<longleftrightarrow> wv_account x = wv_account y \<and> wv_witness x = wv_witness y"

definition account_witness_vote_do_apply :: "database \<Rightarrow> account_witness_vote_operation \<Rightarrow> database res" where
  "account_witness_vote_do_apply db o1 =
     bindE (get_account db (awv_account o1)) (\<lambda>voter.
     fc_assert 1089 (ac_proxy voter = [])
     (fc_assert 1092 (awv_approve o1 \<longrightarrow> ac_can_vote voter)
     (bindE (get_witness db (awv_witness o1)) (\<lambda>witness.
      case tbl_find (\<lambda>v. wv_account v = ac_name voter \<and> wv_witness v = w_owner witness) (db_witness_votes db) of
        None \<Rightarrow>
          fc_assert 1100 (awv_approve o1)
          (fc_assert 1102 (ac_witnesses_voted_for voter < STEEM_MAX_ACCOUNT_WITNESS_VOTES)
          (bindE (tbl_create witness_vote_clash (\<lambda>i. \<lparr> wv_id = i, wv_witness = w_owner witness,
              wv_account = ac_name voter \<rparr>) (db_witness_votes db)) (\<lambda>t.
           bindE (witness_vote_weight voter) (\<lambda>weight.
           bindE (adjust_witness_vote (db\<lparr> db_witness_votes := t \<rparr>) (w_owner witness) weight) (\<lambda>db.
           modify_account db (ac_name voter) (\<lambda>a.
             Inr (a\<lparr> ac_witnesses_voted_for := to_uint16 (ac_witnesses_voted_for a + 1) \<rparr>)))))))
      | Some itr \<Rightarrow>
          fc_assert 1116 (\<not> awv_approve o1)
          (bindE (witness_vote_weight voter) (\<lambda>weight.
           bindE (safe_neg weight) (\<lambda>m.
           bindE (adjust_witness_vote db (w_owner witness) m) (\<lambda>db.
           bindE (modify_account db (ac_name voter) (\<lambda>a.
             Inr (a\<lparr> ac_witnesses_voted_for := to_uint16 (ac_witnesses_voted_for a - 1) \<rparr>))) (\<lambda>db.
           Inr (db\<lparr> db_witness_votes := tbl_erase itr (db_witness_votes db) \<rparr>))))))))))"

section \<open>Proxies\<close>

definition neg_all :: "int list \<Rightarrow> int list res" where
  "neg_all xs = foldE (\<lambda>x ys. bindE (safe_neg x) (\<lambda>y. Inr (ys @ [y]))) xs []"

definition vote_deltas :: "account_object \<Rightarrow> int list res" where
  "vote_deltas a = neg_all (amount (ac_vesting_shares a) # ac_proxied_vsf_votes a)"

text \<open>The loop check: \<open>proxy_chain\<close> is the set of account ids met so far.\<close>

function proxy_walk :: "database \<Rightarrow> nat list \<Rightarrow> account_object \<Rightarrow> unit res" where
  "proxy_walk db proxy_chain cprox =
     (if ac_proxy cprox \<noteq> [] then
        bindE (get_account db (ac_proxy cprox)) (\<lambda>next_proxy.
        fc_assert 1062 (ac_id next_proxy \<notin> set proxy_chain)
        (fc_assert 1064 (length (ac_id next_proxy # proxy_chain) \<le> STEEM_MAX_PROXY_RECURSION_DEPTH)
        (proxy_walk db (ac_id next_proxy # proxy_chain) next_proxy)))
      else Inr ())"
  by pat_completeness auto
termination
  by (relation "measure (\<lambda>(db, chain, c). 4 - length chain)") auto

declare proxy_walk.simps [simp del]

definition set_proxy :: "account_name_type \<Rightarrow> account_object \<Rightarrow> account_object res" where
  "set_proxy p a = Inr (a\<lparr> ac_proxy := p \<rparr>)"

definition account_witness_proxy_do_apply :: "database \<Rightarrow> account_witness_proxy_operation \<Rightarrow> database res" where
  "account_witness_proxy_do_apply db o1 =
     bindE (get_account db (awp_account o1)) (\<lambda>account.
     fc_assert 1042 (ac_proxy account \<noteq> awp_proxy o1)
     (fc_assert 1044 (ac_can_vote account)
     (bindE (vote_deltas account) (\<lambda>delta.
      bindE (adjust_proxied_witness_votes_array db (awp_account o1) delta 0) (\<lambda>db.
      if awp_proxy o1 \<noteq> [] then
        bindE (get_account db (awp_proxy o1)) (\<lambda>new_proxy.
        bindE (proxy_walk db (remdups [ac_id account, ac_id new_proxy]) new_proxy) (\<lambda>_.
        bindE (clear_witness_votes db (awp_account o1)) (\<lambda>db.
        bindE (modify_account db (awp_account o1) (set_proxy (awp_proxy o1))) (\<lambda>db.
        bindE (neg_all delta) (\<lambda>delta.
        adjust_proxied_witness_votes_array db (awp_account o1) delta 0)))))
      else modify_account db (awp_account o1) (set_proxy (awp_proxy o1)))))))"

section \<open>Declining voting rights\<close>

definition decline_clash :: "decline_voting_rights_request_object \<Rightarrow> decline_voting_rights_request_object \<Rightarrow> bool" where
  "decline_clash x y \<longleftrightarrow> dvr_account x = dvr_account y"

definition decline_voting_rights_do_apply :: "database \<Rightarrow> decline_voting_rights_operation \<Rightarrow> database res" where
  "decline_voting_rights_do_apply db o1 =
     bindE (get_account db (dv_account o1)) (\<lambda>account.
     let itr = tbl_find (\<lambda>r. dvr_account r = ac_name account) (db_decline_requests db) in
     if dv_decline o1 then
       fc_assert 1793 (itr = None)
       (bindE (tbl_create decline_clash (\<lambda>i. \<lparr> dvr_id = i, dvr_account = ac_name account,
           dvr_effective_date = to_uint32 (head_block_time db + STEEM_OWNER_AUTH_RECOVERY_PERIOD) \<rparr>)
          (db_decline_requests db)) (\<lambda>t.
        Inr (db\<lparr> db_decline_requests := t \<rparr>)))
     else
       case itr of None \<Rightarrow> Inl (Assert_exception 1803)
       | Some r \<Rightarrow> Inr (db\<lparr> db_decline_requests := tbl_erase r (db_decline_requests db) \<rparr>))"

definition lose_vote :: "account_object \<Rightarrow> account_object res" where
  "lose_vote a = Inr (a\<lparr> ac_can_vote := False, ac_proxy := STEEM_PROXY_TO_SELF_ACCOUNT \<rparr>)"

definition process_decline_request :: "decline_voting_rights_request_object \<Rightarrow> database \<Rightarrow> database res" where
  "process_decline_request r db =
     bindE (get_account db (dvr_account r)) (\<lambda>account.
     bindE (vote_deltas account) (\<lambda>delta.
     bindE (adjust_proxied_witness_votes_array db (dvr_account r) delta 0) (\<lambda>db.
     bindE (clear_witness_votes db (dvr_account r)) (\<lambda>db.
     bindE (modify_account db (dvr_account r) lose_vote) (\<lambda>db.
     Inr (db\<lparr> db_decline_requests := tbl_erase r (db_decline_requests db) \<rparr>))))))"

definition process_decline_voting_rights :: "database \<Rightarrow> database res" where
  "process_decline_voting_rights db =
     foldE process_decline_request
       (takeWhile (\<lambda>r. dvr_effective_date r \<le> head_block_time db)
         (sort_key (\<lambda>r. (dvr_effective_date r, dvr_account r)) (rows (db_decline_requests db)))) db"

section \<open>Votes move no assets\<close>

lemma clear_witness_votes_same: "clear_witness_votes db n = Inr db' \<Longrightarrow> ledger_same db db'"
  unfolding clear_witness_votes_def Let_def
  by (drule modify_account_same) (auto simp: same_holdings_def ledger_same_def)

lemma witness_update_same: "witness_update_do_apply p db o1 = Inr db' \<Longrightarrow> ledger_same db db'"
  unfolding witness_update_do_apply_def
  by (auto simp: bindE_eq_Inr fc_assert_eq_Inr ledger_same_def split: if_splits dest!: modify_witness_same)

lemma witness_set_properties_same: "witness_set_properties_do_apply db o1 = Inr db' \<Longrightarrow> ledger_same db db'"
  unfolding witness_set_properties_do_apply_def
  by (auto simp: bindE_eq_Inr fc_assert_eq_Inr dest: modify_witness_same)

lemma feed_publish_same: "feed_publish_do_apply db o1 = Inr db' \<Longrightarrow> ledger_same db db'"
  unfolding feed_publish_do_apply_def
  by (auto simp: bindE_eq_Inr fc_assert_eq_Inr dest: modify_witness_same)

lemma update_median_feed_same: "update_median_feed db = Inr db' \<Longrightarrow> ledger_same db db'"
  unfolding update_median_feed_def by (auto simp: bindE_eq_Inr ledger_same_def split: if_splits)

lemma adjust_witness_vote_same: "adjust_witness_vote db w d = Inr db' \<Longrightarrow> ledger_same db db'"
  unfolding adjust_witness_vote_def by (rule modify_witness_same)

lemma set_voted_same:
  "modify_account db n (\<lambda>a. Inr (a\<lparr> ac_witnesses_voted_for := h a \<rparr>)) = Inr db' \<Longrightarrow> ledger_same db db'"
  by (erule modify_account_same) (auto simp: same_holdings_def)

lemma account_witness_vote_same:
  assumes "account_witness_vote_do_apply db o1 = Inr db'"
  shows "ledger_same db db'"
  using assms unfolding account_witness_vote_do_apply_def
  by (auto simp: bindE_eq_Inr fc_assert_eq_Inr ledger_same_def split: option.splits
      dest!: adjust_witness_vote_same set_voted_same)

lemma set_proxy_same: "modify_account db n (set_proxy p) = Inr db' \<Longrightarrow> ledger_same db db'"
  by (erule modify_account_same) (auto simp: same_holdings_def set_proxy_def)

lemma lose_vote_same: "modify_account db n lose_vote = Inr db' \<Longrightarrow> ledger_same db db'"
  by (erule modify_account_same) (auto simp: same_holdings_def lose_vote_def)

lemma account_witness_proxy_same: "account_witness_proxy_do_apply db o1 = Inr db' \<Longrightarrow> ledger_same db db'"
  unfolding account_witness_proxy_do_apply_def
  by (auto simp: bindE_eq_Inr fc_assert_eq_Inr split: if_splits
      dest!: vote_ledger.adjust_proxied_array_frame clear_witness_votes_same set_proxy_same intro: ledger_same_trans)

lemma decline_voting_rights_same: "decline_voting_rights_do_apply db o1 = Inr db' \<Longrightarrow> ledger_same db db'"
  unfolding decline_voting_rights_do_apply_def Let_def
  by (auto simp: bindE_eq_Inr fc_assert_eq_Inr ledger_same_def split: if_splits option.splits)

lemma process_decline_same: "process_decline_voting_rights db = Inr db' \<Longrightarrow> ledger_same db db'"
  unfolding process_decline_voting_rights_def
proof (erule foldE_rel)
  fix r t t' assume "process_decline_request r t = Inr t'"
  then show "ledger_same t t'"
    unfolding process_decline_request_def
    by (auto simp: bindE_eq_Inr ledger_same_def
        dest!: vote_ledger.adjust_proxied_array_frame clear_witness_votes_same lose_vote_same)
qed (auto intro: ledger_same_trans)

section \<open>The median resists a minority\<close>

text \<open>Prices of one market that the model keeps in 64 bits.\<close>

definition feed_ok :: "price \<Rightarrow> bool" where
  "feed_ok p \<longleftrightarrow> price_ok p \<and> symbol (base p) = SBD_SYMBOL \<and> symbol (quote p) = STEEM_SYMBOL"

lemma feed_lt: "feed_ok p \<Longrightarrow> feed_ok q \<Longrightarrow> price_lt p q \<longleftrightarrow> price_ratio p < price_ratio q"
  by (rule price_lt_ratio) (auto simp: feed_ok_def BQ_def)

lemma insert_price_mset [simp]: "mset (insert_price x ys) = add_mset x (mset ys)"
  by (induction ys) auto

lemma sort_prices_mset [simp]: "mset (sort_prices xs) = mset xs"
  by (induction xs) (auto simp: sort_prices_def)

lemma sort_prices_set [simp]: "set (sort_prices xs) = set xs"
  by (metis set_mset_mset sort_prices_mset)

lemma insert_price_sorted:
  "feed_ok x \<Longrightarrow> list_all feed_ok ys \<Longrightarrow> sorted (map price_ratio ys) \<Longrightarrow> sorted (map price_ratio (insert_price x ys))"
proof (induction ys)
  case (Cons y ys)
  have "set (insert_price x ys) = insert x (set ys)" by (metis insert_price_mset set_mset_mset set_mset_add_mset_insert)
  with Cons show ?case by (auto simp: feed_lt)
qed simp

lemma sort_prices_sorted: "list_all feed_ok xs \<Longrightarrow> sorted (map price_ratio (sort_prices xs))"
proof (induction xs)
  case (Cons x xs)
  have "list_all feed_ok (sort_prices xs)"
    using Cons.prems by (simp add: list_all_iff)
  with Cons show ?case by (auto simp: sort_prices_def intro: insert_price_sorted)
qed (simp add: sort_prices_def)

lemma sorted_prefix_count:
  assumes "sorted (map f xs)" "i < length xs" "P (f (xs ! i))" "\<And>a b. a \<le> b \<Longrightarrow> P b \<Longrightarrow> P a"
  shows "i < length (filter (\<lambda>x. P (f x)) xs)"
proof -
  have "\<forall>x\<in>set (take (Suc i) xs). P (f x)"
    using assms by (auto simp: in_set_conv_nth sorted_iff_nth_mono intro!: assms(4)[of "f (xs ! _)" "f (xs ! i)"])
  then have "filter (\<lambda>x. P (f x)) (take (Suc i) xs) = take (Suc i) xs" by (simp add: filter_id_conv)
  then have "Suc i \<le> length (filter (\<lambda>x. P (f x)) (take (Suc i) xs @ drop (Suc i) xs))"
    using assms(2) by (simp only: filter_append length_append) simp
  then show ?thesis by simp
qed

lemma sorted_suffix_count:
  assumes "sorted (map f xs)" "i < length xs" "P (f (xs ! i))" "\<And>a b. a \<le> b \<Longrightarrow> P a \<Longrightarrow> P b"
  shows "length xs - i \<le> length (filter (\<lambda>x. P (f x)) xs)"
proof -
  have "P (f (drop i xs ! j))" if "j < length (drop i xs)" for j
    using assms(1,2,3) that by (auto simp: sorted_iff_nth_mono intro!: assms(4)[of "f (xs ! i)" "f (xs ! (i + j))"])
  then have "filter (\<lambda>x. P (f x)) (drop i xs) = drop i xs" by (auto simp: filter_id_conv in_set_conv_nth)
  then have "length xs - i \<le> length (filter (\<lambda>x. P (f x)) (take i xs @ drop i xs))"
    by (simp only: filter_append length_append) simp
  then show ?thesis by simp
qed

lemma filter_sort_prices: "length (filter P (sort_prices xs)) = length (filter P xs)"
  by (metis mset_filter size_mset sort_prices_mset)

text \<open>C14. The median price cannot be moved by a minority of witnesses: when more than half of the published
  prices lie between two prices, the median that the feed update selects lies between them too.\<close>

theorem median_price_robust:
  assumes ok: "list_all feed_ok feeds" "feed_ok lo" "feed_ok hi"
    and honest: "length feeds < 2 * length (filter (\<lambda>p. price_le lo p \<and> price_le p hi) feeds)"
  shows "price_le lo (median_price feeds) \<and> price_le (median_price feeds) hi"
proof -
  let ?n = "length feeds" and ?s = "sort_prices feeds" and ?m = "median_price feeds"
  have len: "length ?s = ?n" by (metis size_mset sort_prices_mset)
  have srt: "sorted (map price_ratio ?s)" by (rule sort_prices_sorted[OF ok(1)])
  have n0: "0 < ?n" using honest by (cases feeds) auto
  then have i: "?n div 2 < length ?s" by (simp add: len)
  have m: "?m = ?s ! (?n div 2)" by (simp add: median_price_def)
  have "?m \<in> set feeds" using i unfolding m by (metis nth_mem set_mset_mset sort_prices_mset)
  then have mok: "feed_ok ?m" using ok(1) by (simp add: list_all_iff)
  have le: "price_le p q \<longleftrightarrow> price_ratio p \<le> price_ratio q" if "feed_ok p" "feed_ok q" for p q
    using that price_derived_comparisons(2)[of p q] feed_lt[OF that] price_eq_ratio[of p q]
    by (auto simp: feed_ok_def BQ_def)
  let ?good = "filter (\<lambda>p. price_le lo p \<and> price_le p hi) feeds"
  have split: "length ?good + length (filter (\<lambda>p. \<not> (price_le lo p \<and> price_le p hi)) feeds) = ?n"
    by (rule sum_length_filter_compl)
  have bad: "length (filter Q feeds) \<le> length (filter (\<lambda>p. \<not> (price_le lo p \<and> price_le p hi)) feeds)"
    if "\<And>p. feed_ok p \<Longrightarrow> Q p \<Longrightarrow> \<not> (price_le lo p \<and> price_le p hi)" for Q
    using ok(1) that by (induction feeds) auto
  have "price_ratio lo \<le> price_ratio ?m"
  proof (rule ccontr)
    assume "\<not> ?thesis"
    with sorted_prefix_count[OF srt i, of "\<lambda>r. r < price_ratio lo"] m
    have "?n div 2 < length (filter (\<lambda>p. price_ratio p < price_ratio lo) feeds)" by (simp add: filter_sort_prices)
    moreover have "length (filter (\<lambda>p. price_ratio p < price_ratio lo) feeds) \<le>
        length (filter (\<lambda>p. \<not> (price_le lo p \<and> price_le p hi)) feeds)"
      by (rule bad) (use le ok(2) in auto)
    ultimately show False using split honest by linarith
  qed
  moreover have "price_ratio ?m \<le> price_ratio hi"
  proof (rule ccontr)
    assume "\<not> ?thesis"
    with sorted_suffix_count[OF srt i, of "\<lambda>r. price_ratio hi < r"] m
    have "?n - ?n div 2 \<le> length (filter (\<lambda>p. price_ratio hi < price_ratio p) feeds)" by (simp add: filter_sort_prices len)
    moreover have "length (filter (\<lambda>p. price_ratio hi < price_ratio p) feeds) \<le>
        length (filter (\<lambda>p. \<not> (price_le lo p \<and> price_le p hi)) feeds)"
      by (rule bad) (use le ok(3) in auto)
    ultimately show False using split honest by linarith
  qed
  ultimately show ?thesis using le mok ok(2,3) by simp
qed

definition feed :: "int \<Rightarrow> price" where
  "feed x = \<lparr> base = mk_asset x SBD_SYMBOL, quote = mk_asset 1000 STEEM_SYMBOL \<rparr>"

theorem median_price_robust_witness:
  "median_price [feed 500, feed 520, feed 999999, feed 510, feed 1] = feed 510 \<and>
   price_le (feed 500) (median_price [feed 500, feed 520, feed 999999, feed 510, feed 1]) \<and>
   price_le (median_price [feed 500, feed 520, feed 999999, feed 510, feed 1]) (feed 520)"
proof -
  have "median_price [feed 500, feed 520, feed 999999, feed 510, feed 1] = feed 510" by code_simp
  moreover have ok: "list_all feed_ok [feed 500, feed 520, feed 999999, feed 510, feed 1]" "feed_ok (feed 500)" "feed_ok (feed 520)"
    by (simp_all add: feed_ok_def feed_def price_ok_def)
  moreover have "length [feed 500, feed 520, feed 999999, feed 510, feed 1] <
    2 * length (filter (\<lambda>p. price_le (feed 500) p \<and> price_le p (feed 520)) [feed 500, feed 520, feed 999999, feed 510, feed 1])"
    by code_simp
  ultimately show ?thesis using median_price_robust[of "[feed 500, feed 520, feed 999999, feed 510, feed 1]" "feed 500" "feed 520"]
    by blast
qed

end
