(* ===== verification/Voting.thy ===== *)
theory Voting
  imports Witnesses
begin

text \<open>
  Votes follow vesting shares: the votes of the accounts that vote themselves, of those whose shares
  are proxied to them, and of the chains that end at the recursion limit add up to the vesting
  shares of the chain.  The effect of each propagation in src/src/core/chain/database.cpp on that sum
  is exact, and changing a proxy never closes a loop of proxies.
\<close>

section \<open>Every vesting share has one vote\<close>

definition vsf :: "account_object \<Rightarrow> int" where
  "vsf a = (if ac_proxy a = [] then amount (ac_vesting_shares a) + sum_list (ac_proxied_vsf_votes a)
            else ac_proxied_vsf_votes a ! 3)"

definition vsf_total :: "database \<Rightarrow> int" where
  "vsf_total db = tbl_sum vsf (db_accounts db)"

definition proxied_arrays :: "database \<Rightarrow> bool" where
  "proxied_arrays db \<longleftrightarrow> list_all (\<lambda>a. length (ac_proxied_vsf_votes a) = 4) (rows (db_accounts db))"

lemma vsf_votes_value:
  assumes "vsf_votes a = Inr v" "length (ac_proxied_vsf_votes a) = 4"
  shows "v = vsf a"
proof -
  have "foldE (\<lambda>x acc. safe_add acc x) xs s = Inr t \<Longrightarrow> t = s + sum_list xs" for xs s t
    by (drule foldE_sum[where h = "\<lambda>x. x" and g = "\<lambda>x. x"]) (auto dest: safe_add_value)
  with assms show ?thesis
    by (auto simp: vsf_votes_def vsf_def witness_vote_weight_def accumulate_def split: if_splits)
qed

text \<open>The effect of one account update on the number of votes.\<close>

lemma modify_account_vsf:
  assumes "modify_account db n f = Inr db'" "get_account db n = Inr a" "f a = Inr a'"
  shows "vsf_total db' = vsf_total db - vsf a + vsf a'"
  using assms tbl_modify_sum[of "\<lambda>a. ac_name a = n" f "db_accounts db" _ a a' vsf]
  by (auto simp: modify_account_def get_account_def tbl_get_Inr bindE_eq_Inr vsf_total_def)

lemma modify_account_get:
  assumes "modify_account db n f = Inr db'"
  obtains a a' where "get_account db n = Inr a" "f a = Inr a'" "ac_name a = n"
proof -
  from assms obtain t where "tbl_modify (\<lambda>a. ac_name a = n) f (db_accounts db) = Inr t"
    by (auto simp: modify_account_def bindE_eq_Inr)
  from tbl_modify_find[OF this] obtain a a' where "tbl_find (\<lambda>a. ac_name a = n) (db_accounts db) = Some a" "f a = Inr a'" by blast
  with that tbl_find_Some show ?thesis by (fastforce simp: get_account_def tbl_get_Inr)
qed

lemma get_account_arrays: "get_account db n = Inr a \<Longrightarrow> proxied_arrays db \<Longrightarrow> length (ac_proxied_vsf_votes a) = 4"
  by (auto simp: get_account_def tbl_get_Inr proxied_arrays_def list_all_iff dest!: tbl_find_Some)

lemma adjust_witness_votes_accounts:
  assumes "adjust_witness_votes db n delta = Inr db'"
  shows "db_accounts db' = db_accounts db"
  using assms unfolding adjust_witness_votes_def
  by (rule foldE_rel) (auto simp: adjust_witness_vote_def modify_witness_def bindE_eq_Inr)

lemma modify_account_arrays:
  assumes "modify_account db n f = Inr db'" "proxied_arrays db"
    and "\<And>a a'. f a = Inr a' \<Longrightarrow> length (ac_proxied_vsf_votes a') = length (ac_proxied_vsf_votes a)"
  shows "proxied_arrays db'"
  unfolding proxied_arrays_def
  by (rule modify_account_all[OF assms(1)]) (use assms(2,3) in \<open>auto simp: proxied_arrays_def\<close>)

lemma length_4: "length xs = 4 \<Longrightarrow> \<exists>a b c d. xs = [a, b, c, d]"
  by (cases xs rule: list.exhaust; cases "tl xs"; cases "tl (tl xs)"; cases "tl (tl (tl xs))") auto

lemma sum_list_update_int: "k < length xs \<Longrightarrow> sum_list (xs[k := x]) = sum_list xs - xs ! k + (x :: int)"
  by (induction xs arbitrary: k) (auto split: nat.splits)

lemma vsf_update:
  assumes "length (ac_proxied_vsf_votes p) = 4" "depth < 4"
  shows "vsf (p\<lparr> ac_proxied_vsf_votes := (ac_proxied_vsf_votes p)[depth := ac_proxied_vsf_votes p ! depth + delta] \<rparr>) =
    vsf p + (if ac_proxy p = [] \<or> depth = 3 then delta else 0)"
  using assms by (auto simp: vsf_def sum_list_update_int)

lemma modify_get_after:
  assumes "modify_account db n f = Inr db'" "get_account db n = Inr a" "f a = Inr a'" "ac_name a' = n"
  shows "get_account db' n = Inr a'"
  using assms tbl_modify_find_after[of "\<lambda>a. ac_name a = n" f "db_accounts db" _ a a']
  by (auto simp: modify_account_def get_account_def tbl_get_Inr bindE_eq_Inr)

lemma adjust_proxied_vsf:
  assumes "adjust_proxied_witness_votes db n delta depth = Inr db'" "proxied_arrays db" "get_account db n = Inr a"
  shows "proxied_arrays db' \<and> vsf_total db' = vsf_total db + (if ac_proxy a \<noteq> [] \<and> depth < 4 then delta else 0)"
  using assms
proof (induction db n delta depth arbitrary: db' a rule: adjust_proxied_witness_votes.induct)
  case (1 db n delta depth)
  note run = 1(2) and arr = 1(3) and a = 1(4)
  consider (self) "ac_proxy a = []" | (deep) "ac_proxy a \<noteq> []" "depth \<ge> 4" | (up) "ac_proxy a \<noteq> []" "\<not> depth \<ge> 4" by blast
  then show ?case
  proof cases
    case self
    with run a have "adjust_witness_votes db n delta = Inr db'"
      by (subst (asm) adjust_proxied_witness_votes.simps) auto
    from adjust_witness_votes_accounts[OF this] arr self show ?thesis
      by (simp add: proxied_arrays_def vsf_total_def)
  next
    case deep
    with run a arr show ?thesis by (subst (asm) adjust_proxied_witness_votes.simps) simp
  next
    case up
    let ?f = "\<lambda>p. bindE (safe_add (ac_proxied_vsf_votes p ! depth) delta) (\<lambda>v.
         Inr (p\<lparr> ac_proxied_vsf_votes := (ac_proxied_vsf_votes p)[depth := v] \<rparr>))"
    from run a up obtain db1 where m: "modify_account db (ac_proxy a) ?f = Inr db1"
      and r: "adjust_proxied_witness_votes db1 (ac_proxy a) delta (depth + 1) = Inr db'"
      by (subst (asm) adjust_proxied_witness_votes.simps) (auto simp: bindE_eq_Inr)
    from modify_account_get[OF m] obtain p p' where p: "get_account db (ac_proxy a) = Inr p" "?f p = Inr p'" "ac_name p = ac_proxy a"
      by blast
    then have p': "p' = p\<lparr> ac_proxied_vsf_votes := (ac_proxied_vsf_votes p)[depth := ac_proxied_vsf_votes p ! depth + delta] \<rparr>"
      by (auto simp: bindE_eq_Inr dest!: safe_add_value)
    have arr1: "proxied_arrays db1" by (rule modify_account_arrays[OF m arr]) (auto simp: bindE_eq_Inr)
    have g: "get_account db1 (ac_proxy a) = Inr p'" by (rule modify_get_after[OF m p(1,2)]) (simp add: p' p(3))
    have "vsf_total db1 = vsf_total db + (if ac_proxy p = [] \<or> depth = 3 then delta else 0)"
      using modify_account_vsf[OF m p(1,2)] up(2) get_account_arrays[OF p(1) arr] by (simp add: p' vsf_update)
    with 1(1)[OF a up m r arr1 g] up show ?thesis by (auto simp: p' split: if_splits)
  qed
qed

lemma add_proxied_loop:
  assumes "foldE (\<lambda>i p. bindE (safe_add (ac_proxied_vsf_votes p ! (i + depth)) (delta ! i)) (\<lambda>v.
         Inr (p\<lparr> ac_proxied_vsf_votes := (ac_proxied_vsf_votes p)[i + depth := v] \<rparr>))) is p = Inr p'"
    and "distinct is" "\<forall>i\<in>set is. i + depth < length (ac_proxied_vsf_votes p)"
  shows "\<exists>v. p' = p\<lparr> ac_proxied_vsf_votes := v \<rparr> \<and> length v = length (ac_proxied_vsf_votes p) \<and>
    (\<forall>j<length v. v ! j = ac_proxied_vsf_votes p ! j + (if depth \<le> j \<and> j - depth \<in> set is then delta ! (j - depth) else 0))"
  using assms
proof (induction "is" arbitrary: p)
  case Nil
  then show ?case by (intro exI[of _ "ac_proxied_vsf_votes p"]) simp
next
  case (Cons i js)
  define x where "x = (ac_proxied_vsf_votes p)[i + depth := ac_proxied_vsf_votes p ! (i + depth) + delta ! i]"
  have "foldE (\<lambda>i p. bindE (safe_add (ac_proxied_vsf_votes p ! (i + depth)) (delta ! i)) (\<lambda>v.
         Inr (p\<lparr> ac_proxied_vsf_votes := (ac_proxied_vsf_votes p)[i + depth := v] \<rparr>))) js
         (p\<lparr> ac_proxied_vsf_votes := x \<rparr>) = Inr p'"
    using Cons.prems(1) by (auto simp: bindE_eq_Inr x_def dest!: safe_add_value)
  from Cons.IH[OF this] Cons.prems(2,3) obtain v where
    v: "p' = p\<lparr> ac_proxied_vsf_votes := v \<rparr>" "length v = length x"
      "\<forall>j<length v. v ! j = x ! j + (if depth \<le> j \<and> j - depth \<in> set js then delta ! (j - depth) else 0)"
    by (auto simp: x_def)
  have "v ! j = ac_proxied_vsf_votes p ! j + (if depth \<le> j \<and> j - depth \<in> set (i # js) then delta ! (j - depth) else 0)"
    if "j < length v" for j
    using that v Cons.prems(2,3) by (auto simp: x_def nth_list_update)
  with v show ?case by (intro exI[of _ v]) (simp add: x_def)
qed

lemma add_proxied_length:
  "add_proxied depth delta p = Inr p' \<Longrightarrow> length (ac_proxied_vsf_votes p') = length (ac_proxied_vsf_votes p)"
  unfolding add_proxied_def by (drule foldE_pres[where h = "\<lambda>p. length (ac_proxied_vsf_votes p)"]) (auto simp: bindE_eq_Inr)

lemma sum_list_4: "length v = 4 \<Longrightarrow> sum_list v = v ! 0 + v ! 1 + v ! 2 + (v ! 3 :: int)"
  using length_4[of v] by auto

lemma add_proxied_vsf:
  assumes "add_proxied depth delta p = Inr p'" "length (ac_proxied_vsf_votes p) = 4" "length delta = 5" "depth < 4"
  shows "vsf p' = vsf p + (if ac_proxy p = [] then sum_list (take (4 - depth) delta) else delta ! (3 - depth))"
    "ac_proxy p' = ac_proxy p" "length (ac_proxied_vsf_votes p') = 4" "ac_name p' = ac_name p"
proof -
  obtain v where p': "p' = p\<lparr> ac_proxied_vsf_votes := v \<rparr>" and l: "length v = 4"
    and n: "\<forall>j<4. v ! j = ac_proxied_vsf_votes p ! j + (if depth \<le> j \<and> j - depth \<in> set (rev [0..<4 - depth]) then delta ! (j - depth) else 0)"
  proof -
    have "\<forall>i\<in>set (rev [0..<4 - depth]). i + depth < length (ac_proxied_vsf_votes p)" using assms(2) by auto
    from add_proxied_loop[OF assms(1)[unfolded add_proxied_def] _ this] show ?thesis
      using assms(2) that by auto
  qed
  show "ac_proxy p' = ac_proxy p" "length (ac_proxied_vsf_votes p') = 4" "ac_name p' = ac_name p"
    by (simp_all add: p' l)
  obtain e ds where "delta = e # ds" "length ds = 4" using assms(3) by (cases delta) auto
  with length_4[of ds] obtain f g h i where y: "delta = [e, f, g, h, i]" by auto
  have "depth = 0 \<or> depth = 1 \<or> depth = 2 \<or> depth = 3" using assms(4) by auto
  then show "vsf p' = vsf p + (if ac_proxy p = [] then sum_list (take (4 - depth) delta) else delta ! (3 - depth))"
    using n by (elim disjE) (simp_all add: p' vsf_def sum_list_4[OF l] sum_list_4[OF assms(2)] y)
qed

lemma adjust_proxied_array_vsf:
  assumes "adjust_proxied_witness_votes_array db n delta depth = Inr db'" "proxied_arrays db" "get_account db n = Inr a"
    and "length delta = 5"
  shows "proxied_arrays db' \<and> vsf_total db' = vsf_total db + (if ac_proxy a \<noteq> [] then sum_list (take (4 - depth) delta) else 0)"
  using assms
proof (induction db n delta depth arbitrary: db' a rule: adjust_proxied_witness_votes_array.induct)
  case (1 db n delta depth)
  note run = 1(2) and arr = 1(3) and a = 1(4) and len = 1(5)
  consider (self) "ac_proxy a = []" | (deep) "ac_proxy a \<noteq> []" "depth \<ge> 4" | (up) "ac_proxy a \<noteq> []" "\<not> depth \<ge> 4" by blast
  then show ?case
  proof cases
    case self
    with run a obtain d where "adjust_witness_votes db n d = Inr db'"
      by (subst (asm) adjust_proxied_witness_votes_array.simps) (auto simp: bindE_eq_Inr)
    from adjust_witness_votes_accounts[OF this] arr self show ?thesis
      by (simp add: proxied_arrays_def vsf_total_def)
  next
    case deep
    with run a arr show ?thesis by (subst (asm) adjust_proxied_witness_votes_array.simps) simp
  next
    case up
    from run a up obtain db1 where m: "modify_account db (ac_proxy a) (add_proxied depth delta) = Inr db1"
      and r: "adjust_proxied_witness_votes_array db1 (ac_proxy a) delta (depth + 1) = Inr db'"
      by (subst (asm) adjust_proxied_witness_votes_array.simps) (auto simp: bindE_eq_Inr)
    from modify_account_get[OF m] obtain p p' where p: "get_account db (ac_proxy a) = Inr p" "add_proxied depth delta p = Inr p'"
      "ac_name p = ac_proxy a" by blast
    note v = add_proxied_vsf[OF p(2) get_account_arrays[OF p(1) arr] len]
    have d: "depth < 4" using up(2) by simp
    have arr1: "proxied_arrays db1" by (rule modify_account_arrays[OF m arr add_proxied_length])
    have g: "get_account db1 (ac_proxy a) = Inr p'" by (rule modify_get_after[OF m p(1,2)]) (simp add: v(4)[OF d] p(3))
    have "take (4 - depth) delta = take (3 - depth) delta @ [delta ! (3 - depth)]"
      using take_Suc_conv_app_nth[of "3 - depth" delta] len d Suc_diff_le[of depth 3] by simp
    then have t: "sum_list (take (4 - depth) delta) = sum_list (take (3 - depth) delta) + delta ! (3 - depth)" by simp
    show ?thesis
      using 1(1)[OF a up m r arr1 g len] modify_account_vsf[OF m p(1,2)] v(1,2)[OF d] up t by simp
  qed
qed

section \<open>Proxy chains\<close>

definition proxy_rel :: "database \<Rightarrow> (account_name_type \<times> account_name_type) set" where
  "proxy_rel db = {(n, p). \<exists>a. get_account db n = Inr a \<and> ac_proxy a = p \<and> p \<noteq> []}"

definition vote_key :: "account_object \<Rightarrow> account_name_type \<times> account_name_type" where
  "vote_key a = (ac_name a, ac_proxy a)"

definition same_keys :: "database \<Rightarrow> database \<Rightarrow> bool" where
  "same_keys db db' \<longleftrightarrow> map vote_key (rows (db_accounts db')) = map vote_key (rows (db_accounts db))"

lemma modify_account_map:
  assumes "modify_account db n f = Inr db'" "\<And>a a'. f a = Inr a' \<Longrightarrow> h a' = h a"
  shows "map h (rows (db_accounts db')) = map h (rows (db_accounts db))"
proof -
  from assms(1) obtain ys where "modify_first (\<lambda>a. ac_name a = n) f (rows (db_accounts db)) = Inr ys"
    and "db' = db\<lparr> db_accounts := (db_accounts db)\<lparr> rows := ys \<rparr> \<rparr>"
    by (auto simp: modify_account_def tbl_modify_def bindE_eq_Inr)
  with modify_first_split[OF this(1)] assms(2) show ?thesis by auto
qed

interpretation vote_keys: vote_frame same_keys
proof unfold_locales
  fix db n g db' assume m: "modify_account db n g = Inr db'"
    and g: "\<And>a a'. g a = Inr a' \<Longrightarrow> \<exists>v. a' = a\<lparr> ac_proxied_vsf_votes := v \<rparr>"
  show "same_keys db db'" unfolding same_keys_def
  proof (rule modify_account_map[OF m])
    fix a a' assume "g a = Inr a'"
    from g[OF this] show "vote_key a' = vote_key a" by (auto simp: vote_key_def)
  qed
next
  fix db n f db' assume "modify_witness db n f = Inr db'"
  then show "same_keys db db'" by (auto simp: same_keys_def modify_witness_def bindE_eq_Inr)
qed (simp_all add: same_keys_def)

lemma find_map_key:
  assumes "map h ys = map h xs" "\<And>x y. h x = h y \<Longrightarrow> P x = P y"
  shows "map_option h (List.find P ys) = map_option h (List.find P xs)"
  using assms(1)
proof (induction xs arbitrary: ys)
  case (Cons x xs)
  then obtain y zs where y: "ys = y # zs" "h y = h x" "map h zs = map h xs" by (cases ys) auto
  from Cons.IH[OF y(3)] assms(2)[OF y(2)] y(1,2) show ?case by simp
qed simp

lemma same_keys_get:
  assumes "same_keys db db'"
  shows "map_sum id vote_key (get_account db' n) = map_sum id vote_key (get_account db n)"
proof -
  have "map_option vote_key (tbl_find (\<lambda>a. ac_name a = n) (db_accounts db')) =
      map_option vote_key (tbl_find (\<lambda>a. ac_name a = n) (db_accounts db))"
    unfolding tbl_find_def by (rule find_map_key[OF assms[unfolded same_keys_def]]) (simp add: vote_key_def)
  then show ?thesis
    by (cases "tbl_find (\<lambda>a. ac_name a = n) (db_accounts db')"; cases "tbl_find (\<lambda>a. ac_name a = n) (db_accounts db)")
      (simp_all add: get_account_def tbl_get_def)
qed

lemma same_keys_account:
  assumes "same_keys db db'" "get_account db n = Inr a"
  obtains a' where "get_account db' n = Inr a'" "vote_key a' = vote_key a"
  using same_keys_get[OF assms(1), of n] assms(2) that by (cases "get_account db' n") auto

lemma same_keys_sym: "same_keys db db' \<Longrightarrow> same_keys db' db"
  by (simp add: same_keys_def)

lemma same_keys_proxy:
  assumes "same_keys db db'"
  shows "proxy_rel db' = proxy_rel db"
proof -
  have "proxy_rel d \<subseteq> proxy_rel d'" if k: "same_keys d d'" for d d'
  proof
    fix x assume "x \<in> proxy_rel d"
    then obtain n a where x: "x = (n, ac_proxy a)" and a: "get_account d n = Inr a" "ac_proxy a \<noteq> []"
      by (auto simp: proxy_rel_def)
    obtain a' where "get_account d' n = Inr a'" "vote_key a' = vote_key a" by (rule same_keys_account[OF k a(1)])
    with a(2) show "x \<in> proxy_rel d'" by (auto simp: x proxy_rel_def vote_key_def)
  qed
  with assms same_keys_sym show ?thesis by blast
qed

text \<open>An account that the chain of proxies does not reach is not changed.\<close>

lemma modify_account_other:
  assumes "modify_account db p f = Inr db'" "\<And>a a'. f a = Inr a' \<Longrightarrow> ac_name a' = ac_name a" "m \<noteq> p"
  shows "get_account db' m = get_account db m"
proof -
  from assms(1) obtain ys where m: "modify_first (\<lambda>a. ac_name a = p) f (rows (db_accounts db)) = Inr ys"
    and db': "db' = db\<lparr> db_accounts := (db_accounts db)\<lparr> rows := ys \<rparr> \<rparr>"
    by (auto simp: modify_account_def tbl_modify_def bindE_eq_Inr)
  from modify_first_split[OF m] obtain us v v' vs where
    s: "rows (db_accounts db) = us @ v # vs" "ys = us @ v' # vs" "ac_name v = p" "f v = Inr v'" by blast
  have "List.find (\<lambda>a. ac_name a = m) (us @ v' # vs) = List.find (\<lambda>a. ac_name a = m) (us @ v # vs)"
    using s(3) assms(2)[OF s(4)] assms(3) by (induction us) auto
  then show ?thesis by (simp add: get_account_def tbl_get_def tbl_find_def db' s)
qed

lemma adjust_array_other:
  assumes "adjust_proxied_witness_votes_array db n delta depth = Inr db'" "(n, m) \<notin> (proxy_rel db)\<^sup>+"
  shows "get_account db' m = get_account db m"
  using assms
proof (induction db n delta depth arbitrary: db' rule: adjust_proxied_witness_votes_array.induct)
  case (1 db n delta depth)
  note run = 1(2) and nr = 1(3)
  obtain a where a: "get_account db n = Inr a"
    using run by (subst (asm) adjust_proxied_witness_votes_array.simps) (auto simp: bindE_eq_Inr)
  consider (self) "ac_proxy a = []" | (deep) "ac_proxy a \<noteq> []" "depth \<ge> 4" | (up) "ac_proxy a \<noteq> []" "\<not> depth \<ge> 4" by blast
  then show ?case
  proof cases
    case self
    with run a obtain d where "adjust_witness_votes db n d = Inr db'"
      by (subst (asm) adjust_proxied_witness_votes_array.simps) (auto simp: bindE_eq_Inr)
    from adjust_witness_votes_accounts[OF this] show ?thesis by (simp add: get_account_def)
  next
    case deep
    with run a show ?thesis by (subst (asm) adjust_proxied_witness_votes_array.simps) simp
  next
    case up
    from run a up obtain db1 where m: "modify_account db (ac_proxy a) (add_proxied depth delta) = Inr db1"
      and r: "adjust_proxied_witness_votes_array db1 (ac_proxy a) delta (depth + 1) = Inr db'"
      by (subst (asm) adjust_proxied_witness_votes_array.simps) (auto simp: bindE_eq_Inr)
    have e: "(n, ac_proxy a) \<in> proxy_rel db" using a up(1) by (auto simp: proxy_rel_def)
    have p: "add_proxied depth delta x = Inr x' \<Longrightarrow> \<exists>v. x' = x\<lparr> ac_proxied_vsf_votes := v \<rparr>" for x x'
      by (rule add_proxied_votes)
    have k: "same_keys db db1" by (rule vote_keys.proxied_change[OF m p])
    have "m \<noteq> ac_proxy a" using e nr by blast
    moreover have "ac_name x' = ac_name x" if "add_proxied depth delta x = Inr x'" for x x' using p[OF that] by auto
    ultimately have g: "get_account db1 m = get_account db m" by (intro modify_account_other[OF m])
    have "(ac_proxy a, m) \<notin> (proxy_rel db1)\<^sup>+"
      using nr e unfolding same_keys_proxy[OF k] by (meson trancl_into_trancl2)
    with 1(1)[OF a up m r] g show ?thesis by simp
  qed
qed

lemma proxy_walk_ids:
  assumes "proxy_walk db chain c = Inr ()" "get_account db (ac_name c) = Inr c" "(ac_name c, m) \<in> (proxy_rel db)\<^sup>+"
    "get_account db m = Inr a"
  shows "ac_id a \<notin> set chain"
  using assms
proof (induction db chain c rule: proxy_walk.induct)
  case (1 db chain c)
  have p: "ac_proxy c \<noteq> []" using 1(3,4) by (auto simp: proxy_rel_def elim: converse_tranclE)
  with 1(2) obtain nx where nx: "get_account db (ac_proxy c) = Inr nx" "ac_id nx \<notin> set chain" "length (ac_id nx # chain) \<le> 4"
    and w: "proxy_walk db (ac_id nx # chain) nx = Inr ()"
    by (subst (asm) proxy_walk.simps) (auto simp: bindE_eq_Inr fc_assert_eq_Inr)
  have n: "ac_name nx = ac_proxy c" using nx(1) by (auto simp: get_account_def tbl_get_Inr dest!: tbl_find_Some)
  from 1(4) consider (base) "(ac_name c, m) \<in> proxy_rel db"
    | (step) y where "(ac_name c, y) \<in> proxy_rel db" "(y, m) \<in> (proxy_rel db)\<^sup>+" by (auto elim: converse_tranclE)
  then show ?case
  proof cases
    case base
    then have "m = ac_proxy c" using 1(3) by (auto simp: proxy_rel_def)
    with nx 1(5) show ?thesis by simp
  next
    case step
    then have "y = ac_proxy c" using 1(3) by (auto simp: proxy_rel_def)
    with step(2) n have "(ac_name nx, m) \<in> (proxy_rel db)\<^sup>+" by simp
    with 1(1)[OF p nx(1) nx(2,3) w] nx(1) n 1(5) show ?thesis by simp
  qed
qed

section \<open>The number of votes\<close>

text \<open>The votes of all accounts add up to the vesting shares, and no chain of proxies is a loop.\<close>

definition votes_cover :: "database \<Rightarrow> bool" where
  "votes_cover db \<longleftrightarrow> proxied_arrays db \<and> acyclic (proxy_rel db) \<and>
     symbol (dgp_total_vesting_shares (db_dgp db)) = VESTS_SYMBOL \<and>
     vsf_total db = amount (dgp_total_vesting_shares (db_dgp db))"

definition own_votes :: "account_object \<Rightarrow> int" where
  "own_votes a = amount (ac_vesting_shares a) + sum_list (ac_proxied_vsf_votes a)"

interpretation vote_dgp: vote_frame "\<lambda>db db'. db_dgp db' = db_dgp db"
  by unfold_locales (auto simp: modify_witness_def modify_account_def bindE_eq_Inr)

lemma neg_all_value: "neg_all xs = Inr ys \<Longrightarrow> ys = map uminus xs"
proof -
  have "foldE (\<lambda>x ys. bindE (safe_neg x) (\<lambda>y. Inr (ys @ [y]))) xs zs = Inr ys \<Longrightarrow> ys = zs @ map uminus xs" for zs
  proof (induction xs arbitrary: zs)
    case (Cons x xs)
    then have "foldE (\<lambda>x ys. bindE (safe_neg x) (\<lambda>y. Inr (ys @ [y]))) xs (zs @ [- x]) = Inr ys"
      by (auto simp: bindE_eq_Inr dest!: safe_neg_value)
    from Cons.IH[OF this] show ?case by simp
  qed simp
  from this[of "[]"] show "neg_all xs = Inr ys \<Longrightarrow> ys = map uminus xs" by (simp add: neg_all_def)
qed

lemma vote_deltas_sum:
  assumes "length (ac_proxied_vsf_votes a) = 4"
  shows "sum_list (take 4 (map uminus (amount (ac_vesting_shares a) # ac_proxied_vsf_votes a))) = ac_proxied_vsf_votes a ! 3 - own_votes a"
    and "sum_list (take 4 (amount (ac_vesting_shares a) # ac_proxied_vsf_votes a)) = own_votes a - ac_proxied_vsf_votes a ! 3"
  using length_4[OF assms] by (auto simp: own_votes_def)

lemma account_name: "get_account db n = Inr a \<Longrightarrow> ac_name a = n"
  by (auto simp: get_account_def tbl_get_Inr dest!: tbl_find_Some)

lemma remove_votes:
  assumes "get_account db n = Inr a" "vote_deltas a = Inr d" "adjust_proxied_witness_votes_array db n d 0 = Inr db1"
    and "proxied_arrays db" "acyclic (proxy_rel db)"
  shows "get_account db1 n = Inr a" "proxied_arrays db1" "proxy_rel db1 = proxy_rel db" "db_dgp db1 = db_dgp db"
    "vsf_total db1 - vsf a = vsf_total db - own_votes a"
proof -
  have l: "length (ac_proxied_vsf_votes a) = 4" by (rule get_account_arrays[OF assms(1,4)])
  have d: "d = map uminus (amount (ac_vesting_shares a) # ac_proxied_vsf_votes a)"
    using neg_all_value assms(2) unfolding vote_deltas_def by blast
  have "(n, n) \<notin> (proxy_rel db)\<^sup>+" using assms(5) by (simp add: acyclic_def)
  from adjust_array_other[OF assms(3) this] assms(1) show "get_account db1 n = Inr a" by simp
  have len: "length d = 5" using l d by simp
  note v = adjust_proxied_array_vsf[OF assms(3,4,1) len]
  show "proxied_arrays db1" using v by simp
  show "proxy_rel db1 = proxy_rel db" by (rule same_keys_proxy[OF vote_keys.adjust_proxied_array_frame[OF assms(3)]])
  show "db_dgp db1 = db_dgp db" by (rule vote_dgp.adjust_proxied_array_frame[OF assms(3)])
  show "vsf_total db1 - vsf a = vsf_total db - own_votes a"
    using v vote_deltas_sum(1)[OF l, folded d] by (auto simp: vsf_def own_votes_def split: if_splits)
qed

lemma clear_votes_account:
  assumes "clear_witness_votes db n = Inr db'" "get_account db n = Inr a"
  shows "get_account db' n = Inr (a\<lparr> ac_witnesses_voted_for := 0 \<rparr>)" "proxied_arrays db \<Longrightarrow> proxied_arrays db'"
    "proxy_rel db' = proxy_rel db" "db_dgp db' = db_dgp db" "vsf_total db' = vsf_total db"
proof -
  let ?f = "\<lambda>a. Inr (a\<lparr> ac_witnesses_voted_for := 0 \<rparr>) :: account_object res"
  obtain wv where m: "modify_account (db\<lparr> db_witness_votes := wv \<rparr>) n ?f = Inr db'"
    using assms(1) by (auto simp: clear_witness_votes_def Let_def)
  have g: "get_account (db\<lparr> db_witness_votes := wv \<rparr>) n = Inr a" using assms(2) by (simp add: get_account_def)
  show "get_account db' n = Inr (a\<lparr> ac_witnesses_voted_for := 0 \<rparr>)"
    by (rule modify_get_after[OF m g]) (simp_all add: account_name[OF assms(2)])
  show "proxied_arrays db'" if "proxied_arrays db"
    by (rule modify_account_arrays[OF m]) (use that in \<open>auto simp: proxied_arrays_def\<close>)
  have "same_keys (db\<lparr> db_witness_votes := wv \<rparr>) db'" unfolding same_keys_def
    by (rule modify_account_map[OF m]) (auto simp: vote_key_def)
  then have "same_keys db db'" by (simp add: same_keys_def)
  then show "proxy_rel db' = proxy_rel db" by (rule same_keys_proxy)
  show "db_dgp db' = db_dgp db" using m by (auto simp: modify_account_def bindE_eq_Inr)
  show "vsf_total db' = vsf_total db"
    using modify_account_vsf[OF m g refl] by (simp add: vsf_total_def vsf_def)
qed

lemma change_proxy:
  assumes "modify_account db n f = Inr db'" "get_account db n = Inr a"
    and f: "\<And>a a'. f a = Inr a' \<Longrightarrow> ac_name a' = ac_name a \<and> ac_proxied_vsf_votes a' = ac_proxied_vsf_votes a \<and>
      ac_vesting_shares a' = ac_vesting_shares a \<and> ac_proxy a' = p"
    and "proxied_arrays db"
  shows "proxied_arrays db'" "proxy_rel db' \<subseteq> (if p = [] then proxy_rel db else insert (n, p) (proxy_rel db))"
    "vsf_total db' = vsf_total db - vsf a + (if p = [] then own_votes a else ac_proxied_vsf_votes a ! 3)"
    "db_dgp db' = db_dgp db"
    "\<exists>a'. get_account db' n = Inr a' \<and> ac_proxied_vsf_votes a' = ac_proxied_vsf_votes a \<and> ac_proxy a' = p"
proof -
  obtain a' where a': "f a = Inr a'" using modify_account_get[OF assms(1)] assms(2) by fastforce
  have g: "get_account db' n = Inr a'"
    by (rule modify_get_after[OF assms(1,2) a']) (use f[OF a'] account_name[OF assms(2)] in simp)
  then show "\<exists>a'. get_account db' n = Inr a' \<and> ac_proxied_vsf_votes a' = ac_proxied_vsf_votes a \<and> ac_proxy a' = p"
    using f[OF a'] by blast
  show "proxied_arrays db'" by (rule modify_account_arrays[OF assms(1,4)]) (use f in auto)
  show "db_dgp db' = db_dgp db" using assms(1) by (auto simp: modify_account_def bindE_eq_Inr)
  show "vsf_total db' = vsf_total db - vsf a + (if p = [] then own_votes a else ac_proxied_vsf_votes a ! 3)"
    using modify_account_vsf[OF assms(1,2) a'] f[OF a'] by (simp add: vsf_def own_votes_def)
  show "proxy_rel db' \<subseteq> (if p = [] then proxy_rel db else insert (n, p) (proxy_rel db))"
  proof
    fix x assume "x \<in> proxy_rel db'"
    then obtain m b where x: "x = (m, ac_proxy b)" and b: "get_account db' m = Inr b" "ac_proxy b \<noteq> []"
      by (auto simp: proxy_rel_def)
    show "x \<in> (if p = [] then proxy_rel db else insert (n, p) (proxy_rel db))"
    proof (cases "m = n")
      case True
      with b g f[OF a'] show ?thesis by (simp add: x)
    next
      case False
      have "get_account db' m = get_account db m"
        by (rule modify_account_other[OF assms(1) _ False]) (use f in blast)
      with b(1) have "get_account db m = Inr b" by simp
      with b(2) show ?thesis by (auto simp: x proxy_rel_def)
    qed
  qed
qed

lemma proxy_keeps_cover:
  assumes valid: "account_witness_proxy_validate o1 = Inr u" and run: "account_witness_proxy_do_apply db o1 = Inr db'"
    and inv: "votes_cover db"
  shows "votes_cover db'"
proof -
  have np: "awp_proxy o1 \<noteq> awp_account o1" using valid by (auto simp: account_witness_proxy_validate_def res_simps)
  have i: "proxied_arrays db" "acyclic (proxy_rel db)" "vsf_total db = amount (dgp_total_vesting_shares (db_dgp db))"
    "symbol (dgp_total_vesting_shares (db_dgp db)) = VESTS_SYMBOL"
    using inv by (auto simp: votes_cover_def)
  obtain a d db1 where a: "get_account db (awp_account o1) = Inr a" and d: "vote_deltas a = Inr d"
    and r: "adjust_proxied_witness_votes_array db (awp_account o1) d 0 = Inr db1"
    and rest: "(if awp_proxy o1 \<noteq> [] then
        bindE (get_account db1 (awp_proxy o1)) (\<lambda>new_proxy.
        bindE (proxy_walk db1 (remdups [ac_id a, ac_id new_proxy]) new_proxy) (\<lambda>_.
        bindE (clear_witness_votes db1 (awp_account o1)) (\<lambda>db.
        bindE (modify_account db (awp_account o1) (set_proxy (awp_proxy o1))) (\<lambda>db.
        bindE (neg_all d) (\<lambda>delta.
        adjust_proxied_witness_votes_array db (awp_account o1) delta 0)))))
      else modify_account db1 (awp_account o1) (set_proxy (awp_proxy o1))) = (Inr db' :: database res)"
    using run unfolding account_witness_proxy_do_apply_def bindE_eq_Inr fc_assert_eq_Inr
    by (elim exE conjE) (rule that, assumption+)
  note rm = remove_votes[OF a d r i(1,2)]
  have sp: "set_proxy p x = Inr x' \<Longrightarrow> ac_name x' = ac_name x \<and> ac_proxied_vsf_votes x' = ac_proxied_vsf_votes x \<and>
      ac_vesting_shares x' = ac_vesting_shares x \<and> ac_proxy x' = p" for p x x' by (auto simp: set_proxy_def)
  show ?thesis
  proof (cases "awp_proxy o1 = []")
    case True
    with rest have m: "modify_account db1 (awp_account o1) (set_proxy []) = Inr db'" by simp
    note c = change_proxy[where p = "[]", OF m rm(1) sp rm(2)]
    show ?thesis unfolding votes_cover_def
      using c(1-4) rm(3-5) i acyclic_subset[OF i(2)] by simp
  next
    case False
    with rest obtain q db2 db3 e where q: "get_account db1 (awp_proxy o1) = Inr q"
      and w: "proxy_walk db1 (remdups [ac_id a, ac_id q]) q = Inr ()"
      and cl: "clear_witness_votes db1 (awp_account o1) = Inr db2"
      and m: "modify_account db2 (awp_account o1) (set_proxy (awp_proxy o1)) = Inr db3"
      and e: "neg_all d = Inr e" and r2: "adjust_proxied_witness_votes_array db3 (awp_account o1) e 0 = Inr db'"
      by (auto simp: bindE_eq_Inr)
    note cv = clear_votes_account[OF cl rm(1)]
    note c = change_proxy[where p = "awp_proxy o1", OF m cv(1) sp cv(2)[OF rm(2)]]
    obtain a3 where a3: "get_account db3 (awp_account o1) = Inr a3" "ac_proxy a3 = awp_proxy o1" using c(5) by blast
    have l: "length (ac_proxied_vsf_votes a) = 4" by (rule get_account_arrays[OF a i(1)])
    have "d = map uminus (amount (ac_vesting_shares a) # ac_proxied_vsf_votes a)"
      using neg_all_value d unfolding vote_deltas_def by blast
    then have e: "e = amount (ac_vesting_shares a) # ac_proxied_vsf_votes a" using neg_all_value[OF e] by simp
    note v = adjust_proxied_array_vsf[OF r2 c(1) a3(1)]
    have "(awp_proxy o1, awp_account o1) \<notin> (proxy_rel db1)\<^sup>+"
      using proxy_walk_ids[OF w, of "awp_account o1" a] account_name[OF q] q rm(1) by (auto simp: set_remdups simp del: remdups.simps)
    then have "(awp_proxy o1, awp_account o1) \<notin> (proxy_rel db2)\<^sup>*"
      unfolding cv(3) using np by (auto dest: rtranclD)
    then have "acyclic (insert (awp_account o1, awp_proxy o1) (proxy_rel db2))"
      using i(2) by (simp add: acyclic_insert cv(3) rm(3))
    then have "acyclic (proxy_rel db3)" using c(2) False by (auto intro: acyclic_subset)
    moreover have "proxy_rel db' = proxy_rel db3" by (rule same_keys_proxy[OF vote_keys.adjust_proxied_array_frame[OF r2]])
    moreover have "db_dgp db' = db_dgp db" using vote_dgp.adjust_proxied_array_frame[OF r2] c(4) cv(4) rm(4) by simp
    moreover have "vsf_total db' = vsf_total db"
      using v c(3) cv(5) rm(5) a3(2) False l vote_deltas_sum(2)[OF l]
      by (cases "ac_proxy a = []") (simp_all add: e vsf_def own_votes_def)
    ultimately show ?thesis using v i l by (simp add: votes_cover_def e)
  qed
qed

lemma decline_keeps_cover:
  assumes "process_decline_voting_rights db = Inr db'"
  shows "votes_cover db \<longrightarrow> votes_cover db'"
  using assms unfolding process_decline_voting_rights_def
proof (rule foldE_rel)
  fix r t t' assume run: "process_decline_request r t = Inr t'"
  obtain a d t1 t2 t3 where a: "get_account t (dvr_account r) = Inr a" and d: "vote_deltas a = Inr d"
    and r: "adjust_proxied_witness_votes_array t (dvr_account r) d 0 = Inr t1"
    and c: "clear_witness_votes t1 (dvr_account r) = Inr t2" and m: "modify_account t2 (dvr_account r) lose_vote = Inr t3"
    and t': "t' = t3\<lparr> db_decline_requests := tbl_erase r (db_decline_requests t3) \<rparr>"
    using run by (auto simp: process_decline_request_def bindE_eq_Inr)
  have lv: "lose_vote x = Inr x' \<Longrightarrow> ac_name x' = ac_name x \<and> ac_proxied_vsf_votes x' = ac_proxied_vsf_votes x \<and>
      ac_vesting_shares x' = ac_vesting_shares x \<and> ac_proxy x' = []" for x x' by (auto simp: lose_vote_def)
  show "votes_cover t \<longrightarrow> votes_cover t'"
  proof
    assume inv: "votes_cover t"
    then have i: "proxied_arrays t" "acyclic (proxy_rel t)" by (auto simp: votes_cover_def)
    note rm = remove_votes[OF a d r i]
    note cv = clear_votes_account[OF c rm(1)]
    note ch = change_proxy[where p = "[]", OF m cv(1) lv cv(2)[OF rm(2)]]
    have "votes_cover t3" unfolding votes_cover_def
      using ch(1-4) cv(3-5) rm(3-5) inv acyclic_subset[OF i(2)]
      by (cases "ac_proxy a = []") (simp_all add: votes_cover_def vsf_def own_votes_def)
    then show "votes_cover t'"
      by (simp add: t' votes_cover_def proxied_arrays_def proxy_rel_def vsf_total_def get_account_def)
  qed
qed auto

lemma cover_frame:
  assumes "votes_cover db" "db_accounts db' = db_accounts db" "dgp_total_vesting_shares (db_dgp db') = dgp_total_vesting_shares (db_dgp db)"
  shows "votes_cover db'"
  using assms by (simp add: votes_cover_def proxied_arrays_def proxy_rel_def vsf_total_def get_account_def)

lemma vests_stay:
  assumes "modify_account db n f = Inr db'" "votes_cover db"
    and f: "\<And>a a'. f a = Inr a' \<Longrightarrow> vote_key a' = vote_key a \<and> ac_proxied_vsf_votes a' = ac_proxied_vsf_votes a \<and>
      ac_vesting_shares a' = ac_vesting_shares a"
  shows "votes_cover db'"
proof -
  obtain a a' where a: "get_account db n = Inr a" "f a = Inr a'" by (rule modify_account_get[OF assms(1)])
  have "same_keys db db'" unfolding same_keys_def by (rule modify_account_map[OF assms(1)]) (use f in blast)
  then have "proxy_rel db' = proxy_rel db" by (rule same_keys_proxy)
  moreover have "proxied_arrays db'"
    by (rule modify_account_arrays[OF assms(1)]) (use assms(2) f in \<open>auto simp: votes_cover_def\<close>)
  moreover have "vsf_total db' = vsf_total db"
    using modify_account_vsf[OF assms(1) a] f[OF a(2)] by (simp add: vsf_def vote_key_def)
  moreover have "db_dgp db' = db_dgp db" using assms(1) by (auto simp: modify_account_def bindE_eq_Inr)
  ultimately show ?thesis using assms(2) by (simp add: votes_cover_def)
qed

lemma steem_balance_keeps_cover:
  assumes "adjust_balance db n d = Inr db'" "symbol d = STEEM_SYMBOL" "votes_cover db"
  shows "votes_cover db'"
proof -
  have "modify_account db n (\<lambda>acnt.
          bindE (asset_add (ac_balance acnt) d) (\<lambda>b.
          fc_assert 3448 (True \<longrightarrow> amount b \<ge> 0) (Inr (acnt\<lparr> ac_balance := b \<rparr>)))) = Inr db'"
    using assms(1,2) by (simp add: adjust_balance_def modify_balance_def)
  then show ?thesis
    by (rule vests_stay[OF _ assms(3)]) (auto simp: bindE_eq_Inr fc_assert_eq_Inr vote_key_def)
qed

lemma gain_vests_cover:
  assumes m: "modify_account db n f = Inr db1"
    and f: "\<And>a a'. f a = Inr a' \<Longrightarrow> ac_name a' = ac_name a \<and> ac_proxy a' = ac_proxy a \<and>
      ac_proxied_vsf_votes a' = ac_proxied_vsf_votes a \<and> amount (ac_vesting_shares a') = amount (ac_vesting_shares a) + x"
    and g: "db_accounts db2 = db_accounts db1" "symbol (dgp_total_vesting_shares (db_dgp db2)) = VESTS_SYMBOL"
      "amount (dgp_total_vesting_shares (db_dgp db2)) = amount (dgp_total_vesting_shares (db_dgp db)) + x"
    and v: "adjust_proxied_witness_votes db2 n x 0 = Inr db'" and inv: "votes_cover db"
  shows "votes_cover db'"
proof -
  obtain a a' where a: "get_account db n = Inr a" "f a = Inr a'" "ac_name a = n" by (rule modify_account_get[OF m])
  have a1: "get_account db1 n = Inr a'" by (rule modify_get_after[OF m a(1,2)]) (use f[OF a(2)] a(3) in simp)
  then have a2: "get_account db2 n = Inr a'" by (simp add: get_account_def g(1))
  have arr: "proxied_arrays db2" unfolding proxied_arrays_def g(1)
    using modify_account_arrays[OF m] inv f by (auto simp: votes_cover_def proxied_arrays_def)
  note w = adjust_proxied_vsf[OF v arr a2]
  have "vsf_total db2 = vsf_total db - vsf a + vsf a'"
    using modify_account_vsf[OF m a(1,2)] by (simp add: vsf_total_def g(1))
  with w f[OF a(2)] have "vsf_total db' = vsf_total db + x" by (auto simp: vsf_def split: if_splits)
  moreover have "proxy_rel db' = proxy_rel db"
  proof -
    have "same_keys db db1" unfolding same_keys_def
      by (rule modify_account_map[OF m]) (use f in \<open>simp add: vote_key_def\<close>)
    then have "proxy_rel db1 = proxy_rel db" by (rule same_keys_proxy)
    then show ?thesis
      using same_keys_proxy[OF vote_keys.adjust_proxied_frame[OF v]] by (simp add: proxy_rel_def get_account_def g(1))
  qed
  moreover have "db_dgp db' = db_dgp db2" by (rule vote_dgp.adjust_proxied_frame[OF v])
  ultimately show ?thesis using w inv g(2,3) by (simp add: votes_cover_def)
qed

lemma share_price_symbol:
  assumes "get_vesting_share_price g = Inr p" "symbol (dgp_total_vesting_shares g) = VESTS_SYMBOL"
    "asset_mul_price x p = Inr y" "symbol x = STEEM_SYMBOL"
  shows "symbol y = VESTS_SYMBOL"
  using assms by (auto simp: get_vesting_share_price_def mk_price_Inr asset_mul_price_def fc_assert_eq_Inr Let_def split: if_splits)

lemma to_vesting_keeps_cover:
  assumes run: "transfer_to_vesting_do_apply db o1 = Inr db'" and inv: "votes_cover db"
  shows "votes_cover db'"
proof -
  obtain f t neg db1 r where neg: "asset_neg (tv_amount o1) = Inr neg" and ab: "adjust_balance db f neg = Inr db1"
    and cv: "create_vesting db1 t (tv_amount o1) False = Inr r" and db': "db' = fst r"
    using run unfolding transfer_to_vesting_do_apply_def
    by (auto simp: bindE_eq_Inr fc_assert_eq_Inr)
  obtain p nv db2 db3 where sym: "symbol (tv_amount o1) = STEEM_SYMBOL"
    and p: "get_vesting_share_price (db_dgp db1) = Inr p" and nv: "asset_mul_price (tv_amount o1) p = Inr nv"
    and a: "adjust_balance db1 t nv = Inr db2"
    and g: "modify_dgp db2 (\<lambda>g.
          bindE (asset_add (dgp_total_vesting_fund_steem g) (tv_amount o1)) (\<lambda>f.
          bindE (asset_add (dgp_total_vesting_shares g) nv) (\<lambda>v.
          Inr (g\<lparr> dgp_total_vesting_fund_steem := f, dgp_total_vesting_shares := v \<rparr>)))) = Inr db3"
    and v: "adjust_proxied_witness_votes db3 t (amount nv) 0 = Inr db'"
    using cv db' by (auto simp: create_vesting_def fc_assert_eq_Inr bindE_eq_Inr)
  have c1: "votes_cover db1"
    by (rule steem_balance_keeps_cover[OF ab _ inv]) (use asset_neg_value[OF neg] sym in simp)
  then have vs: "symbol nv = VESTS_SYMBOL" using share_price_symbol[OF p _ nv sym] by (simp add: votes_cover_def)
  let ?f = "\<lambda>acnt. bindE (asset_add (ac_vesting_shares acnt) nv) (\<lambda>b.
          fc_assert 3488 (True \<longrightarrow> amount b \<ge> 0) (Inr (acnt\<lparr> ac_vesting_shares := b \<rparr>)))"
  have m: "modify_account db1 t ?f = Inr db2" using a vs by (simp add: adjust_balance_def modify_balance_def)
  have d2: "db_dgp db2 = db_dgp db1" using m by (auto simp: modify_account_def bindE_eq_Inr)
  have "db_accounts db3 = db_accounts db2" "symbol (dgp_total_vesting_shares (db_dgp db3)) = VESTS_SYMBOL"
      "amount (dgp_total_vesting_shares (db_dgp db3)) = amount (dgp_total_vesting_shares (db_dgp db1)) + amount nv"
    using g c1 by (auto simp: modify_dgp_def bindE_eq_Inr d2 votes_cover_def dest!: asset_add_value)
  then show ?thesis
    by (intro gain_vests_cover[OF m _ _ _ _ v c1]) (auto simp: bindE_eq_Inr fc_assert_eq_Inr dest!: asset_add_value)
qed

section \<open>Properties\<close>

inductive vote_step :: "database \<Rightarrow> database \<Rightarrow> bool" where
  Power_up: "transfer_to_vesting_do_apply db o1 = Inr db' \<Longrightarrow> vote_step db db'"
| Set_proxy: "account_witness_proxy_validate o2 = Inr u \<Longrightarrow> account_witness_proxy_do_apply db o2 = Inr db' \<Longrightarrow>
     vote_step db db'"
| Decline: "process_decline_voting_rights db = Inr db' \<Longrightarrow> vote_step db db'"

text \<open>C9. Every vesting share has exactly one vote.  Along every sequence of transfers to vesting, validated
  changes of voting proxies and executions of declined voting rights, the votes of the accounts
  that vote themselves, with the votes proxied to them, and the votes that end at the proxy depth limit add up
  to the total vesting shares, and no chain of proxies becomes a loop.\<close>

theorem one_vote_per_share:
  assumes "vote_step\<^sup>*\<^sup>* db db'" and "votes_cover db"
  shows "votes_cover db'"
  using assms
proof (induction rule: rtranclp_induct)
  case (step y z)
  from step(2) step(3)[OF step(4)] show ?case
    by (cases rule: vote_step.cases) (auto dest: to_vesting_keeps_cover proxy_keeps_cover decline_keeps_cover)
qed

definition proxy_op :: "string \<Rightarrow> string \<Rightarrow> account_witness_proxy_operation" where
  "proxy_op a p = \<lparr> awp_account = a, awp_proxy = p \<rparr>"

definition proxied_db :: database where
  "proxied_db = res_or sample_db (account_witness_proxy_do_apply sample_db (proxy_op ''alice'' ''bob''))"

definition proxied_db2 :: database where
  "proxied_db2 = res_or sample_db (account_witness_proxy_do_apply proxied_db (proxy_op ''bob'' ''carol''))"

definition powered_db :: database where
  "powered_db = res_or sample_db (transfer_to_vesting_do_apply proxied_db2
     \<lparr> tv_from = ''alice'', tv_to = [], tv_amount = mk_asset 3000 STEEM_SYMBOL \<rparr>)"

theorem one_vote_per_share_witness:
  "votes_cover powered_db \<and> map vsf (rows (db_accounts powered_db)) = [0, 0, 9000000] \<and>
   \<not> isOK (account_witness_proxy_do_apply powered_db (proxy_op ''carol'' ''alice''))"
proof -
  have v: "account_witness_proxy_validate (proxy_op ''alice'' ''bob'') = Inr ()"
    "account_witness_proxy_validate (proxy_op ''bob'' ''carol'') = Inr ()" by code_simp+
  have 1: "account_witness_proxy_do_apply sample_db (proxy_op ''alice'' ''bob'') = Inr proxied_db" by code_simp
  have 2: "account_witness_proxy_do_apply proxied_db (proxy_op ''bob'' ''carol'') = Inr proxied_db2" by code_simp
  have 3: "transfer_to_vesting_do_apply proxied_db2
     \<lparr> tv_from = ''alice'', tv_to = [], tv_amount = mk_asset 3000 STEEM_SYMBOL \<rparr> = Inr powered_db" by code_simp
  have "list_all (\<lambda>a. ac_proxy a = []) (rows (db_accounts sample_db))" by code_simp
  then have "proxy_rel sample_db = {}"
    by (auto simp: proxy_rel_def get_account_def tbl_get_Inr list_all_iff dest!: tbl_find_Some)
  moreover have "proxied_arrays sample_db \<and> symbol (dgp_total_vesting_shares (db_dgp sample_db)) = VESTS_SYMBOL \<and>
     vsf_total sample_db = amount (dgp_total_vesting_shares (db_dgp sample_db))" by code_simp
  ultimately have i: "votes_cover sample_db" by (simp add: votes_cover_def acyclic_def)
  have r: "vote_step\<^sup>*\<^sup>* sample_db powered_db"
    using Set_proxy[OF v(1) 1] Set_proxy[OF v(2) 2] Power_up[OF 3] by (meson r_into_rtranclp rtranclp_trans)
  have "map vsf (rows (db_accounts powered_db)) = [0, 0, 9000000]" by code_simp
  moreover have "\<not> isOK (account_witness_proxy_do_apply powered_db (proxy_op ''carol'' ''alice''))" by code_simp
  ultimately show ?thesis using one_vote_per_share[OF r i] by blast
qed

end
