(* ===== verification/Uint128.thy ===== *)
theory Uint128
  imports Prelude
begin

unbundle bit_operations_syntax

text \<open>
  The 128-bit unsigned integer of src/src/base/fc/include/fc/uint128.hpp and
  src/src/base/fc/uint128.cpp: two 64-bit halves, with addition by carry, negation by complement,
  shifts across the halves, multiplication by 32-bit limbs, the full 256-bit product and the
  shift-subtract division behind \<open>operator %=\<close>.  \<open>val128\<close> is the number a pair of halves stands
  for; the lemmas show that every operation computes the arithmetic operation modulo \<open>2 ^ 128\<close>
  (exactly, for the full product, the right shift and the division), which is what the
  theories above use for \<open>uint128_t\<close>.
\<close>

section \<open>Definitions\<close>

record uint128 =
  hi :: "64 word"
  lo :: "64 word"

definition val128 :: "uint128 \<Rightarrow> int" where
  "val128 u = uint (hi u) * two64 + uint (lo u)"

definition u128_of_u64 :: "64 word \<Rightarrow> uint128" where
  "u128_of_u64 l = \<lparr> hi = 0, lo = l \<rparr>"

definition u128_of_i64 :: "64 word \<Rightarrow> uint128" where
  "u128_of_i64 l = \<lparr> hi = (if l <s 0 then -1 else 0), lo = l \<rparr>"

definition u128_lt :: "uint128 \<Rightarrow> uint128 \<Rightarrow> bool" where
  "u128_lt a b = (if hi a = hi b then lo a < lo b else hi a < hi b)"

definition u128_ge :: "uint128 \<Rightarrow> uint128 \<Rightarrow> bool" where
  "u128_ge l r \<longleftrightarrow> l = r \<or> u128_lt r l"

definition u128_preinc :: "uint128 \<Rightarrow> uint128" where
  "u128_preinc a = (let l = lo a + 1 in \<lparr> hi = hi a + (if l = 0 then 1 else 0), lo = l \<rparr>)"

definition u128_not :: "uint128 \<Rightarrow> uint128" where
  "u128_not a = \<lparr> hi = NOT (hi a), lo = NOT (lo a) \<rparr>"

definition u128_neg :: "uint128 \<Rightarrow> uint128" where
  "u128_neg a = u128_preinc (u128_not a)"

definition u128_add :: "uint128 \<Rightarrow> uint128 \<Rightarrow> uint128" where
  "u128_add a u =
     (let old = lo a; l = lo a + lo u
      in \<lparr> hi = hi a + (hi u + (if l < old then 1 else 0)), lo = l \<rparr>)"

definition u128_sub :: "uint128 \<Rightarrow> uint128 \<Rightarrow> uint128" where
  "u128_sub a u = u128_add a (u128_neg u)"

definition u128_or_assign :: "uint128 \<Rightarrow> uint128 \<Rightarrow> uint128" where
  "u128_or_assign a u = \<lparr> hi = hi a OR hi u, lo = lo a OR lo u \<rparr>"

text \<open>The binary \<open>operator |\<close> is written \<open>uint128(l)=(r)\<close> in the header.\<close>

definition u128_or :: "uint128 \<Rightarrow> uint128 \<Rightarrow> uint128" where
  "u128_or l r = r"

text \<open>\<open>operator <<=\<close> and \<open>operator >>=\<close>; the shift amount has passed \<open>to_integer\<close>.\<close>

definition u128_shl :: "uint128 \<Rightarrow> nat \<Rightarrow> uint128" where
  "u128_shl a rhs =
     (if rhs \<ge> 128 then \<lparr> hi = 0, lo = 0 \<rparr>
      else
        let (n, h, l) = (if rhs \<ge> 64 then (rhs - 64, lo a, 0) else (rhs, hi a, lo a)) in
        if n \<noteq> 0 then
          let mask = NOT (drop_bit n (- 1 :: 64 word))
          in \<lparr> hi = push_bit n h OR drop_bit (64 - n) (l AND mask), lo = push_bit n l \<rparr>
        else \<lparr> hi = h, lo = l \<rparr>)"

definition u128_shr :: "uint128 \<Rightarrow> nat \<Rightarrow> uint128" where
  "u128_shr a rhs =
     (if rhs \<ge> 128 then \<lparr> hi = 0, lo = 0 \<rparr>
      else
        let (n, h, l) = (if rhs \<ge> 64 then (rhs - 64, 0, hi a) else (rhs, hi a, lo a)) in
        if n \<noteq> 0 then
          let mask = NOT (push_bit n (- 1 :: 64 word))
          in \<lparr> hi = drop_bit n h, lo = drop_bit n l OR push_bit (64 - n) (h AND mask) \<rparr>
        else \<lparr> hi = h, lo = l \<rparr>)"

definition limb_lo :: "64 word \<Rightarrow> 64 word" where
  "limb_lo x = ucast (ucast x :: 32 word)"

definition limb_hi :: "64 word \<Rightarrow> 64 word" where
  "limb_hi x = ucast (ucast (drop_bit 32 x) :: 32 word)"

definition u128_mul :: "uint128 \<Rightarrow> uint128 \<Rightarrow> uint128" where
  "u128_mul a b =
     (let a0 = limb_lo (lo a); a1 = limb_hi (lo a); a2 = limb_lo (hi a); a3 = limb_hi (hi a);
          b0 = limb_lo (lo b); b1 = limb_hi (lo b); b2 = limb_lo (hi b); b3 = limb_hi (hi b);
          t = \<lparr> hi = 0, lo = a3 * b0 \<rparr>;
          t = u128_add t (u128_of_u64 (a2 * b1));
          t = u128_add t (u128_of_u64 (a1 * b2));
          t = u128_add t (u128_of_u64 (a0 * b3));
          t = u128_shl t 32;
          t = u128_add t (u128_of_u64 (a2 * b0));
          t = u128_add t (u128_of_u64 (a1 * b1));
          t = u128_add t (u128_of_u64 (a0 * b2));
          t = u128_shl t 32;
          t = u128_add t (u128_of_u64 (a1 * b0));
          t = u128_add t (u128_of_u64 (a0 * b1));
          t = u128_shl t 32
      in u128_add t (u128_of_u64 (a0 * b0)))"

definition full_product :: "uint128 \<Rightarrow> uint128 \<Rightarrow> uint128 \<times> uint128" where
  "full_product a b =
     (let s = u128_mul (u128_of_u64 (lo a)) (u128_of_u64 (lo b));
          r = u128_mul (u128_of_u64 (hi a)) (u128_of_u64 (lo b));
          q = u128_mul (u128_of_u64 (lo a)) (u128_of_u64 (hi b));
          p = u128_mul (u128_of_u64 (hi a)) (u128_of_u64 (hi b));
          acc = u128_of_u64 (hi s);
          acc = u128_add acc (u128_of_u64 (lo q));
          acc = u128_add acc (u128_of_u64 (lo r));
          y1 = lo acc;
          acc = u128_of_u64 (hi acc);
          acc = u128_add acc (u128_of_u64 (hi q));
          acc = u128_add acc (u128_of_u64 (hi r));
          acc = u128_add acc (u128_of_u64 (lo p));
          y2 = lo acc;
          y3 = hi acc + hi p
      in (\<lparr> hi = y3, lo = y2 \<rparr>, \<lparr> hi = y1, lo = lo s \<rparr>))"

text \<open>The two loops of \<open>divide\<close>.  The first doubles \<open>d\<close> at most 127 times and the second
  halves \<open>x\<close> until it is 0, so 128 iterations are enough for each.\<close>

definition divide_up_cond :: "uint128 \<Rightarrow> uint128 \<Rightarrow> bool" where
  "divide_up_cond n d \<longleftrightarrow> u128_ge n d \<and> lo (u128_shr d 127) AND 1 = 0"

fun divide_up :: "nat \<Rightarrow> uint128 \<Rightarrow> uint128 \<Rightarrow> uint128 \<Rightarrow> (uint128 \<times> uint128) option" where
  "divide_up 0 n d x = (if divide_up_cond n d then None else Some (d, x))"
| "divide_up (Suc k) n d x =
     (if divide_up_cond n d then divide_up k n (u128_shl d 1) (u128_shl x 1) else Some (d, x))"

fun divide_down ::
  "nat \<Rightarrow> uint128 \<Rightarrow> uint128 \<Rightarrow> uint128 \<Rightarrow> uint128 \<Rightarrow> (uint128 \<times> uint128) option" where
  "divide_down 0 n d x answer = (if hi x = 0 \<and> lo x = 0 then Some (answer, n) else None)"
| "divide_down (Suc k) n d x answer =
     (if hi x = 0 \<and> lo x = 0 then Some (answer, n)
      else if u128_ge n d
        then divide_down k (u128_sub n d) (u128_shr d 1) (u128_shr x 1) (u128_or_assign answer x)
        else divide_down k n (u128_shr d 1) (u128_shr x 1) answer)"

definition u128_divide :: "uint128 \<Rightarrow> uint128 \<Rightarrow> (uint128 \<times> uint128) option res" where
  "u128_divide numerator denominator =
     (if hi denominator = 0 \<and> lo denominator = 0 then Inl Divide_by_zero_exception
      else Inr (case divide_up 128 numerator denominator \<lparr> hi = 0, lo = 1 \<rparr> of
          None \<Rightarrow> None
        | Some (d, x) \<Rightarrow> divide_down 129 numerator d x \<lparr> hi = 0, lo = 0 \<rparr>))"

section \<open>Values\<close>

lemma two64_eq: "two64 = 2 ^ 64"
  by simp

lemma uint64_range: "0 \<le> uint (w :: 64 word)" "uint (w :: 64 word) < two64"
  using uint_lt2p[of w] by simp_all

lemma val128_range: "0 \<le> val128 u" "val128 u < two128"
  using uint64_range[of "hi u"] uint64_range[of "lo u"] by (simp_all add: val128_def)

lemma val128_mod [simp]: "val128 u mod two128 = val128 u"
  using val128_range by simp

lemma val128_inject: "val128 a = val128 b \<longleftrightarrow> a = b"
proof
  assume e: "val128 a = val128 b"
  have "uint (lo a) = val128 a mod two64" "uint (lo b) = val128 b mod two64"
    using uint64_range by (simp_all add: val128_def)
  moreover have "uint (hi a) = val128 a div two64" "uint (hi b) = val128 b div two64"
    using uint64_range[of "lo a"] uint64_range[of "lo b"] by (simp_all add: val128_def)
  ultimately have "lo a = lo b" "hi a = hi b"
    using e by (simp_all add: word_uint_eq_iff)
  then show "a = b" by simp
qed simp

lemma val128_of_u64 [simp]: "val128 (u128_of_u64 l) = uint l"
  by (simp add: val128_def u128_of_u64_def)

lemma val128_pair [simp]: "val128 \<lparr> hi = h, lo = l \<rparr> = uint h * two64 + uint l"
  by (simp add: val128_def)

lemma pair_less:
  fixes h h' l l' M :: int
  assumes "0 \<le> l" "l < M" "0 \<le> l'" "l' < M"
  shows "h * M + l < h' * M + l' \<longleftrightarrow> h < h' \<or> (h = h' \<and> l < l')"
proof (cases h h' rule: linorder_cases)
  case less
  then have "(h + 1) * M \<le> h' * M" using assms by (intro mult_right_mono) simp_all
  with less assms show ?thesis by (simp add: distrib_right)
next
  case greater
  then have "(h' + 1) * M \<le> h * M" using assms by (intro mult_right_mono) simp_all
  with greater assms show ?thesis by (simp add: distrib_right)
qed simp

lemma u128_lt_val: "u128_lt a b \<longleftrightarrow> val128 a < val128 b"
  unfolding val128_def pair_less[OF uint64_range uint64_range]
  by (auto simp: u128_lt_def word_less_alt word_uint_eq_iff)

lemma u128_ge_val: "u128_ge a b \<longleftrightarrow> val128 b \<le> val128 a"
  by (auto simp: u128_ge_def u128_lt_val val128_inject[symmetric])

section \<open>Addition, negation and subtraction\<close>

lemma pair_mod_gen:
  fixes h l M :: int
  assumes "0 \<le> l" "l < M"
  shows "(h mod M) * M + l = (h * M + l) mod (M * M)"
proof -
  have "h * M mod (M * M) = (h mod M) * M"
    by (simp add: mult_mod_left)
  then have "(h * M + l) mod (M * M) = ((h mod M) * M + l) mod (M * M)"
    by (metis mod_add_left_eq)
  also have "\<dots> = (h mod M) * M + l"
  proof (rule mod_pos_pos_trivial)
    from assms have "0 < M" by linarith
    then show "0 \<le> (h mod M) * M + l" using assms by simp
    have "h mod M + 1 \<le> M" using pos_mod_bound[OF \<open>0 < M\<close>, of h] by linarith
    then have "(h mod M + 1) * M \<le> M * M" using \<open>0 < M\<close> by (intro mult_right_mono) auto
    with assms show "(h mod M) * M + l < M * M" by (simp add: distrib_right)
  qed
  finally show ?thesis ..
qed

lemma two128_eq: "two128 = two64 * two64"
  by simp

lemmas pair_mod = pair_mod_gen[OF uint64_range, of _ "w" for w, folded two128_eq]

lemma carry_iff: "(a :: 64 word) + b < a \<longleftrightarrow> two64 \<le> uint a + uint b"
  using uint64_range[of a] uint64_range[of b]
  by (auto simp: word_less_alt uint_plus_if_size word_size)

lemma val128_add: "val128 (u128_add a b) = (val128 a + val128 b) mod two128"
proof -
  define c :: int where "c = (if two64 \<le> uint (lo a) + uint (lo b) then 1 else 0)"
  have h: "uint (hi a + (hi b + (if lo a + lo b < lo a then 1 else 0)))
      = (uint (hi a) + uint (hi b) + c) mod two64"
    by (simp add: carry_iff c_def uint_word_ariths mod_simps add.assoc)
  have l: "uint (lo a + lo b) = uint (lo a) + uint (lo b) - c * two64"
    using uint64_range[of "lo a"] uint64_range[of "lo b"]
    by (auto simp: uint_plus_if_size word_size c_def)
  have "val128 (u128_add a b)
      = ((uint (hi a) + uint (hi b) + c) mod two64) * two64 + uint (lo a + lo b)"
    by (simp add: u128_add_def Let_def h)
  also have "\<dots> = ((uint (hi a) + uint (hi b) + c) * two64 + uint (lo a + lo b)) mod two128"
    by (rule pair_mod)
  also have "\<dots> = (val128 a + val128 b) mod two128"
    by (simp add: l val128_def algebra_simps)
  finally show ?thesis .
qed

lemma uint_inc64: "uint ((x :: 64 word) + 1) = (if uint x + 1 = two64 then 0 else uint x + 1)"
  using uint64_range[of x] by (simp add: uint_plus_if_size word_size)

lemma u128_preinc_add: "u128_preinc a = u128_add a (u128_of_u64 1)"
proof -
  have "uint (lo a + 1) = 0 \<longleftrightarrow> uint (lo a) + 1 = two64"
    unfolding uint_inc64 using uint64_range(1)[of "lo a"] by (smt (verit))
  moreover have "two64 \<le> uint (lo a) + 1 \<longleftrightarrow> uint (lo a) + 1 = two64"
    using uint64_range(2)[of "lo a"] by linarith
  ultimately have "lo a + 1 = 0 \<longleftrightarrow> lo a + 1 < lo a"
    by (simp add: carry_iff word_uint_eq_iff)
  then show ?thesis
    by (simp add: u128_preinc_def u128_add_def u128_of_u64_def Let_def)
qed

lemma uint_not64: "uint (NOT (x :: 64 word)) = two64 - 1 - uint x"
proof -
  have "uint (NOT x) = (- uint x - 1) mod two64"
    by (simp add: not_eq_complement uint_word_ariths mod_simps)
  also have "\<dots> = (two64 - 1 - uint x) mod two64"
    using mod_mult_self2[of "two64 - 1 - uint x" two64 "- 1"]
    by (simp add: algebra_simps minus_diff_commute)
  also have "\<dots> = two64 - 1 - uint x"
    using uint64_range[of x] by (intro mod_pos_pos_trivial) linarith+
  finally show ?thesis .
qed

lemma val128_neg: "val128 (u128_neg a) = (- val128 a) mod two128"
proof -
  have "val128 (u128_not a) = two128 - 1 - val128 a"
    by (simp add: u128_not_def uint_not64 val128_def)
  then have "val128 (u128_neg a) = (two128 - val128 a) mod two128"
    by (simp add: u128_neg_def u128_preinc_add val128_add)
  also have "\<dots> = (- val128 a) mod two128"
    using mod_add_self2[of "- val128 a" two128] by simp
  finally show ?thesis .
qed

lemma val128_sub: "val128 (u128_sub a b) = (val128 a - val128 b) mod two128"
  by (simp add: u128_sub_def val128_add val128_neg mod_simps)

section \<open>Shifts\<close>

lemma div_less_pos:
  assumes "0 < (A :: int)" "x < B * A"
  shows "x div A < B"
proof (rule ccontr)
  assume "\<not> x div A < B"
  then have "B * A \<le> x div A * A" using assms(1) by (intro mult_right_mono) simp_all
  also have "\<dots> \<le> x" using assms(1) by (simp add: minus_mod_eq_div_mult[symmetric])
  finally show False using assms(2) by simp
qed

lemma shl_high:
  assumes "n < 64"
  shows "push_bit n h OR drop_bit (64 - n) (l AND NOT (drop_bit n (- 1)))
       = push_bit n h + (drop_bit (64 - n) l :: 64 word)"
proof -
  have "drop_bit (64 - n) (l AND NOT (drop_bit n (- 1))) = drop_bit (64 - n) l"
    by (rule bit_word_eqI) (use assms in \<open>auto simp: bit_simps dest: bit_imp_le_length\<close>)
  moreover have "push_bit n h OR drop_bit (64 - n) l = push_bit n h + drop_bit (64 - n) l"
    by (rule disjunctive_add[symmetric]) (use assms in \<open>auto simp: bit_simps dest: bit_imp_le_length\<close>)
  ultimately show ?thesis by simp
qed

lemma shr_low:
  assumes "n < 64"
  shows "drop_bit n l OR push_bit (64 - n) (h AND NOT (push_bit n (- 1)))
       = drop_bit n l + (push_bit (64 - n) h :: 64 word)"
proof -
  have "push_bit (64 - n) (h AND NOT (push_bit n (- 1))) = push_bit (64 - n) h"
    by (rule bit_word_eqI) (use assms in \<open>auto simp: bit_simps dest: bit_imp_le_length\<close>)
  moreover have "drop_bit n l OR push_bit (64 - n) h = drop_bit n l + push_bit (64 - n) h"
    by (rule disjunctive_add[symmetric]) (use assms in \<open>auto simp: bit_simps dest: bit_imp_le_length\<close>)
  ultimately show ?thesis by simp
qed

lemma uint_push64: "uint (push_bit n (x :: 64 word)) = (uint x * 2 ^ n) mod two64"
  unfolding unsigned_push_bit_eq by (simp add: take_bit_eq_mod push_bit_eq_mult)

lemma uint_drop64: "uint (drop_bit n (x :: 64 word)) = uint x div 2 ^ n"
  unfolding unsigned_drop_bit_eq using uint64_range[of x]
  by (simp add: drop_bit_eq_div take_bit_eq_mod)

lemma split64:
  assumes "n < 64"
  obtains A B :: int where "A = 2 ^ n" "B = 2 ^ (64 - n)" "two64 = A * B" "0 < A" "0 < B"
proof -
  have "(2 :: int) ^ n * 2 ^ (64 - n) = 2 ^ 64"
    using assms by (simp add: power_add[symmetric])
  with that show thesis by (metis two64_eq zero_less_numeral zero_less_power)
qed

lemma val128_shl_small:
  assumes "n < 64"
  shows "val128 \<lparr> hi = push_bit n h + drop_bit (64 - n) l, lo = push_bit n l \<rparr>
       = ((uint h * two64 + uint l) * 2 ^ n) mod two128"
proof -
  obtain A B :: int where AB: "A = 2 ^ n" "B = 2 ^ (64 - n)" "two64 = A * B" "0 < A" "0 < B"
    by (rule split64[OF assms])
  define q where "q = uint l div B"
  have lo: "uint (push_bit n l) = (uint l mod B) * A"
    unfolding uint_push64 AB(1)[symmetric] AB(3) by (simp add: mult_mod_left mult.commute)
  have hi: "uint (push_bit n h + drop_bit (64 - n) l) = (uint h * A + q) mod two64"
    by (simp add: uint_word_ariths uint_push64 uint_drop64 mod_simps q_def AB(1,2))
  have "(uint h * A + q) * two64 + (uint l mod B) * A
      = (uint h * two64 + (q * B + uint l mod B)) * A"
    unfolding AB(3) by (simp add: algebra_simps)
  also have "q * B + uint l mod B = uint l" by (simp add: q_def)
  finally have e: "(uint h * A + q) * two64 + (uint l mod B) * A
      = (uint h * two64 + uint l) * A" .
  show ?thesis
    unfolding val128_pair hi pair_mod unfolding lo e unfolding AB(1) ..
qed

lemma val128_shr_small:
  assumes "n < 64"
  shows "val128 \<lparr> hi = drop_bit n h, lo = drop_bit n l + push_bit (64 - n) h \<rparr>
       = (uint h * two64 + uint l) div 2 ^ n"
proof -
  obtain A B :: int where AB: "A = 2 ^ n" "B = 2 ^ (64 - n)" "two64 = A * B" "0 < A" "0 < B"
    by (rule split64[OF assms])
  have p: "uint (push_bit (64 - n) h) = (uint h mod A) * B"
    unfolding uint_push64 AB(2)[symmetric] AB(3) by (simp add: mult_mod_left)
  have "uint l < B * A" using uint64_range(2)[of l] AB(3) by (simp add: mult.commute)
  then have q: "uint l div A < B" by (rule div_less_pos[OF AB(4)])
  have "(uint h mod A + 1) * B \<le> A * B"
    using pos_mod_bound[OF AB(4), of "uint h"] AB(5) by (intro mult_right_mono) auto
  with q have s: "uint l div A + (uint h mod A) * B < two64"
    unfolding AB(3) by (simp add: distrib_right)
  have nn: "0 \<le> uint l div A + (uint h mod A) * B"
    using AB(4,5) by (simp add: pos_imp_zdiv_nonneg_iff)
  have lo: "uint (drop_bit n l + push_bit (64 - n) h) = uint l div A + (uint h mod A) * B"
    unfolding uint_word_ariths p uint_drop64 AB(1)[symmetric]
    using s nn by (simp add: mod_pos_pos_trivial)
  have "(uint h * two64 + uint l) div A = (uint h * B * A + uint l) div A"
    unfolding AB(3) by (simp add: ac_simps)
  also have "\<dots> = uint h * B + uint l div A"
    using AB(4) by simp
  finally have e: "(uint h * two64 + uint l) div A = uint h * B + uint l div A" .
  have "uint h * B = (uint h div A * A + uint h mod A) * B" by simp
  also have "\<dots> = uint h div A * two64 + (uint h mod A) * B"
    unfolding AB(3) by (simp only: distrib_right mult.assoc)
  finally have "uint h * B = uint h div A * two64 + (uint h mod A) * B" .
  then show ?thesis
    unfolding val128_pair lo uint_drop64 AB(1)[symmetric] e by simp
qed

lemma u128_shl_lt64:
  assumes "n < 64"
  shows "u128_shl a n
       = \<lparr> hi = push_bit n (hi a) + drop_bit (64 - n) (lo a), lo = push_bit n (lo a) \<rparr>"
proof (cases "n = 0")
  case False
  with assms show ?thesis
    unfolding u128_shl_def Let_def shl_high[OF assms, symmetric] by simp
qed (simp add: u128_shl_def)

lemma u128_shl_ge64:
  assumes "k < 64"
  shows "u128_shl a (64 + k) = \<lparr> hi = push_bit k (lo a), lo = 0 \<rparr>"
  using assms by (simp add: u128_shl_def Let_def)

lemma u128_shr_lt64:
  assumes "n < 64"
  shows "u128_shr a n
       = \<lparr> hi = drop_bit n (hi a), lo = drop_bit n (lo a) + push_bit (64 - n) (hi a) \<rparr>"
proof (cases "n = 0")
  case False
  with assms show ?thesis
    unfolding u128_shr_def Let_def shr_low[OF assms, symmetric] by simp
qed (simp add: u128_shr_def)

lemma u128_shr_ge64:
  assumes "k < 64"
  shows "u128_shr a (64 + k) = \<lparr> hi = 0, lo = drop_bit k (hi a) \<rparr>"
  using assms by (simp add: u128_shr_def Let_def)

lemma shift_cases:
  obtains "n < 64" | k where "n = 64 + k" "k < 64" | k where "n = 128 + (k :: nat)"
proof -
  consider "n < 64" | "64 \<le> n" "n < 128" | "128 \<le> n" by linarith
  then show thesis
  proof cases
    case 2
    then show thesis by (intro that(2)[of "n - 64"]) simp_all
  next
    case 3
    then show thesis by (intro that(3)[of "n - 128"]) simp
  qed (rule that(1))
qed

lemma val128_shl: "val128 (u128_shl a n) = (val128 a * 2 ^ n) mod two128"
proof (cases n rule: shift_cases)
  case 1
  with val128_shl_small[OF 1] show ?thesis by (simp add: u128_shl_lt64 val128_def)
next
  case (2 k)
  have "val128 (u128_shl a n) = (uint (lo a) * 2 ^ k mod two64) * two64 + uint (0 :: 64 word)"
    using 2 by (simp add: u128_shl_ge64 uint_push64)
  also have "\<dots> = (uint (lo a) * 2 ^ k * two64) mod two128"
    unfolding pair_mod by simp
  also have "\<dots> = (uint (hi a) * 2 ^ k * two128 + uint (lo a) * 2 ^ k * two64) mod two128"
    by simp
  also have "uint (hi a) * 2 ^ k * two128 + uint (lo a) * 2 ^ k * two64 = val128 a * 2 ^ n"
    by (simp add: val128_def 2 power_add algebra_simps)
  finally show ?thesis .
next
  case (3 k)
  have e: "val128 a * 2 ^ n = (val128 a * 2 ^ k) * two128" by (simp add: 3 power_add)
  have "(val128 a * 2 ^ n) mod two128 = 0" unfolding e by simp
  with 3 show ?thesis by (simp add: u128_shl_def)
qed

lemma val128_shr: "val128 (u128_shr a n) = val128 a div 2 ^ n"
proof (cases n rule: shift_cases)
  case 1
  with val128_shr_small[OF 1] show ?thesis by (simp add: u128_shr_lt64 val128_def)
next
  case (2 k)
  have "val128 a div 2 ^ n = val128 a div two64 div 2 ^ k"
    by (simp add: 2 power_add zdiv_zmult2_eq)
  also have "val128 a div two64 = uint (hi a)"
    using uint64_range[of "lo a"] by (simp add: val128_def)
  finally show ?thesis using 2 by (simp add: u128_shr_ge64 uint_drop64)
next
  case (3 k)
  have "(two128 :: int) \<le> 2 ^ n" by (simp add: 3 power_add)
  then have "val128 a < 2 ^ n" using val128_range(2)[of a] by linarith
  then have "val128 a div 2 ^ n = 0" using val128_range(1)[of a] by simp
  with 3 show ?thesis by (simp add: u128_shr_def)
qed

section \<open>Multiplication\<close>

lemma uint_limb_lo: "uint (limb_lo x) = uint x mod 2 ^ 32"
  unfolding limb_lo_def unsigned_ucast_eq unsigned_take_bit_eq
  using uint64_range[of x] by (simp add: take_bit_eq_mod)

lemma uint_limb_hi: "uint (limb_hi x) = uint x div 2 ^ 32"
proof -
  have "uint x div 2 ^ 32 < 2 ^ 32"
    by (rule div_less_pos) (use uint64_range(2)[of x] in simp_all)
  moreover have "0 \<le> uint x div 2 ^ 32"
    using uint64_range(1)[of x] by (simp add: pos_imp_zdiv_nonneg_iff)
  ultimately show ?thesis
    unfolding limb_hi_def unsigned_ucast_eq unsigned_take_bit_eq uint_drop64
    by (simp add: take_bit_eq_mod)
qed

lemma uint_limb_range:
  "0 \<le> uint (limb_lo x)" "uint (limb_lo x) < 2 ^ 32" "0 \<le> uint (limb_hi x)" "uint (limb_hi x) < 2 ^ 32"
proof -
  show "uint (limb_hi x) < 2 ^ 32" unfolding uint_limb_hi
    by (rule div_less_pos) (use uint64_range(2)[of x] in simp_all)
qed (simp_all add: uint_limb_lo)

lemma uint_mul_small:
  assumes "uint (a :: 64 word) < 2 ^ 32" "uint (b :: 64 word) < 2 ^ 32"
  shows "uint (a * b) = uint a * uint b"
proof -
  have "uint a * uint b < 2 ^ 32 * 2 ^ 32" using assms by (intro mult_strict_mono) simp_all
  then show ?thesis by (simp add: uint_word_ariths)
qed

lemmas uint_mul_limbs =
  uint_mul_small[OF uint_limb_range(2) uint_limb_range(2)]
  uint_mul_small[OF uint_limb_range(2) uint_limb_range(4)]
  uint_mul_small[OF uint_limb_range(4) uint_limb_range(2)]
  uint_mul_small[OF uint_limb_range(4) uint_limb_range(4)]

lemma uint_limbs: "uint x = uint (limb_hi x) * 2 ^ 32 + uint (limb_lo x)"
  by (simp add: uint_limb_lo uint_limb_hi)

lemma mul_poly:
  fixes X :: int
  shows "(a0 + a1 * X + a2 * X^2 + a3 * X^3) * (b0 + b1 * X + b2 * X^2 + b3 * X^3)
    = ((((a3*b0 + a2*b1 + a1*b2 + a0*b3) * X + a2*b0 + a1*b1 + a0*b2) * X + a1*b0 + a0*b1) * X
        + a0*b0)
      + X^4 * (a3*b1 + a2*b2 + a1*b3 + (a3*b2 + a2*b3) * X + a3*b3 * X^2)"
  by (simp add: algebra_simps power2_eq_square power3_eq_cube power4_eq_xxxx)

lemma val128_limbs:
  "val128 u = uint (limb_lo (lo u)) + uint (limb_hi (lo u)) * 2^32
     + uint (limb_lo (hi u)) * (2^32)^2 + uint (limb_hi (hi u)) * (2^32)^3"
  unfolding val128_def uint_limbs[of "hi u"] uint_limbs[of "lo u"] by simp

lemma val128_mul: "val128 (u128_mul a b) = (val128 a * val128 b) mod two128"
proof -
  let ?a0 = "uint (limb_lo (lo a))" and ?a1 = "uint (limb_hi (lo a))"
  let ?a2 = "uint (limb_lo (hi a))" and ?a3 = "uint (limb_hi (hi a))"
  let ?b0 = "uint (limb_lo (lo b))" and ?b1 = "uint (limb_hi (lo b))"
  let ?b2 = "uint (limb_lo (hi b))" and ?b3 = "uint (limb_hi (hi b))"
  have "val128 (u128_mul a b) = ((((?a3*?b0 + ?a2*?b1 + ?a1*?b2 + ?a0*?b3) * 2^32
      + ?a2*?b0 + ?a1*?b1 + ?a0*?b2) * 2^32 + ?a1*?b0 + ?a0*?b1) * 2^32 + ?a0*?b0) mod two128"
    by (simp add: u128_mul_def Let_def val128_add val128_shl uint_mul_limbs mod_simps)
  also have "(two128 :: int) = (2^32)^4" by simp
  also have "((((?a3*?b0 + ?a2*?b1 + ?a1*?b2 + ?a0*?b3) * 2^32
      + ?a2*?b0 + ?a1*?b1 + ?a0*?b2) * 2^32 + ?a1*?b0 + ?a0*?b1) * 2^32 + ?a0*?b0) mod (2^32)^4
      = (val128 a * val128 b) mod (2^32)^4"
    unfolding val128_limbs mul_poly mod_mult_self2 ..
  finally show ?thesis by simp
qed

lemma val128_mul_u64:
  "val128 (u128_mul (u128_of_u64 x) (u128_of_u64 y)) = uint x * uint y"
proof -
  have "uint x * uint y < two64 * two64"
    using uint64_range by (intro mult_strict_mono) simp_all
  then show ?thesis by (simp add: val128_mul)
qed

lemma val128_hi_lo: "uint (hi u) * two64 + uint (lo u) = val128 u"
  by (simp add: val128_def)

lemma val128_add_small:
  "val128 a + val128 b < two128 \<Longrightarrow> val128 (u128_add a b) = val128 a + val128 b"
  using val128_range(1)[of a] val128_range(1)[of b] by (simp add: val128_add)

lemma uint_le64: "uint (w :: 64 word) \<le> two64 - 1"
  using uint64_range(2)[of w] by simp

lemma full_product_correct:
  "val128 (fst (full_product a b)) * two128 + val128 (snd (full_product a b))
     = val128 a * val128 b"
proof -
  define s r q p where "s = u128_mul (u128_of_u64 (lo a)) (u128_of_u64 (lo b))"
    and "r = u128_mul (u128_of_u64 (hi a)) (u128_of_u64 (lo b))"
    and "q = u128_mul (u128_of_u64 (lo a)) (u128_of_u64 (hi b))"
    and "p = u128_mul (u128_of_u64 (hi a)) (u128_of_u64 (hi b))"
  note v = val128_mul_u64[of "lo a" "lo b", folded s_def] val128_mul_u64[of "hi a" "lo b", folded r_def]
    val128_mul_u64[of "lo a" "hi b", folded q_def] val128_mul_u64[of "hi a" "hi b", folded p_def]
  define acc1 where "acc1 = u128_add (u128_add (u128_of_u64 (hi s)) (u128_of_u64 (lo q))) (u128_of_u64 (lo r))"
  define acc2 where "acc2 = u128_add (u128_add (u128_add (u128_of_u64 (hi acc1)) (u128_of_u64 (hi q)))
    (u128_of_u64 (hi r))) (u128_of_u64 (lo p))"
  have a1: "val128 acc1 = uint (hi s) + uint (lo q) + uint (lo r)"
    unfolding acc1_def using uint_le64[of "hi s"] uint_le64[of "lo q"] uint_le64[of "lo r"]
    by (simp add: val128_add_small)
  have a2: "val128 acc2 = uint (hi acc1) + uint (hi q) + uint (hi r) + uint (lo p)"
    unfolding acc2_def using uint_le64[of "hi acc1"] uint_le64[of "hi q"] uint_le64[of "hi r"] uint_le64[of "lo p"]
    by (simp add: val128_add_small)
  define T where "T = uint (hi acc2) + uint (hi p)"
  have "val128 a * val128 b = val128 p * two128 + (val128 q + val128 r) * two64 + val128 s"
    unfolding v by (simp add: val128_def algebra_simps)
  also have "\<dots> = (T * two64 + uint (lo acc2)) * two128
      + (uint (lo acc1) * two64 + uint (lo s))"
    using a1 a2 by (simp add: val128_def T_def)
  finally have e: "val128 a * val128 b = (T * two64 + uint (lo acc2)) * two128
      + (uint (lo acc1) * two64 + uint (lo s))" .
  have "val128 a * val128 b < two128 * two128"
    using val128_range by (intro mult_strict_mono) simp_all
  then have "(T * two64 + uint (lo acc2)) * two128 < two128 * two128"
    unfolding e using uint64_range(1)[of "lo acc1"] uint64_range(1)[of "lo s"] by linarith
  then have "T * two64 + uint (lo acc2) < two128" by simp
  then have "T < two64" using uint64_range(1)[of "lo acc2"] by linarith
  moreover have "0 \<le> T" by (simp add: T_def)
  ultimately have "uint (hi acc2 + hi p) = T"
    by (simp add: uint_word_ariths T_def)
  then show ?thesis
    unfolding full_product_def Let_def fst_conv snd_conv
      s_def[symmetric] r_def[symmetric] q_def[symmetric] p_def[symmetric]
      acc1_def[symmetric] acc2_def[symmetric] val128_pair e by simp
qed

section \<open>Division\<close>

lemma val128_concat: "val128 u = uint (lo u) OR push_bit 64 (uint (hi u))"
proof -
  have "uint (lo u) OR push_bit 64 (uint (hi u)) = uint (lo u) + push_bit 64 (uint (hi u))"
    by (rule disjunctive_add[symmetric]) (auto simp: bit_simps dest: bit_imp_le_length)
  then show ?thesis by (simp add: val128_def push_bit_eq_mult)
qed

lemma val128_or: "val128 (u128_or_assign a b) = val128 a OR val128 b"
  by (simp add: val128_concat u128_or_assign_def unsigned_or_eq push_bit_or ac_simps)

lemma or_fresh_bit:
  assumes "(2 :: int) ^ Suc j dvd a"
  shows "a OR 2 ^ j = a + 2 ^ j"
proof -
  from assms obtain c where "a = push_bit (Suc j) c"
    by (auto simp: push_bit_eq_mult mult.commute elim: dvdE)
  then show ?thesis
    by (intro disjunctive_add[symmetric]) (auto simp: bit_simps bit_0)
qed

lemma divide_up_cond_val: "divide_up_cond n d \<longleftrightarrow> val128 d \<le> val128 n \<and> val128 d < 2 ^ 127"
proof -
  have v: "val128 (u128_shr d 127) = val128 d div 2 ^ 127" by (rule val128_shr)
  have "val128 d div 2 ^ 127 < 2"
    by (rule div_less_pos) (use val128_range(2)[of d] in simp_all)
  moreover have "0 \<le> val128 d div 2 ^ 127"
    using val128_range(1)[of d] by (simp add: pos_imp_zdiv_nonneg_iff)
  ultimately have "val128 d div 2 ^ 127 = 0 \<or> val128 d div 2 ^ 127 = 1" by linarith
  then have "lo (u128_shr d 127) AND 1 = 0 \<longleftrightarrow> val128 d div 2 ^ 127 = 0"
  proof
    assume z: "val128 d div 2 ^ 127 = 0"
    then have "u128_shr d 127 = \<lparr> hi = 0, lo = 0 \<rparr>" by (simp add: v flip: val128_inject)
    with z show ?thesis by simp
  next
    assume o: "val128 d div 2 ^ 127 = 1"
    then have "u128_shr d 127 = \<lparr> hi = 0, lo = 1 \<rparr>" by (simp add: v flip: val128_inject)
    with o show ?thesis by simp
  qed
  also have "\<dots> \<longleftrightarrow> val128 d < 2 ^ 127"
    using val128_range(1)[of d] by (auto simp: zdiv_eq_0_iff)
  finally show ?thesis by (simp add: divide_up_cond_def u128_ge_val)
qed

lemma divide_up_correct:
  assumes "0 < den" "val128 d = den * 2 ^ j" "val128 x = 2 ^ j" "127 \<le> j + k"
  shows "\<exists>d' x' j'. divide_up k n d x = Some (d', x') \<and> val128 d' = den * 2 ^ j' \<and>
           val128 x' = 2 ^ j' \<and> j' < 128 \<and> val128 n < 2 * val128 d'"
  using assms(2-4)
proof (induction k arbitrary: d x j)
  case 0
  have "2 ^ j \<le> val128 d" using 0(1) assms(1) by simp
  moreover have "(2 :: int) ^ 127 \<le> 2 ^ j" using 0(3) by (intro power_increasing) simp_all
  ultimately have "\<not> divide_up_cond n d" by (simp add: divide_up_cond_val)
  moreover have "val128 n < 2 * val128 d"
    using \<open>2 ^ 127 \<le> 2 ^ j\<close> \<open>2 ^ j \<le> val128 d\<close> val128_range(2)[of n] by simp
  moreover have "j < 128"
    using val128_range(2)[of x] 0(2) power_strict_increasing_iff[of "2 :: int" j 128] by simp
  ultimately show ?case using 0 by (intro exI[of _ d] exI[of _ x] exI[of _ j]) simp
next
  case (Suc k)
  show ?case
  proof (cases "divide_up_cond n d")
    case True
    have le: "2 ^ j \<le> val128 d" using Suc.prems(1) assms(1) by simp
    from True have lt: "val128 d < 2 ^ 127" by (simp add: divide_up_cond_val)
    have "val128 (u128_shl d 1) = den * 2 ^ Suc j"
      using lt val128_range(1)[of d] Suc.prems(1) by (simp add: val128_shl)
    moreover have "val128 (u128_shl x 1) = 2 ^ Suc j"
      using lt le val128_range(1)[of x] Suc.prems(2) by (simp add: val128_shl)
    ultimately show ?thesis
      using Suc.IH[of "u128_shl d 1" "Suc j" "u128_shl x 1"] Suc.prems(3) True by simp
  next
    case False
    then have "val128 n < 2 * val128 d"
      using val128_range(2)[of n] val128_range(1)[of d] val128_range(1)[of n]
      by (auto simp: divide_up_cond_val)
    moreover have "j < 128"
      using val128_range(2)[of x] Suc.prems(2) power_strict_increasing_iff[of "2 :: int" j 128]
      by simp
    ultimately show ?thesis
      using False Suc.prems by (intro exI[of _ d] exI[of _ x] exI[of _ j]) simp
  qed
qed

lemma divide_down_zero: "val128 x = 0 \<Longrightarrow> divide_down k n d x a = Some (a, n)"
proof -
  assume "val128 x = 0"
  then have "x = \<lparr> hi = 0, lo = 0 \<rparr>" by (simp flip: val128_inject)
  then show ?thesis by (cases k) simp_all
qed

lemma val128_sub_le: "val128 b \<le> val128 a \<Longrightarrow> val128 (u128_sub a b) = val128 a - val128 b"
  using val128_range(1)[of b] val128_range(2)[of a] by (simp add: val128_sub)

lemma divide_down_correct:
  assumes "0 < den" "val128 d = den * 2 ^ j" "val128 x = 2 ^ j" "j < k"
    "val128 n < 2 * val128 d" "2 ^ Suc j dvd val128 a"
  shows "\<exists>q r. divide_down k n d x a = Some (q, r) \<and> val128 r < den \<and>
           val128 n + val128 a * den = val128 q * den + val128 r"
  using assms(2-6)
proof (induction k arbitrary: n d x a j)
  case (Suc k)
  have nz: "\<not> (hi x = 0 \<and> lo x = 0)" using Suc.prems(2) by (auto simp: val128_def)
  define n' where "n' = (if u128_ge n d then u128_sub n d else n)"
  define a' where "a' = (if u128_ge n d then u128_or_assign a x else a)"
  have step: "divide_down (Suc k) n d x a = divide_down k n' (u128_shr d 1) (u128_shr x 1) a'"
    using nz by (auto simp: n'_def a'_def)
  have a': "val128 a' = val128 a + (if val128 d \<le> val128 n then 2 ^ j else 0)"
    using or_fresh_bit[OF Suc.prems(5)] Suc.prems(2) by (simp add: a'_def val128_or u128_ge_val)
  have n': "val128 n' = val128 n - (if val128 d \<le> val128 n then val128 d else 0)"
    by (simp add: n'_def u128_ge_val val128_sub_le)
  have inv: "val128 n' + val128 a' * den = val128 n + val128 a * den"
    using Suc.prems(1) by (simp add: a' n' algebra_simps)
  have lt: "val128 n' < val128 d" using Suc.prems(4) by (simp add: n')
  show ?case
  proof (cases j)
    case 0
    then have "val128 (u128_shr x 1) = 0" using Suc.prems(2) by (simp add: val128_shr)
    then show ?thesis using step inv lt Suc.prems(1) 0 by (simp add: divide_down_zero)
  next
    case (Suc i)
    have "val128 (u128_shr d 1) = den * 2 ^ i" "val128 (u128_shr x 1) = 2 ^ i"
      using Suc.prems(1,2) Suc by (simp_all add: val128_shr mult.left_commute)
    moreover have "2 ^ Suc i dvd val128 a'"
      using Suc.prems(5) Suc by (auto simp: a' intro!: dvd_add elim: dvd_trans[rotated])
    ultimately show ?thesis
      using Suc.IH[of "u128_shr d 1" i "u128_shr x 1" n' a'] Suc.prems(1,3) Suc lt step inv
      by (simp add: mult.left_commute)
  qed
qed simp

lemma u128_divide_correct:
  assumes "0 < val128 b"
  shows "\<exists>q r. u128_divide a b = Inr (Some (q, r)) \<and>
           val128 q = val128 a div val128 b \<and> val128 r = val128 a mod val128 b"
proof -
  have nz: "\<not> (hi b = 0 \<and> lo b = 0)" using assms by (auto simp: val128_def)
  have "\<exists>d x j. divide_up 128 a b \<lparr> hi = 0, lo = 1 \<rparr> = Some (d, x) \<and>
      val128 d = val128 b * 2 ^ j \<and> val128 x = 2 ^ j \<and> j < 128 \<and> val128 a < 2 * val128 d"
    by (rule divide_up_correct[OF assms, where j = 0]) simp_all
  then obtain d x j where up: "divide_up 128 a b \<lparr> hi = 0, lo = 1 \<rparr> = Some (d, x)"
    and j: "val128 d = val128 b * 2 ^ j" "val128 x = 2 ^ j" "j < 128" "val128 a < 2 * val128 d"
    by blast
  have "\<exists>q r. divide_down 129 a d x \<lparr> hi = 0, lo = 0 \<rparr> = Some (q, r) \<and> val128 r < val128 b \<and>
      val128 a + val128 \<lparr> hi = 0, lo = 0 \<rparr> * val128 b = val128 q * val128 b + val128 r"
    by (rule divide_down_correct[OF assms j(1,2) _ j(4)]) (use j(3) in simp_all)
  then obtain q r where "divide_down 129 a d x \<lparr> hi = 0, lo = 0 \<rparr> = Some (q, r)"
    and r: "val128 r < val128 b" "val128 a = val128 q * val128 b + val128 r" by auto
  then have "u128_divide a b = Inr (Some (q, r))"
    using nz up by (simp add: u128_divide_def)
  moreover have "val128 a div val128 b = val128 q" "val128 a mod val128 b = val128 r"
    using r val128_range(1)[of r] assms by simp_all
  ultimately show ?thesis by auto
qed

section \<open>Properties\<close>

text \<open>C25. The half-word implementation of the 128-bit integer computes arithmetic modulo \<open>2 ^ 128\<close>:
  addition with carry, negation, subtraction, limb multiplication and the shifts across the halves;
  comparison is comparison of the values, and the full product is the exact 256-bit product.\<close>

theorem uint128_refines_arithmetic:
  "val128 (u128_add a b) = (val128 a + val128 b) mod two128 \<and>
   val128 (u128_sub a b) = (val128 a - val128 b) mod two128 \<and>
   val128 (u128_neg a) = (- val128 a) mod two128 \<and>
   val128 (u128_mul a b) = (val128 a * val128 b) mod two128 \<and>
   val128 (u128_shl a n) = (val128 a * 2 ^ n) mod two128 \<and>
   val128 (u128_shr a n) = val128 a div 2 ^ n \<and>
   (u128_lt a b \<longleftrightarrow> val128 a < val128 b) \<and>
   val128 (fst (full_product a b)) * two128 + val128 (snd (full_product a b)) = val128 a * val128 b"
  by (simp only: val128_add val128_sub val128_neg val128_mul val128_shl val128_shr u128_lt_val
      full_product_correct simp_thms)

text \<open>C26. The shift-subtract division terminates within its 128 doublings and 129 halvings and returns
  the quotient and the remainder; division by zero throws.\<close>

theorem uint128_division_correct:
  "(0 < val128 b \<longrightarrow> (\<exists>q r. u128_divide a b = Inr (Some (q, r)) \<and>
      val128 q = val128 a div val128 b \<and> val128 r = val128 a mod val128 b)) \<and>
   (val128 b = 0 \<longrightarrow> u128_divide a b = Inl Divide_by_zero_exception)"
proof (intro conjI impI)
  assume "val128 b = 0"
  then have "b = \<lparr> hi = 0, lo = 0 \<rparr>" by (simp flip: val128_inject)
  then show "u128_divide a b = Inl Divide_by_zero_exception" by (simp add: u128_divide_def)
qed (rule u128_divide_correct)

theorem uint128_division_correct_witness:
  "\<exists>q r. u128_divide \<lparr> hi = 0, lo = 17 \<rparr> \<lparr> hi = 0, lo = 5 \<rparr> = Inr (Some (q, r)) \<and>
     val128 q = 3 \<and> val128 r = 2"
  using uint128_division_correct[of "\<lparr> hi = 0, lo = 5 \<rparr>" "\<lparr> hi = 0, lo = 17 \<rparr>"] by simp


end
