(* ===== verification/Accounts.thy ===== *)
theory Accounts
  imports Vesting
begin

text \<open>
  Accounts of src/src/core/chain/steem_evaluator.cpp and database.cpp: their creation (with a fee, with
  a delegation, from a claim), the update of keys, and the recovery of stolen accounts with the
  history of owner authorities behind it.  Whether the node is producing a block is an argument.

  The lemmas show that the registry of accounts stays well formed, that every operation conserves
  the ledger, and that a recovery installs exactly the authority that was requested, on the strength
  of an owner authority that was valid within the recovery period.
\<close>

section \<open>Creation\<close>

definition verify_authority_accounts_exist :: "database \<Rightarrow> authority \<Rightarrow> unit res" where
  "verify_authority_accounts_exist db auth =
     foldE (\<lambda>aw _. fc_assert 236 (find_account db (fst aw) \<noteq> None) (Inr ())) (account_auths auth) ()"

definition get_authority_accounts :: "database \<Rightarrow> authority \<Rightarrow> unit res" where
  "get_authority_accounts db auth =
     foldE (\<lambda>aw _. bindE (get_account db (fst aw)) (\<lambda>_. Inr ())) (account_auths auth) ()"

definition initialize_account_object ::
  "account_name_type \<Rightarrow> public_key_type \<Rightarrow> dynamic_global_property_object \<Rightarrow> bool \<Rightarrow> account_name_type \<Rightarrow>
   account_object \<Rightarrow> account_object" where
  "initialize_account_object name key props mined recovery_account acc =
     acc\<lparr> ac_name := name, ac_memo_key := key, ac_created := dgp_time props, ac_last_vote_time := dgp_time props,
          ac_mined := mined,
          ac_recovery_account :=
            (if recovery_account \<noteq> STEEM_TEMP_ACCOUNT then recovery_account else ac_recovery_account acc) \<rparr>"

definition account_clash :: "account_object \<Rightarrow> account_object \<Rightarrow> bool" where
  "account_clash x y \<longleftrightarrow> ac_name x = ac_name y"

definition create_account ::
  "database \<Rightarrow> account_name_type \<Rightarrow> public_key_type \<Rightarrow> account_name_type \<Rightarrow> asset \<Rightarrow> string \<Rightarrow> database res" where
  "create_account db name key creator received json =
     bindE (tbl_create account_clash
       (\<lambda>i. (initialize_account_object name key (db_dgp db) False creator (new_account i))\<lparr>
          ac_received_vesting_shares := received, ac_json_metadata := json \<rparr>) (db_accounts db)) (\<lambda>t.
     Inr (db\<lparr> db_accounts := t \<rparr>))"

definition create_account_authority ::
  "database \<Rightarrow> account_name_type \<Rightarrow> authority \<Rightarrow> authority \<Rightarrow> authority \<Rightarrow> database res" where
  "create_account_authority db name owner active posting =
     bindE (tbl_create (\<lambda>x y. False) (\<lambda>i. \<lparr> aa_id = i, aa_account = name, aa_owner = owner, aa_active = active,
        aa_posting = posting, aa_last_owner_update = 0 \<rparr>) (db_authorities db)) (\<lambda>t.
     Inr (db\<lparr> db_authorities := t \<rparr>))"

definition pay_fee :: "asset \<Rightarrow> account_object \<Rightarrow> account_object res" where
  "pay_fee fee c = bindE (asset_sub (ac_balance c) fee) (\<lambda>b. Inr (c\<lparr> ac_balance := b \<rparr>))"

definition account_create_do_apply :: "bool \<Rightarrow> database \<Rightarrow> account_create_operation \<Rightarrow> database res" where
  "account_create_do_apply producing db o1 =
     bindE (get_account db (acr_creator o1)) (\<lambda>creator.
     bindE (asset_ge (ac_balance creator) (acr_fee o1)) (\<lambda>c.
     fc_assert 262 c
     (bindE (asset_ge (acr_fee o1) (cp_account_creation_fee (wso_median_props (db_wso db)))) (\<lambda>c.
      fc_assert 265 c
      (bindE (if producing then foldE (\<lambda>a _. validate_auth_size a) [acr_owner o1, acr_active o1, acr_posting o1] ()
              else Inr ()) (\<lambda>_.
       bindE (foldE (\<lambda>a _. verify_authority_accounts_exist db a) [acr_owner o1, acr_active o1, acr_posting o1] ()) (\<lambda>_.
       bindE (modify_account db (acr_creator o1) (pay_fee (acr_fee o1))) (\<lambda>db.
       bindE (create_account db (acr_new_account_name o1) (acr_memo_key o1) (acr_creator o1)
           (mk_asset 0 VESTS_SYMBOL) (acr_json_metadata o1)) (\<lambda>db.
       bindE (create_account_authority db (acr_new_account_name o1) (acr_owner o1) (acr_active o1) (acr_posting o1)) (\<lambda>db.
       if amount (acr_fee o1) > 0 then
         bindE (create_vesting db (acr_new_account_name o1) (acr_fee o1) False) (\<lambda>(db, _). Inr db)
       else Inr db))))))))))"

definition pay_fee_and_delegate :: "asset \<Rightarrow> asset \<Rightarrow> account_object \<Rightarrow> account_object res" where
  "pay_fee_and_delegate fee delegation c =
     bindE (asset_sub (ac_balance c) fee) (\<lambda>b.
     bindE (asset_add (ac_delegated_vesting_shares c) delegation) (\<lambda>d.
     Inr (c\<lparr> ac_balance := b, ac_delegated_vesting_shares := d \<rparr>)))"

definition check_delegation_target :: "database \<Rightarrow> asset \<Rightarrow> asset \<Rightarrow> bool res" where
  "check_delegation_target db fee delegation =
     bindE (safe_mul (amount (cp_account_creation_fee (wso_median_props (db_wso db)))) STEEM_CREATE_ACCOUNT_WITH_STEEM_MODIFIER) (\<lambda>x.
     bindE (safe_mul x STEEM_CREATE_ACCOUNT_DELEGATION_RATIO) (\<lambda>x.
     bindE (get_vesting_share_price (db_dgp db)) (\<lambda>price.
     bindE (asset_mul_price (mk_asset x STEEM_SYMBOL) price) (\<lambda>target_delegation.
     bindE (safe_mul (amount fee) STEEM_CREATE_ACCOUNT_DELEGATION_RATIO) (\<lambda>y.
     bindE (asset_mul_price (mk_asset y STEEM_SYMBOL) price) (\<lambda>z.
     bindE (asset_add z delegation) (\<lambda>current_delegation.
     asset_ge current_delegation target_delegation)))))))"

definition account_create_with_delegation_do_apply ::
  "bool \<Rightarrow> database \<Rightarrow> account_create_with_delegation_operation \<Rightarrow> database res" where
  "account_create_with_delegation_do_apply producing db o1 =
     bindE (get_account db (acd_creator o1)) (\<lambda>creator.
     bindE (asset_ge (ac_balance creator) (acd_fee o1)) (\<lambda>c.
     fc_assert 312 c
     (bindE (available_shares creator) (\<lambda>available.
      bindE (asset_ge available (acd_delegation o1)) (\<lambda>c.
      fc_assert 316 c
      (bindE (check_delegation_target db (acd_fee o1) (acd_delegation o1)) (\<lambda>c.
       fc_assert 324 c
       (bindE (asset_ge (acd_fee o1) (cp_account_creation_fee (wso_median_props (db_wso db)))) (\<lambda>c.
        fc_assert 331 c
        (bindE (if producing then foldE (\<lambda>a _. validate_auth_size a) [acd_owner o1, acd_active o1, acd_posting o1] ()
                else Inr ()) (\<lambda>_.
         bindE (foldE (\<lambda>a _. get_authority_accounts db a) [acd_owner o1, acd_active o1, acd_posting o1] ()) (\<lambda>_.
         bindE (modify_account db (acd_creator o1) (pay_fee_and_delegate (acd_fee o1) (acd_delegation o1))) (\<lambda>db.
         bindE (create_account db (acd_new_account_name o1) (acd_memo_key o1) (acd_creator o1)
             (acd_delegation o1) (acd_json_metadata o1)) (\<lambda>db.
         bindE (create_account_authority db (acd_new_account_name o1) (acd_owner o1) (acd_active o1) (acd_posting o1)) (\<lambda>db.
         bindE (if amount (acd_delegation o1) > 0 then
                  bindE (tbl_create delegation_clash (\<lambda>i. \<lparr> vd_id = i, vd_delegator = acd_creator o1,
                      vd_delegatee = acd_new_account_name o1, vd_vesting_shares = acd_delegation o1,
                      vd_min_delegation_time = to_uint32 (head_block_time db + STEEM_CREATE_ACCOUNT_DELEGATION_TIME) \<rparr>)
                    (db_delegations db)) (\<lambda>t. Inr (db\<lparr> db_delegations := t \<rparr>))
                else Inr db) (\<lambda>db.
         if amount (acd_fee o1) > 0 then
           bindE (create_vesting db (acd_new_account_name o1) (acd_fee o1) False) (\<lambda>(db, _). Inr db)
         else Inr db))))))))))))))))"

definition claim_account_do_apply :: "database \<Rightarrow> claim_account_operation \<Rightarrow> database res" where
  "claim_account_do_apply db o1 =
     bindE (get_account db (cla_creator o1)) (\<lambda>creator.
     bindE (asset_ge (ac_balance creator) (cla_fee o1)) (\<lambda>c.
     fc_assert 1559 c
     (bindE (asset_ge (cla_fee o1) (cp_account_creation_fee (wso_median_props (db_wso db)))) (\<lambda>c.
      fc_assert 1561 c
      (fc_assert 1567 (ac_pending_claimed_accounts creator < int64_max)
      (bindE (get_account db STEEM_NULL_ACCOUNT) (\<lambda>null.
       bindE (adjust_balance db (ac_name null) (cla_fee o1)) (\<lambda>db.
       modify_account db (cla_creator o1) (\<lambda>a.
         bindE (pay_fee (cla_fee o1) a) (\<lambda>a.
         Inr (a\<lparr> ac_pending_claimed_accounts := ac_pending_claimed_accounts a + 1 \<rparr>)))))))))))"

definition create_claimed_account_do_apply :: "database \<Rightarrow> create_claimed_account_operation \<Rightarrow> database res" where
  "create_claimed_account_do_apply db o1 =
     bindE (get_account db (cca_creator o1)) (\<lambda>creator.
     fc_assert 1584 (ac_pending_claimed_accounts creator > 0)
     (bindE (foldE (\<lambda>a _. verify_authority_accounts_exist db a) [cca_owner o1, cca_active o1, cca_posting o1] ()) (\<lambda>_.
      bindE (modify_account db (cca_creator o1) (\<lambda>a.
        Inr (a\<lparr> ac_pending_claimed_accounts := ac_pending_claimed_accounts a - 1 \<rparr>))) (\<lambda>db.
      bindE (create_account db (cca_new_account_name o1) (cca_memo_key o1) (cca_creator o1)
          (mk_asset 0 VESTS_SYMBOL) (cca_json_metadata o1)) (\<lambda>db.
      create_account_authority db (cca_new_account_name o1) (cca_owner o1) (cca_active o1) (cca_posting o1))))))"

section \<open>Updates\<close>

definition get_authority :: "database \<Rightarrow> account_name_type \<Rightarrow> account_authority_object res" where
  "get_authority db n = tbl_get (\<lambda>a. aa_account a = n) (db_authorities db)"

definition modify_authority ::
  "database \<Rightarrow> account_name_type \<Rightarrow> (account_authority_object \<Rightarrow> account_authority_object) \<Rightarrow> database res" where
  "modify_authority db n f =
     bindE (tbl_modify (\<lambda>a. aa_account a = n) (\<lambda>a. Inr (f a)) (db_authorities db)) (\<lambda>t.
     Inr (db\<lparr> db_authorities := t \<rparr>))"

definition update_owner_authority :: "database \<Rightarrow> account_name_type \<Rightarrow> authority \<Rightarrow> database res" where
  "update_owner_authority db n owner_authority =
     bindE (if head_block_num db \<ge> STEEM_OWNER_AUTH_HISTORY_TRACKING_START_BLOCK_NUM then
              bindE (get_authority db n) (\<lambda>a.
              bindE (tbl_create (\<lambda>x y. False) (\<lambda>i. \<lparr> oah_id = i, oah_account = n,
                  oah_previous_owner_authority = aa_owner a, oah_last_valid_time = head_block_time db \<rparr>)
                (db_owner_history db)) (\<lambda>t. Inr (db\<lparr> db_owner_history := t \<rparr>)))
            else Inr db) (\<lambda>db.
     modify_authority db n (\<lambda>a. a\<lparr> aa_owner := owner_authority, aa_last_owner_update := head_block_time db \<rparr>))"

definition check_option :: "'a option \<Rightarrow> ('a \<Rightarrow> unit res) \<Rightarrow> unit res" where
  "check_option x f = (case x of None \<Rightarrow> Inr () | Some a \<Rightarrow> f a)"

definition touch_account :: "time_point_sec \<Rightarrow> account_update_operation \<Rightarrow> account_object \<Rightarrow> account_object res" where
  "touch_account now o1 acc =
     Inr (acc\<lparr> ac_memo_key := (if au_memo_key o1 \<noteq> [] then au_memo_key o1 else ac_memo_key acc),
               ac_last_account_update := now,
               ac_json_metadata := (if au_json_metadata o1 \<noteq> [] then au_json_metadata o1 else ac_json_metadata acc) \<rparr>)"

definition account_update_do_apply :: "database \<Rightarrow> account_update_operation \<Rightarrow> database res" where
  "account_update_do_apply db o1 =
     fc_assert 401 (au_account o1 \<noteq> STEEM_TEMP_ACCOUNT)
     (bindE (check_option (au_posting o1) authority_validate) (\<lambda>_.
      bindE (get_account db (au_account o1)) (\<lambda>account.
      bindE (get_authority db (au_account o1)) (\<lambda>account_auth.
      bindE (check_option (au_owner o1) validate_auth_size) (\<lambda>_.
      bindE (check_option (au_active o1) validate_auth_size) (\<lambda>_.
      bindE (check_option (au_posting o1) validate_auth_size) (\<lambda>_.
      bindE (case au_owner o1 of None \<Rightarrow> Inr db
             | Some owner \<Rightarrow>
                 fc_assert 419 (head_block_time db - aa_last_owner_update account_auth > STEEM_OWNER_UPDATE_LIMIT)
                 (bindE (verify_authority_accounts_exist db owner) (\<lambda>_.
                  update_owner_authority db (au_account o1) owner))) (\<lambda>db.
      bindE (check_option (au_active o1) (verify_authority_accounts_exist db)) (\<lambda>_.
      bindE (check_option (au_posting o1) (verify_authority_accounts_exist db)) (\<lambda>_.
      bindE (modify_account db (au_account o1) (touch_account (head_block_time db) o1)) (\<lambda>db.
      if au_active o1 \<noteq> None \<or> au_posting o1 \<noteq> None then
        modify_authority db (au_account o1) (\<lambda>auth.
          auth\<lparr> aa_active := (case au_active o1 of Some a \<Rightarrow> a | None \<Rightarrow> aa_active auth),
                aa_posting := (case au_posting o1 of Some a \<Rightarrow> a | None \<Rightarrow> aa_posting auth) \<rparr>)
      else Inr db)))))))))))"

section \<open>Recovery\<close>

definition recovery_clash :: "account_recovery_request_object \<Rightarrow> account_recovery_request_object \<Rightarrow> bool" where
  "recovery_clash x y \<longleftrightarrow> arr_account_to_recover x = arr_account_to_recover y"

text \<open>The first witness in the order of votes; dereferencing the end of an empty index is an error here.\<close>

definition top_witness :: "database \<Rightarrow> account_name_type res" where
  "top_witness db =
     (case sort_key (\<lambda>w. (- w_votes w, w_owner w)) (rows (db_witnesses db)) of
        [] \<Rightarrow> Inl Out_of_range | w # _ \<Rightarrow> Inr (w_owner w))"

definition request_account_recovery_do_apply :: "database \<Rightarrow> request_account_recovery_operation \<Rightarrow> database res" where
  "request_account_recovery_do_apply db o1 =
     bindE (get_account db (rar_account_to_recover o1)) (\<lambda>account_to_recover.
     bindE (if ac_recovery_account account_to_recover \<noteq> [] then
              fc_assert 1620 (ac_recovery_account account_to_recover = rar_recovery_account o1) (Inr ())
            else bindE (top_witness db) (\<lambda>w. fc_assert 1625 (w = rar_recovery_account o1) (Inr ()))) (\<lambda>_.
     let is_request = (\<lambda>r. arr_account_to_recover r = rar_account_to_recover o1);
         auth = rar_new_owner_authority o1;
         expires = to_uint32 (head_block_time db + STEEM_ACCOUNT_RECOVERY_REQUEST_EXPIRATION_PERIOD) in
     case tbl_find is_request (db_recovery_requests db) of
       None \<Rightarrow>
         fc_assert 1632 (\<not> is_impossible auth)
         (fc_assert 1633 (weight_threshold auth \<noteq> 0)
         (bindE (validate_auth_size auth) (\<lambda>_.
          bindE (get_authority_accounts db auth) (\<lambda>_.
          bindE (tbl_create recovery_clash (\<lambda>i. \<lparr> arr_id = i, arr_account_to_recover = rar_account_to_recover o1,
              arr_new_owner_authority = auth, arr_expires = expires \<rparr>) (db_recovery_requests db)) (\<lambda>t.
          Inr (db\<lparr> db_recovery_requests := t \<rparr>))))))
     | Some request \<Rightarrow>
         if weight_threshold auth = 0 then
           Inr (db\<lparr> db_recovery_requests := tbl_erase request (db_recovery_requests db) \<rparr>)
         else
           fc_assert 1656 (\<not> is_impossible auth)
           (bindE (get_authority_accounts db auth) (\<lambda>_.
            bindE (tbl_modify is_request (\<lambda>r. Inr (r\<lparr> arr_new_owner_authority := auth, arr_expires := expires \<rparr>))
              (db_recovery_requests db)) (\<lambda>t.
            Inr (db\<lparr> db_recovery_requests := t \<rparr>))))))"

definition recover_account_do_apply :: "database \<Rightarrow> recover_account_operation \<Rightarrow> database res" where
  "recover_account_do_apply db o1 =
     bindE (get_account db (rec_account_to_recover o1)) (\<lambda>account.
     fc_assert 1676 (head_block_time db - ac_last_account_recovery account > STEEM_OWNER_UPDATE_LIMIT)
     (case tbl_find (\<lambda>r. arr_account_to_recover r = rec_account_to_recover o1) (db_recovery_requests db) of
        None \<Rightarrow> Inl (Assert_exception 1681)
      | Some request \<Rightarrow>
          fc_assert 1682 (authority_eq (arr_new_owner_authority request) (rec_new_owner_authority o1))
          (let found = list_ex (\<lambda>h. oah_account h = rec_account_to_recover o1 \<and>
                 authority_eq (oah_previous_owner_authority h) (rec_recent_owner_authority o1))
               (rows (db_owner_history db)) in
           fc_assert 1695 found
           (bindE (update_owner_authority (db\<lparr> db_recovery_requests := tbl_erase request (db_recovery_requests db) \<rparr>)
              (ac_name account) (rec_new_owner_authority o1)) (\<lambda>db.
            modify_account db (ac_name account) (\<lambda>a. Inr (a\<lparr> ac_last_account_recovery := head_block_time db \<rparr>)))))))"

definition change_recovery_clash ::
  "change_recovery_account_request_object \<Rightarrow> change_recovery_account_request_object \<Rightarrow> bool" where
  "change_recovery_clash x y \<longleftrightarrow> crr_account_to_recover x = crr_account_to_recover y"

definition change_recovery_account_do_apply :: "database \<Rightarrow> change_recovery_account_operation \<Rightarrow> database res" where
  "change_recovery_account_do_apply db o1 =
     bindE (get_account db (cra_new_recovery_account o1)) (\<lambda>_.
     bindE (get_account db (cra_account_to_recover o1)) (\<lambda>account_to_recover.
     let is_request = (\<lambda>r. crr_account_to_recover r = cra_account_to_recover o1);
         effective = to_uint32 (head_block_time db + STEEM_OWNER_AUTH_RECOVERY_PERIOD) in
     case tbl_find is_request (db_change_recovery db) of
       None \<Rightarrow>
         bindE (tbl_create change_recovery_clash (\<lambda>i. \<lparr> crr_id = i, crr_account_to_recover = cra_account_to_recover o1,
             crr_recovery_account = cra_new_recovery_account o1, crr_effective_on = effective \<rparr>) (db_change_recovery db)) (\<lambda>t.
         Inr (db\<lparr> db_change_recovery := t \<rparr>))
     | Some request \<Rightarrow>
         if ac_recovery_account account_to_recover \<noteq> cra_new_recovery_account o1 then
           bindE (tbl_modify is_request (\<lambda>r. Inr (r\<lparr> crr_recovery_account := cra_new_recovery_account o1,
               crr_effective_on := effective \<rparr>)) (db_change_recovery db)) (\<lambda>t.
           Inr (db\<lparr> db_change_recovery := t \<rparr>))
         else Inr (db\<lparr> db_change_recovery := tbl_erase request (db_change_recovery db) \<rparr>)))"

definition apply_recovery_change :: "change_recovery_account_request_object \<Rightarrow> database \<Rightarrow> database res" where
  "apply_recovery_change r db =
     bindE (modify_account db (crr_account_to_recover r)
       (\<lambda>a. Inr (a\<lparr> ac_recovery_account := crr_recovery_account r \<rparr>))) (\<lambda>db.
     Inr (db\<lparr> db_change_recovery := tbl_erase r (db_change_recovery db) \<rparr>))"

definition expired_owner_auth :: "time_point_sec \<Rightarrow> owner_authority_history_object \<Rightarrow> bool" where
  "expired_owner_auth now h \<longleftrightarrow> to_uint32 (oah_last_valid_time h + STEEM_OWNER_AUTH_RECOVERY_PERIOD) < now"

definition account_recovery_processing :: "database \<Rightarrow> database res" where
  "account_recovery_processing db =
     (let now = head_block_time db;
          reqs = takeWhile (\<lambda>r. arr_expires r \<le> now)
            (sort_key (\<lambda>r. (arr_expires r, arr_account_to_recover r)) (rows (db_recovery_requests db)));
          db = db\<lparr> db_recovery_requests := fold tbl_erase reqs (db_recovery_requests db),
                   db_owner_history := (db_owner_history db)\<lparr> rows :=
                     dropWhile (expired_owner_auth now) (rows (db_owner_history db)) \<rparr> \<rparr>
      in foldE apply_recovery_change
           (takeWhile (\<lambda>r. crr_effective_on r \<le> now)
             (sort_key (\<lambda>r. (crr_effective_on r, crr_account_to_recover r)) (rows (db_change_recovery db)))) db)"

section \<open>The registry of accounts\<close>

text \<open>Ids are handed out in order, names are unique, and every account has its authority object.\<close>

definition names_and_ids :: "database \<Rightarrow> (nat \<times> account_name_type) list" where
  "names_and_ids db = map (\<lambda>a. (ac_id a, ac_name a)) (rows (db_accounts db))"

definition registry_wf :: "database \<Rightarrow> bool" where
  "registry_wf db \<longleftrightarrow>
     map fst (names_and_ids db) = [0..<next_id (db_accounts db)] \<and>
     distinct (map snd (names_and_ids db)) \<and>
     map aa_account (rows (db_authorities db)) = map snd (names_and_ids db)"

definition same_registry :: "database \<Rightarrow> database \<Rightarrow> bool" where
  "same_registry db db' \<longleftrightarrow> names_and_ids db' = names_and_ids db \<and>
     next_id (db_accounts db') = next_id (db_accounts db) \<and>
     map aa_account (rows (db_authorities db')) = map aa_account (rows (db_authorities db))"

lemma same_registry_refl [simp]: "same_registry db db"
  by (simp add: same_registry_def)

lemma same_registry_trans: "same_registry a b \<Longrightarrow> same_registry b c \<Longrightarrow> same_registry a c"
  by (simp add: same_registry_def)

lemma same_registry_wf: "same_registry db db' \<Longrightarrow> registry_wf db \<Longrightarrow> registry_wf db'"
  by (simp add: same_registry_def registry_wf_def)

lemma modify_first_keeps_map:
  "modify_first P f xs = Inr ys \<Longrightarrow> (\<And>x y. f x = Inr y \<Longrightarrow> h y = h x) \<Longrightarrow> map h ys = map h xs"
  by (drule modify_first_split) fastforce

lemma modify_account_registry:
  assumes "modify_account db n f = Inr db'" "\<And>a a'. f a = Inr a' \<Longrightarrow> ac_id a' = ac_id a \<and> ac_name a' = ac_name a"
  shows "same_registry db db'"
proof -
  from assms(1) obtain ys where m: "modify_first (\<lambda>a. ac_name a = n) f (rows (db_accounts db)) = Inr ys"
    and db': "db' = db\<lparr> db_accounts := (db_accounts db)\<lparr> rows := ys \<rparr> \<rparr>"
    by (auto simp: modify_account_def tbl_modify_def bindE_eq_Inr)
  have "map (\<lambda>a. (ac_id a, ac_name a)) ys = map (\<lambda>a. (ac_id a, ac_name a)) (rows (db_accounts db))"
    by (rule modify_first_keeps_map[OF m]) (use assms(2) in simp)
  then show ?thesis by (simp add: same_registry_def names_and_ids_def db')
qed

lemma modify_dgp_registry: "modify_dgp db f = Inr db' \<Longrightarrow> same_registry db db'"
  by (auto simp: modify_dgp_def bindE_eq_Inr same_registry_def names_and_ids_def)

interpretation vote_registry: vote_frame same_registry
proof unfold_locales
  fix db n g db' assume m: "modify_account db n g = Inr db'"
    and g: "\<And>a a'. g a = Inr a' \<Longrightarrow> \<exists>v. a' = a\<lparr> ac_proxied_vsf_votes := v \<rparr>"
  show "same_registry db db'"
  proof (rule modify_account_registry[OF m])
    fix a a' assume "g a = Inr a'"
    from g[OF this] show "ac_id a' = ac_id a \<and> ac_name a' = ac_name a" by auto
  qed
next
  fix db n f db' assume "modify_witness db n f = Inr db'"
  then show "same_registry db db'"
    by (auto simp: same_registry_def names_and_ids_def modify_witness_def bindE_eq_Inr)
qed (simp, rule same_registry_trans)

lemma accrue_sbd_interest_registry: "accrue_sbd_interest db n = Inr db' \<Longrightarrow> same_registry db db'"
proof -
  have p: "pay_sbd_interest now x a = Inr a' \<Longrightarrow> ac_id a' = ac_id a \<and> ac_name a' = ac_name a" for now x a a'
    by (auto simp: pay_sbd_interest_def bindE_eq_Inr)
  show "accrue_sbd_interest db n = Inr db' \<Longrightarrow> same_registry db db'"
    unfolding accrue_sbd_interest_def Let_def add_interest_to_supply_def
    by (auto simp: bindE_eq_Inr split: if_splits dest!: modify_dgp_registry
        dest: modify_account_registry[OF _ p] modify_account_registry intro: same_registry_trans)
qed

lemma adjust_balance_registry:
  assumes "adjust_balance db n d = Inr db'"
  shows "same_registry db db'"
proof (cases "symbol d = SBD_SYMBOL")
  case True
  with assms obtain db1 f where 1: "accrue_sbd_interest db n = Inr db1" "modify_account db1 n f = Inr db'"
      and f: "f = (\<lambda>acnt. bindE (asset_add (ac_sbd_balance acnt) d) (\<lambda>b.
        fc_assert 3481 (True \<longrightarrow> amount b \<ge> 0) (Inr (acnt\<lparr> ac_sbd_balance := b \<rparr>))))"
    by (auto simp: adjust_balance_def modify_balance_def bindE_eq_Inr split: if_splits)
  have "same_registry db1 db'"
    by (rule modify_account_registry[OF 1(2)]) (auto simp: f bindE_eq_Inr fc_assert_eq_Inr)
  with accrue_sbd_interest_registry[OF 1(1)] show ?thesis by (rule same_registry_trans)
next
  case False
  with assms show ?thesis
    unfolding adjust_balance_def modify_balance_def
    by (auto simp: bindE_eq_Inr fc_assert_eq_Inr split: if_splits elim!: modify_account_registry)
qed

lemma create_vesting_registry:
  assumes "create_vesting db n x False = Inr (db', v)"
  shows "same_registry db db'"
proof -
  from assms obtain db1 db2 f where "adjust_balance db n v = Inr db1" "modify_dgp db1 f = Inr db2"
    "adjust_proxied_witness_votes db2 n (amount v) 0 = Inr db'"
    by (auto simp: create_vesting_def bindE_eq_Inr fc_assert_eq_Inr)
  then show ?thesis
    by (meson adjust_balance_registry modify_dgp_registry vote_registry.adjust_proxied_frame same_registry_trans)
qed

lemma register_account_wf:
  assumes "create_account db n key creator received json = Inr db1"
    and "create_account_authority db1 n owner active posting = Inr db2" and "registry_wf db"
  shows "registry_wf db2"
proof -
  have db1: "names_and_ids db1 = names_and_ids db @ [(next_id (db_accounts db), n)]"
    "next_id (db_accounts db1) = Suc (next_id (db_accounts db))" "db_authorities db1 = db_authorities db"
    and fresh: "n \<notin> set (map snd (names_and_ids db))"
    using assms(1)
    by (auto simp: create_account_def tbl_create_def Let_def bindE_eq_Inr names_and_ids_def account_clash_def
        initialize_account_object_def new_account_def list_ex_iff split: if_splits)
  have "names_and_ids db2 = names_and_ids db1" "db_accounts db2 = db_accounts db1"
    "map aa_account (rows (db_authorities db2)) = map aa_account (rows (db_authorities db)) @ [n]"
    using assms(2) db1(3)
    by (auto simp: create_account_authority_def tbl_create_def Let_def bindE_eq_Inr names_and_ids_def split: if_splits)
  with db1 fresh assms(3) show ?thesis by (auto simp: registry_wf_def)
qed

lemma modify_authority_registry:
  assumes "modify_authority db n f = Inr db'" "\<And>a. aa_account (f a) = aa_account a"
  shows "same_registry db db'"
proof -
  from assms(1) obtain ys where m: "modify_first (\<lambda>a. aa_account a = n) (\<lambda>a. Inr (f a)) (rows (db_authorities db)) = Inr ys"
    and db': "db' = db\<lparr> db_authorities := (db_authorities db)\<lparr> rows := ys \<rparr> \<rparr>"
    by (auto simp: modify_authority_def tbl_modify_def bindE_eq_Inr)
  have "map aa_account ys = map aa_account (rows (db_authorities db))"
    by (rule modify_first_keeps_map[OF m]) (use assms(2) in auto)
  then show ?thesis by (simp add: same_registry_def names_and_ids_def db')
qed

lemma update_owner_cases:
  assumes "update_owner_authority db n owner = Inr db'"
  obtains t hs where "rows t = rows (db_owner_history db) @ hs"
    "list_all (\<lambda>h. oah_last_valid_time h = head_block_time db) hs"
    "modify_authority (db\<lparr> db_owner_history := t \<rparr>) n
       (\<lambda>a. a\<lparr> aa_owner := owner, aa_last_owner_update := head_block_time db \<rparr>) = Inr db'"
proof (cases "head_block_num db \<ge> STEEM_OWNER_AUTH_HISTORY_TRACKING_START_BLOCK_NUM")
  case True
  with assms obtain a t where
    1: "tbl_create (\<lambda>x y. False) (\<lambda>i. \<lparr> oah_id = i, oah_account = n,
        oah_previous_owner_authority = aa_owner (a :: account_authority_object), oah_last_valid_time = head_block_time db \<rparr>)
      (db_owner_history db) = Inr t" and
    2: "modify_authority (db\<lparr> db_owner_history := t \<rparr>) n
       (\<lambda>a. a\<lparr> aa_owner := owner, aa_last_owner_update := head_block_time (db\<lparr> db_owner_history := t \<rparr>) \<rparr>) = Inr db'"
    by (auto simp: update_owner_authority_def bindE_eq_Inr)
  from 1 have "\<exists>h. rows t = rows (db_owner_history db) @ [h] \<and> oah_last_valid_time h = head_block_time db"
    by (auto simp: tbl_create_def Let_def split: if_splits)
  with 2 that show ?thesis by (auto simp: head_block_time_def)
next
  case False
  with assms that[of "db_owner_history db" "[]"] show ?thesis
    by (simp add: update_owner_authority_def)
qed

lemma update_owner_registry:
  assumes "update_owner_authority db n owner = Inr db'"
  shows "same_registry db db'"
  using assms
proof (rule update_owner_cases)
  fix t assume "modify_authority (db\<lparr> db_owner_history := t \<rparr>) n
       (\<lambda>a. a\<lparr> aa_owner := owner, aa_last_owner_update := head_block_time db \<rparr>) = Inr db'"
  then have "same_registry (db\<lparr> db_owner_history := t \<rparr>) db'" by (rule modify_authority_registry) simp
  then show ?thesis by (simp add: same_registry_def names_and_ids_def)
qed

section \<open>The steps of the component\<close>

inductive account_step :: "database \<Rightarrow> database \<Rightarrow> bool" where
  create: "account_create_do_apply producing db o1 = Inr db' \<Longrightarrow> account_step db db'"
| create_with_delegation: "account_create_with_delegation_do_apply producing db o2 = Inr db' \<Longrightarrow> account_step db db'"
| claim: "claim_account_do_apply db o3 = Inr db' \<Longrightarrow> account_step db db'"
| create_claimed: "create_claimed_account_do_apply db o4 = Inr db' \<Longrightarrow> account_step db db'"
| update: "account_update_do_apply db o5 = Inr db' \<Longrightarrow> account_step db db'"
| request: "request_account_recovery_do_apply db o6 = Inr db' \<Longrightarrow> account_step db db'"
| recover: "recover_account_do_apply db o7 = Inr db' \<Longrightarrow> account_step db db'"
| change: "change_recovery_account_do_apply db o8 = Inr db' \<Longrightarrow> account_step db db'"
| process: "account_recovery_processing db = Inr db' \<Longrightarrow> account_step db db'"

lemma account_create_cases:
  assumes "account_create_do_apply producing db o1 = Inr db'"
  obtains db1 db2 db3 where "modify_account db (acr_creator o1) (pay_fee (acr_fee o1)) = Inr db1"
    "create_account db1 (acr_new_account_name o1) (acr_memo_key o1) (acr_creator o1) (mk_asset 0 VESTS_SYMBOL) (acr_json_metadata o1) = Inr db2"
    "create_account_authority db2 (acr_new_account_name o1) (acr_owner o1) (acr_active o1) (acr_posting o1) = Inr db3"
    "(if amount (acr_fee o1) > 0 then bindE (create_vesting db3 (acr_new_account_name o1) (acr_fee o1) False) (\<lambda>(db, _). Inr db)
      else Inr db3) = Inr db'"
  using assms unfolding account_create_do_apply_def bindE_eq_Inr fc_assert_eq_Inr
  by (elim exE conjE) (rule that, assumption+)

lemma account_create_with_delegation_cases:
  assumes "account_create_with_delegation_do_apply producing db o1 = Inr db'"
  obtains db1 db2 db3 db4 where
    "modify_account db (acd_creator o1) (pay_fee_and_delegate (acd_fee o1) (acd_delegation o1)) = Inr db1"
    "create_account db1 (acd_new_account_name o1) (acd_memo_key o1) (acd_creator o1) (acd_delegation o1) (acd_json_metadata o1) = Inr db2"
    "create_account_authority db2 (acd_new_account_name o1) (acd_owner o1) (acd_active o1) (acd_posting o1) = Inr db3"
    "(if amount (acd_delegation o1) > 0 then
        bindE (tbl_create delegation_clash (\<lambda>i. \<lparr> vd_id = i, vd_delegator = acd_creator o1,
            vd_delegatee = acd_new_account_name o1, vd_vesting_shares = acd_delegation o1,
            vd_min_delegation_time = to_uint32 (head_block_time db3 + STEEM_CREATE_ACCOUNT_DELEGATION_TIME) \<rparr>)
          (db_delegations db3)) (\<lambda>t. Inr (db3\<lparr> db_delegations := t \<rparr>))
      else Inr db3) = Inr db4"
    "(if amount (acd_fee o1) > 0 then bindE (create_vesting db4 (acd_new_account_name o1) (acd_fee o1) False) (\<lambda>(db, _). Inr db)
      else Inr db4) = Inr db'"
  using assms unfolding account_create_with_delegation_do_apply_def bindE_eq_Inr fc_assert_eq_Inr
  by (elim exE conjE) (rule that, assumption+)

lemma claim_account_cases:
  assumes "claim_account_do_apply db o1 = Inr db'"
  obtains n db1 where "adjust_balance db n (cla_fee o1) = Inr db1"
    "modify_account db1 (cla_creator o1) (\<lambda>a.
         bindE (pay_fee (cla_fee o1) a) (\<lambda>a.
         Inr (a\<lparr> ac_pending_claimed_accounts := ac_pending_claimed_accounts a + 1 \<rparr>))) = Inr db'"
  using assms unfolding claim_account_do_apply_def bindE_eq_Inr fc_assert_eq_Inr
  by (elim exE conjE) (rule that, assumption, simp add: bindE_eq_Inr)

lemma create_claimed_cases:
  assumes "create_claimed_account_do_apply db o1 = Inr db'"
  obtains db1 db2 where "modify_account db (cca_creator o1) (\<lambda>a.
        Inr (a\<lparr> ac_pending_claimed_accounts := ac_pending_claimed_accounts a - 1 \<rparr>)) = Inr db1"
    "create_account db1 (cca_new_account_name o1) (cca_memo_key o1) (cca_creator o1) (mk_asset 0 VESTS_SYMBOL) (cca_json_metadata o1) = Inr db2"
    "create_account_authority db2 (cca_new_account_name o1) (cca_owner o1) (cca_active o1) (cca_posting o1) = Inr db'"
  using assms unfolding create_claimed_account_do_apply_def bindE_eq_Inr fc_assert_eq_Inr
  by (elim exE conjE) (rule that, assumption+)

lemma account_update_cases:
  assumes "account_update_do_apply db o1 = Inr db'"
  obtains a db1 db2 where
    "(case au_owner o1 of None \<Rightarrow> Inr db
             | Some owner \<Rightarrow>
                 fc_assert 419 (head_block_time db - aa_last_owner_update (a :: account_authority_object) > STEEM_OWNER_UPDATE_LIMIT)
                 (bindE (verify_authority_accounts_exist db owner) (\<lambda>_.
                  update_owner_authority db (au_account o1) owner))) = Inr db1"
    "modify_account db1 (au_account o1) (touch_account (head_block_time db1) o1) = Inr db2"
    "(if au_active o1 \<noteq> None \<or> au_posting o1 \<noteq> None then
        modify_authority db2 (au_account o1) (\<lambda>auth.
          auth\<lparr> aa_active := (case au_active o1 of Some a \<Rightarrow> a | None \<Rightarrow> aa_active auth),
                aa_posting := (case au_posting o1 of Some a \<Rightarrow> a | None \<Rightarrow> aa_posting auth) \<rparr>)
      else Inr db2) = Inr db'"
  using assms unfolding account_update_do_apply_def bindE_eq_Inr[of _ "\<lambda>x. f x" for f] fc_assert_eq_Inr[of 401]
  by (elim exE conjE) (rule that, assumption+)

lemma pay_fee_keys: "pay_fee fee a = Inr a' \<Longrightarrow> ac_id a' = ac_id a \<and> ac_name a' = ac_name a"
  "pay_fee_and_delegate fee d a = Inr a' \<Longrightarrow> ac_id a' = ac_id a \<and> ac_name a' = ac_name a"
  "touch_account now o1 a = Inr a' \<Longrightarrow> ac_id a' = ac_id a \<and> ac_name a' = ac_name a"
  by (auto simp: pay_fee_def pay_fee_and_delegate_def touch_account_def bindE_eq_Inr)

lemma vest_fee_registry:
  assumes "(if amount fee > 0 then bindE (create_vesting db n fee False) (\<lambda>(db, _). Inr db) else Inr db) = Inr db'"
  shows "same_registry db db'"
  using assms by (auto simp: bindE_eq_Inr split: if_splits dest: create_vesting_registry)

lemma registry_frame:
  "same_registry db (db\<lparr> db_delegations := t1 \<rparr>)" "same_registry db (db\<lparr> db_recovery_requests := t2 \<rparr>)"
  "same_registry db (db\<lparr> db_change_recovery := t3 \<rparr>)" "same_registry db (db\<lparr> db_owner_history := t4 \<rparr>)"
  by (simp_all add: same_registry_def names_and_ids_def)

lemma account_update_registry:
  assumes "account_update_do_apply db o1 = Inr db'"
  shows "same_registry db db'"
  using assms
proof (rule account_update_cases)
  fix a db1 db2
  assume 1: "(case au_owner o1 of None \<Rightarrow> Inr db
             | Some owner \<Rightarrow>
                 fc_assert 419 (head_block_time db - aa_last_owner_update (a :: account_authority_object) > STEEM_OWNER_UPDATE_LIMIT)
                 (bindE (verify_authority_accounts_exist db owner) (\<lambda>_.
                  update_owner_authority db (au_account o1) owner))) = Inr db1"
    and 2: "modify_account db1 (au_account o1) (touch_account (head_block_time db1) o1) = Inr db2"
    and 3: "(if au_active o1 \<noteq> None \<or> au_posting o1 \<noteq> None then
        modify_authority db2 (au_account o1) (\<lambda>auth.
          auth\<lparr> aa_active := (case au_active o1 of Some a \<Rightarrow> a | None \<Rightarrow> aa_active auth),
                aa_posting := (case au_posting o1 of Some a \<Rightarrow> a | None \<Rightarrow> aa_posting auth) \<rparr>)
      else Inr db2) = Inr db'"
  from 1 have "same_registry db db1"
    by (auto simp: bindE_eq_Inr fc_assert_eq_Inr split: option.splits dest: update_owner_registry)
  moreover have "same_registry db1 db2" using 2 pay_fee_keys(3) by (rule modify_account_registry)
  moreover have "same_registry db2 db'"
    using 3 by (cases "au_active o1 \<noteq> None \<or> au_posting o1 \<noteq> None") (auto elim!: modify_authority_registry)
  ultimately show ?thesis by (meson same_registry_trans)
qed

lemma request_recovery_cases:
  assumes "request_account_recovery_do_apply db o1 = Inr db'"
  obtains t where "db' = db\<lparr> db_recovery_requests := t \<rparr>"
  using assms unfolding request_account_recovery_do_apply_def Let_def
  by (auto simp: bindE_eq_Inr fc_assert_eq_Inr split: option.splits if_splits)

lemma change_recovery_cases:
  assumes "change_recovery_account_do_apply db o1 = Inr db'"
  obtains t where "db' = db\<lparr> db_change_recovery := t \<rparr>"
  using assms unfolding change_recovery_account_do_apply_def Let_def
  by (auto simp: bindE_eq_Inr split: option.splits if_splits)

lemma recover_account_cases:
  assumes "recover_account_do_apply db o1 = Inr db'"
  obtains a req db1 where "get_account db (rec_account_to_recover o1) = Inr a" "ac_name a = rec_account_to_recover o1"
    "tbl_find (\<lambda>r. arr_account_to_recover r = rec_account_to_recover o1) (db_recovery_requests db) = Some req"
    "authority_eq (arr_new_owner_authority req) (rec_new_owner_authority o1)"
    "list_ex (\<lambda>h. oah_account h = rec_account_to_recover o1 \<and>
       authority_eq (oah_previous_owner_authority h) (rec_recent_owner_authority o1)) (rows (db_owner_history db))"
    "update_owner_authority (db\<lparr> db_recovery_requests := tbl_erase req (db_recovery_requests db) \<rparr>)
       (rec_account_to_recover o1) (rec_new_owner_authority o1) = Inr db1"
    "modify_account db1 (rec_account_to_recover o1)
       (\<lambda>a. Inr (a\<lparr> ac_last_account_recovery := head_block_time db1 \<rparr>)) = Inr db'"
proof -
  from assms obtain a where a: "get_account db (rec_account_to_recover o1) = Inr a"
    by (auto simp: recover_account_do_apply_def bindE_eq_Inr)
  then have n: "ac_name a = rec_account_to_recover o1"
    by (auto simp: get_account_def tbl_get_Inr dest: tbl_find_Some)
  with assms a that[OF a n] show ?thesis
    by (auto simp: recover_account_do_apply_def bindE_eq_Inr fc_assert_eq_Inr Let_def split: option.splits)
qed

lemma recovery_processing_cases:
  assumes "account_recovery_processing db = Inr db'"
  obtains t u rs where "foldE apply_recovery_change rs (db\<lparr> db_recovery_requests := t, db_owner_history := u \<rparr>) = Inr db'"
    "rows u = dropWhile (expired_owner_auth (head_block_time db)) (rows (db_owner_history db))"
  using assms unfolding account_recovery_processing_def Let_def
  by (elim that) simp

lemma apply_recovery_changes_registry:
  assumes "foldE apply_recovery_change rs db = Inr db'"
  shows "same_registry db db'"
  using assms
proof (rule foldE_rel)
  fix r and d d' :: database assume "apply_recovery_change r d = Inr d'"
  then obtain d1 t where 1: "modify_account d (crr_account_to_recover r) (\<lambda>a. Inr (a\<lparr> ac_recovery_account := crr_recovery_account r \<rparr>)) = Inr d1"
      "d' = d1\<lparr> db_change_recovery := t \<rparr>"
    by (auto simp: apply_recovery_change_def bindE_eq_Inr)
  have "same_registry d d1" using 1(1) by (rule modify_account_registry) auto
  from this registry_frame(3)[of d1 t] show "same_registry d d'" unfolding 1(2) by (rule same_registry_trans)
qed (simp, rule same_registry_trans)

lemma account_create_wf:
  assumes "account_create_do_apply producing db o1 = Inr db'" "registry_wf db"
  shows "registry_wf db'"
  using assms(1)
proof (rule account_create_cases)
  fix db1 db2 db3
  assume 1: "modify_account db (acr_creator o1) (pay_fee (acr_fee o1)) = Inr db1"
    and 2: "create_account db1 (acr_new_account_name o1) (acr_memo_key o1) (acr_creator o1) (mk_asset 0 VESTS_SYMBOL) (acr_json_metadata o1) = Inr db2"
    and 3: "create_account_authority db2 (acr_new_account_name o1) (acr_owner o1) (acr_active o1) (acr_posting o1) = Inr db3"
    and 4: "(if amount (acr_fee o1) > 0 then bindE (create_vesting db3 (acr_new_account_name o1) (acr_fee o1) False) (\<lambda>(db, _). Inr db)
      else Inr db3) = Inr db'"
  have "registry_wf db1" using modify_account_registry[OF 1 pay_fee_keys(1)] assms(2) by (rule same_registry_wf)
  from same_registry_wf[OF vest_fee_registry[OF 4] register_account_wf[OF 2 3 this]] show ?thesis .
qed

lemma account_create_with_delegation_wf:
  assumes "account_create_with_delegation_do_apply producing db o1 = Inr db'" "registry_wf db"
  shows "registry_wf db'"
  using assms(1)
proof (rule account_create_with_delegation_cases)
  fix db1 db2 db3 db4
  assume 1: "modify_account db (acd_creator o1) (pay_fee_and_delegate (acd_fee o1) (acd_delegation o1)) = Inr db1"
    and 2: "create_account db1 (acd_new_account_name o1) (acd_memo_key o1) (acd_creator o1) (acd_delegation o1) (acd_json_metadata o1) = Inr db2"
    and 3: "create_account_authority db2 (acd_new_account_name o1) (acd_owner o1) (acd_active o1) (acd_posting o1) = Inr db3"
    and 4: "(if amount (acd_delegation o1) > 0 then
      bindE (tbl_create delegation_clash (\<lambda>i. \<lparr> vd_id = i, vd_delegator = acd_creator o1,
          vd_delegatee = acd_new_account_name o1, vd_vesting_shares = acd_delegation o1,
          vd_min_delegation_time = to_uint32 (head_block_time db3 + STEEM_CREATE_ACCOUNT_DELEGATION_TIME) \<rparr>)
        (db_delegations db3)) (\<lambda>t. Inr (db3\<lparr> db_delegations := t \<rparr>))
      else Inr db3) = Inr db4"
    and 5: "(if amount (acd_fee o1) > 0 then bindE (create_vesting db4 (acd_new_account_name o1) (acd_fee o1) False) (\<lambda>(db, _). Inr db)
      else Inr db4) = Inr db'"
  have "registry_wf db1" using modify_account_registry[OF 1 pay_fee_keys(2)] assms(2) by (rule same_registry_wf)
  note r = register_account_wf[OF 2 3 this]
  from 4 registry_frame(1)[of db3] have "same_registry db3 db4" by (auto simp: bindE_eq_Inr split: if_splits)
  from same_registry_wf[OF vest_fee_registry[OF 5] same_registry_wf[OF this r]] show ?thesis .
qed

lemma claim_account_wf:
  assumes "claim_account_do_apply db o1 = Inr db'" "registry_wf db"
  shows "registry_wf db'"
  using assms(1)
proof (rule claim_account_cases)
  fix n db1
  assume 1: "adjust_balance db n (cla_fee o1) = Inr db1" and 2: "modify_account db1 (cla_creator o1) (\<lambda>a.
       bindE (pay_fee (cla_fee o1) a) (\<lambda>a. Inr (a\<lparr> ac_pending_claimed_accounts := ac_pending_claimed_accounts a + 1 \<rparr>))) = Inr db'"
  have "same_registry db1 db'"
    by (rule modify_account_registry[OF 2]) (auto simp: bindE_eq_Inr dest: pay_fee_keys(1))
  with adjust_balance_registry[OF 1] assms(2) show ?thesis by (meson same_registry_wf)
qed

lemma create_claimed_wf:
  assumes "create_claimed_account_do_apply db o1 = Inr db'" "registry_wf db"
  shows "registry_wf db'"
  using assms(1)
proof (rule create_claimed_cases)
  fix db1 db2
  assume 1: "modify_account db (cca_creator o1) (\<lambda>a.
      Inr (a\<lparr> ac_pending_claimed_accounts := ac_pending_claimed_accounts a - 1 \<rparr>)) = Inr db1"
    and 2: "create_account db1 (cca_new_account_name o1) (cca_memo_key o1) (cca_creator o1) (mk_asset 0 VESTS_SYMBOL) (cca_json_metadata o1) = Inr db2"
    and 3: "create_account_authority db2 (cca_new_account_name o1) (cca_owner o1) (cca_active o1) (cca_posting o1) = Inr db'"
  have "same_registry db db1" by (rule modify_account_registry[OF 1]) auto
  from register_account_wf[OF 2 3 same_registry_wf[OF this assms(2)]] show ?thesis .
qed

lemma recover_account_wf:
  assumes "recover_account_do_apply db o1 = Inr db'" "registry_wf db"
  shows "registry_wf db'"
  using assms(1)
proof (rule recover_account_cases)
  fix req db1
  assume 1: "update_owner_authority (db\<lparr> db_recovery_requests := tbl_erase req (db_recovery_requests db) \<rparr>)
     (rec_account_to_recover o1) (rec_new_owner_authority o1) = Inr db1"
    and 2: "modify_account db1 (rec_account_to_recover o1)
     (\<lambda>a. Inr (a\<lparr> ac_last_account_recovery := head_block_time db1 \<rparr>)) = Inr db'"
  have "same_registry db1 db'" by (rule modify_account_registry[OF 2]) auto
  with update_owner_registry[OF 1] registry_frame(2)[of db] assms(2) show ?thesis
    by (meson same_registry_trans same_registry_wf)
qed

lemma recovery_processing_wf:
  assumes "account_recovery_processing db = Inr db'" "registry_wf db"
  shows "registry_wf db'"
  using assms(1)
proof (rule recovery_processing_cases)
  fix t u rs assume "foldE apply_recovery_change rs (db\<lparr> db_recovery_requests := t, db_owner_history := u \<rparr>) = Inr db'"
  from apply_recovery_changes_registry[OF this] assms(2) registry_frame(2,4) show ?thesis
    by (meson same_registry_trans same_registry_wf)
qed

lemma account_step_registry:
  assumes "account_step db db'" "registry_wf db"
  shows "registry_wf db'"
  using assms(1)
proof cases
  case (update o1)
  from account_update_registry[OF this] assms(2) show ?thesis by (rule same_registry_wf)
next
  case (request o1)
  then obtain t where "db' = db\<lparr> db_recovery_requests := t \<rparr>" by (rule request_recovery_cases)
  with assms(2) registry_frame(2) show ?thesis by (blast intro: same_registry_wf)
next
  case (change o1)
  then obtain t where "db' = db\<lparr> db_change_recovery := t \<rparr>" by (rule change_recovery_cases)
  with assms(2) registry_frame(3) show ?thesis by (blast intro: same_registry_wf)
qed (use assms(2) in \<open>blast intro: account_create_wf account_create_with_delegation_wf claim_account_wf
    create_claimed_wf recover_account_wf recovery_processing_wf\<close>)+

section \<open>Accounts conserve the ledger\<close>

lemma pay_fee_slack:
  assumes "modify_account db n f = Inr db'" and "f = pay_fee fee \<or> f = pay_fee_and_delegate fee d"
  shows "slack db' s = slack db s + amt fee s" and "pending_slack db' = pending_slack db"
proof -
  have "slack db' s = slack db s - (- amt fee s)"
    by (rule modify_account_slack[OF assms(1)])
      (use assms(2) in \<open>auto simp: pay_fee_def pay_fee_and_delegate_def bindE_eq_Inr acc_hold_def amt_ops\<close>)
  then show "slack db' s = slack db s + amt fee s" by simp
  have "pending_slack db' = pending_slack db - 0"
    by (rule modify_account_pending[OF assms(1)])
      (use assms(2) in \<open>auto simp: pay_fee_def pay_fee_and_delegate_def bindE_eq_Inr\<close>)
  then show "pending_slack db' = pending_slack db" by simp
qed

lemma register_account_same:
  assumes "create_account db n key creator received json = Inr db1"
    and "create_account_authority db1 n owner active posting = Inr db2"
  shows "ledger_same db db2"
proof -
  from assms(1) obtain t where t: "tbl_create account_clash
       (\<lambda>i. (initialize_account_object n key (db_dgp db) False creator (new_account i))\<lparr>
          ac_received_vesting_shares := received, ac_json_metadata := json \<rparr>) (db_accounts db) = Inr t"
      and db1: "db1 = db\<lparr> db_accounts := t \<rparr>"
    by (auto simp: create_account_def bindE_eq_Inr)
  have "ledger_same db db1"
    unfolding ledger_same_def db1
    using tbl_create_sum[OF t, of "\<lambda>a. acc_hold a s" for s] tbl_create_sum[OF t, of "\<lambda>a. amount (ac_reward_vesting_steem a)"]
    by (simp add: ledger acc_hold_def new_account_def initialize_account_object_def)
  moreover from assms(2) obtain u where "db2 = db1\<lparr> db_authorities := u \<rparr>"
    by (auto simp: create_account_authority_def bindE_eq_Inr)
  ultimately show ?thesis by (simp add: ledger_same_def)
qed

lemma vest_fee_credited:
  assumes "(if amount fee > 0 then bindE (create_vesting db n fee False) (\<lambda>(db, _). Inr db) else Inr db) = Inr db'"
    and "0 \<le> amount fee"
  shows "credited fee db db'"
proof (cases "amount fee > 0")
  case True
  with assms obtain v where "create_vesting db n fee False = Inr (db', v)" by (auto simp: bindE_eq_Inr)
  then show ?thesis by (rule create_vesting_credited) simp
next
  case False
  with assms show ?thesis by (auto simp: credited_def amt_def)
qed

lemma account_create_same:
  assumes "account_create_do_apply producing db o1 = Inr db'" "0 \<le> amount (acr_fee o1)"
  shows "ledger_same db db'"
  using assms(1)
proof (rule account_create_cases)
  fix db1 db2 db3
  assume 1: "modify_account db (acr_creator o1) (pay_fee (acr_fee o1)) = Inr db1"
    and 2: "create_account db1 (acr_new_account_name o1) (acr_memo_key o1) (acr_creator o1) (mk_asset 0 VESTS_SYMBOL) (acr_json_metadata o1) = Inr db2"
    and 3: "create_account_authority db2 (acr_new_account_name o1) (acr_owner o1) (acr_active o1) (acr_posting o1) = Inr db3"
    and 4: "(if amount (acr_fee o1) > 0 then bindE (create_vesting db3 (acr_new_account_name o1) (acr_fee o1) False) (\<lambda>(db, _). Inr db)
      else Inr db3) = Inr db'"
  from pay_fee_slack[OF 1 disjI1[OF refl]] register_account_same[OF 2 3] vest_fee_credited[OF 4 assms(2)] show ?thesis
    by (simp add: ledger_same_def credited_def)
qed

lemma account_create_with_delegation_same:
  assumes "account_create_with_delegation_do_apply producing db o1 = Inr db'" "0 \<le> amount (acd_fee o1)"
  shows "ledger_same db db'"
  using assms(1)
proof (rule account_create_with_delegation_cases)
  fix db1 db2 db3 db4
  assume 1: "modify_account db (acd_creator o1) (pay_fee_and_delegate (acd_fee o1) (acd_delegation o1)) = Inr db1"
    and 2: "create_account db1 (acd_new_account_name o1) (acd_memo_key o1) (acd_creator o1) (acd_delegation o1) (acd_json_metadata o1) = Inr db2"
    and 3: "create_account_authority db2 (acd_new_account_name o1) (acd_owner o1) (acd_active o1) (acd_posting o1) = Inr db3"
    and 4: "(if amount (acd_delegation o1) > 0 then
        bindE (tbl_create delegation_clash (\<lambda>i. \<lparr> vd_id = i, vd_delegator = acd_creator o1,
            vd_delegatee = acd_new_account_name o1, vd_vesting_shares = acd_delegation o1,
            vd_min_delegation_time = to_uint32 (head_block_time db3 + STEEM_CREATE_ACCOUNT_DELEGATION_TIME) \<rparr>)
          (db_delegations db3)) (\<lambda>t. Inr (db3\<lparr> db_delegations := t \<rparr>))
        else Inr db3) = Inr db4"
    and 5: "(if amount (acd_fee o1) > 0 then bindE (create_vesting db4 (acd_new_account_name o1) (acd_fee o1) False) (\<lambda>(db, _). Inr db)
        else Inr db4) = Inr db'"
  from 4 have "ledger_same db3 db4" by (auto simp: bindE_eq_Inr ledger_same_def split: if_splits)
  with pay_fee_slack[OF 1 disjI2[OF refl]] register_account_same[OF 2 3] vest_fee_credited[OF 5 assms(2)] show ?thesis
    by (simp add: ledger_same_def credited_def)
qed

lemma claim_account_same:
  assumes "claim_account_do_apply db o1 = Inr db'"
  shows "ledger_same db db'"
  using assms
proof (rule claim_account_cases)
  fix n db1
  assume 1: "adjust_balance db n (cla_fee o1) = Inr db1" and 2: "modify_account db1 (cla_creator o1) (\<lambda>a.
       bindE (pay_fee (cla_fee o1) a) (\<lambda>a. Inr (a\<lparr> ac_pending_claimed_accounts := ac_pending_claimed_accounts a + 1 \<rparr>))) = Inr db'"
  have "slack db' s = slack db1 s - (- amt (cla_fee o1) s)" for s
    by (rule modify_account_slack[OF 2]) (auto simp: pay_fee_def bindE_eq_Inr acc_hold_def amt_ops)
  moreover have "pending_slack db' = pending_slack db1 - 0"
    by (rule modify_account_pending[OF 2]) (auto simp: pay_fee_def bindE_eq_Inr)
  ultimately show ?thesis using adjust_balance_credited[OF 1] by (simp add: ledger_same_def credited_def)
qed

lemma create_claimed_same:
  assumes "create_claimed_account_do_apply db o1 = Inr db'"
  shows "ledger_same db db'"
  using assms
proof (rule create_claimed_cases)
  fix db1 db2
  assume 1: "modify_account db (cca_creator o1) (\<lambda>a.
      Inr (a\<lparr> ac_pending_claimed_accounts := ac_pending_claimed_accounts a - 1 \<rparr>)) = Inr db1"
    and 2: "create_account db1 (cca_new_account_name o1) (cca_memo_key o1) (cca_creator o1) (mk_asset 0 VESTS_SYMBOL) (cca_json_metadata o1) = Inr db2"
    and 3: "create_account_authority db2 (cca_new_account_name o1) (cca_owner o1) (cca_active o1) (cca_posting o1) = Inr db'"
  have "ledger_same db db1" by (rule modify_account_same[OF 1]) (auto simp: same_holdings_def)
  from this register_account_same[OF 2 3] show ?thesis by (rule ledger_same_trans)
qed

lemma modify_authority_same: "modify_authority db n f = Inr db' \<Longrightarrow> ledger_same db db'"
  by (auto simp: modify_authority_def bindE_eq_Inr ledger_same_def)

lemma update_owner_same:
  assumes "update_owner_authority db n owner = Inr db'"
  shows "ledger_same db db'"
  using assms
proof (rule update_owner_cases)
  fix t assume "modify_authority (db\<lparr> db_owner_history := t \<rparr>) n
       (\<lambda>a. a\<lparr> aa_owner := owner, aa_last_owner_update := head_block_time db \<rparr>) = Inr db'"
  from modify_authority_same[OF this] show ?thesis by (simp add: ledger_same_def)
qed

lemma account_update_same:
  assumes "account_update_do_apply db o1 = Inr db'"
  shows "ledger_same db db'"
  using assms
proof (rule account_update_cases)
  fix a db1 db2
  assume 1: "(case au_owner o1 of None \<Rightarrow> Inr db
             | Some owner \<Rightarrow>
                 fc_assert 419 (head_block_time db - aa_last_owner_update (a :: account_authority_object) > STEEM_OWNER_UPDATE_LIMIT)
                 (bindE (verify_authority_accounts_exist db owner) (\<lambda>_.
                  update_owner_authority db (au_account o1) owner))) = Inr db1"
    and 2: "modify_account db1 (au_account o1) (touch_account (head_block_time db1) o1) = Inr db2"
    and 3: "(if au_active o1 \<noteq> None \<or> au_posting o1 \<noteq> None then
        modify_authority db2 (au_account o1) (\<lambda>auth.
          auth\<lparr> aa_active := (case au_active o1 of Some a \<Rightarrow> a | None \<Rightarrow> aa_active auth),
                aa_posting := (case au_posting o1 of Some a \<Rightarrow> a | None \<Rightarrow> aa_posting auth) \<rparr>)
      else Inr db2) = Inr db'"
  from 1 have "ledger_same db db1"
    by (auto simp: bindE_eq_Inr fc_assert_eq_Inr split: option.splits dest: update_owner_same)
  moreover have "ledger_same db1 db2"
    by (rule modify_account_same[OF 2]) (auto simp: touch_account_def same_holdings_def)
  moreover have "ledger_same db2 db'" using 3 by (auto split: if_splits dest: modify_authority_same)
  ultimately show ?thesis by (meson ledger_same_trans)
qed

lemma recover_account_same:
  assumes "recover_account_do_apply db o1 = Inr db'"
  shows "ledger_same db db'"
  using assms
proof (rule recover_account_cases)
  fix req db1
  assume 1: "update_owner_authority (db\<lparr> db_recovery_requests := tbl_erase req (db_recovery_requests db) \<rparr>)
     (rec_account_to_recover o1) (rec_new_owner_authority o1) = Inr db1"
    and 2: "modify_account db1 (rec_account_to_recover o1)
     (\<lambda>a. Inr (a\<lparr> ac_last_account_recovery := head_block_time db1 \<rparr>)) = Inr db'"
  have "ledger_same db1 db'" by (rule modify_account_same[OF 2]) (auto simp: same_holdings_def)
  with update_owner_same[OF 1] show ?thesis by (simp add: ledger_same_def)
qed

lemma recovery_requests_same:
  "request_account_recovery_do_apply db o1 = Inr db' \<Longrightarrow> ledger_same db db'"
  "change_recovery_account_do_apply db o2 = Inr db' \<Longrightarrow> ledger_same db db'"
  by (auto simp: ledger_same_def elim!: request_recovery_cases change_recovery_cases)

lemma recovery_processing_same:
  assumes "account_recovery_processing db = Inr db'"
  shows "ledger_same db db'"
  using assms
proof (rule recovery_processing_cases)
  fix t u rs assume f: "foldE apply_recovery_change rs (db\<lparr> db_recovery_requests := t, db_owner_history := u \<rparr>) = Inr db'"
  have "ledger_same (db\<lparr> db_recovery_requests := t, db_owner_history := u \<rparr>) db'"
    using f
  proof (rule foldE_rel)
    fix r and d d' :: database assume "apply_recovery_change r d = Inr d'"
    then obtain d1 t where 1: "modify_account d (crr_account_to_recover r) (\<lambda>a. Inr (a\<lparr> ac_recovery_account := crr_recovery_account r \<rparr>)) = Inr d1"
        "d' = d1\<lparr> db_change_recovery := t \<rparr>"
      by (auto simp: apply_recovery_change_def bindE_eq_Inr)
    have "ledger_same d d1" by (rule modify_account_same[OF 1(1)]) (auto simp: same_holdings_def)
    then show "ledger_same d d'" by (simp add: 1(2) ledger_same_def)
  qed (simp, rule ledger_same_trans)
  then show ?thesis by (simp add: ledger_same_def)
qed

section \<open>The history of owner authorities\<close>

text \<open>Between two states of one block the history gains only entries that were valid until now.\<close>

definition history_step :: "database \<Rightarrow> database \<Rightarrow> bool" where
  "history_step db db' \<longleftrightarrow> head_block_time db' = head_block_time db \<and>
     (\<forall>h\<in>set (rows (db_owner_history db')).
        h \<in> set (rows (db_owner_history db)) \<or> oah_last_valid_time h = head_block_time db)"

lemma history_step_refl [simp]: "history_step db db"
  by (simp add: history_step_def)

lemma history_step_trans: "history_step a b \<Longrightarrow> history_step b c \<Longrightarrow> history_step a c"
  by (auto simp: history_step_def)

lemma history_step_frame:
  "db_dgp db' = db_dgp db \<Longrightarrow> db_owner_history db' = db_owner_history db \<Longrightarrow> history_step db db'"
  by (simp add: history_step_def head_block_time_def)

lemma modify_account_history: "modify_account db n f = Inr db' \<Longrightarrow> history_step db db'"
  by (rule history_step_frame) (auto simp: modify_account_def bindE_eq_Inr)

lemma modify_dgp_history:
  "modify_dgp db f = Inr db' \<Longrightarrow> (\<And>g g'. f g = Inr g' \<Longrightarrow> dgp_time g' = dgp_time g) \<Longrightarrow> history_step db db'"
  by (auto simp: modify_dgp_def bindE_eq_Inr history_step_def head_block_time_def)

interpretation vote_history: vote_frame history_step
proof unfold_locales
  fix db n f db' assume "modify_witness db n f = Inr db'"
  then show "history_step db db'" by (intro history_step_frame) (auto simp: modify_witness_def bindE_eq_Inr)
qed (simp, rule history_step_trans, assumption+, rule modify_account_history)

lemma add_interest_history: "add_interest_to_supply db paid = Inr db' \<Longrightarrow> history_step db db'"
  unfolding add_interest_to_supply_def by (erule modify_dgp_history) (auto simp: bindE_eq_Inr)

lemma accrue_sbd_interest_history: "accrue_sbd_interest db n = Inr db' \<Longrightarrow> history_step db db'"
  unfolding accrue_sbd_interest_def Let_def
  by (auto simp: bindE_eq_Inr split: if_splits dest: modify_account_history add_interest_history intro: history_step_trans)

lemma adjust_balance_history: "adjust_balance db n d = Inr db' \<Longrightarrow> history_step db db'"
  unfolding adjust_balance_def modify_balance_def
  by (auto simp: bindE_eq_Inr split: if_splits dest: modify_account_history accrue_sbd_interest_history
      intro: history_step_trans)

lemma create_vesting_history:
  assumes "create_vesting db n x False = Inr (db', v)"
  shows "history_step db db'"
proof -
  from assms obtain db1 db2 where 1: "adjust_balance db n v = Inr db1" and
    2: "modify_dgp db1 (\<lambda>g.
          bindE (asset_add (dgp_total_vesting_fund_steem g) x) (\<lambda>f.
          bindE (asset_add (dgp_total_vesting_shares g) v) (\<lambda>v.
          Inr (g\<lparr> dgp_total_vesting_fund_steem := f, dgp_total_vesting_shares := v \<rparr>)))) = Inr db2" and
    3: "adjust_proxied_witness_votes db2 n (amount v) 0 = Inr db'"
    by (auto simp: create_vesting_def bindE_eq_Inr fc_assert_eq_Inr)
  have "history_step db1 db2" using 2 by (rule modify_dgp_history) (auto simp: bindE_eq_Inr)
  with adjust_balance_history[OF 1] vote_history.adjust_proxied_frame[OF 3] show ?thesis
    by (meson history_step_trans)
qed

lemma register_account_history:
  assumes "create_account db n key creator received json = Inr db1"
    and "create_account_authority db1 n owner active posting = Inr db2"
  shows "history_step db db2"
  using assms by (intro history_step_frame) (auto simp: create_account_def create_account_authority_def bindE_eq_Inr)

lemma vest_fee_history:
  assumes "(if amount fee > 0 then bindE (create_vesting db n fee False) (\<lambda>(db, _). Inr db) else Inr db) = Inr db'"
  shows "history_step db db'"
  using assms by (auto simp: bindE_eq_Inr split: if_splits dest: create_vesting_history)

lemma update_owner_history:
  assumes "update_owner_authority db n owner = Inr db'"
  shows "history_step db db'"
  using assms
proof (rule update_owner_cases)
  fix t hs assume t: "rows t = rows (db_owner_history db) @ hs" "list_all (\<lambda>h. oah_last_valid_time h = head_block_time db) hs"
    and m: "modify_authority (db\<lparr> db_owner_history := t \<rparr>) n
       (\<lambda>a. a\<lparr> aa_owner := owner, aa_last_owner_update := head_block_time db \<rparr>) = Inr db'"
  from m have "db_dgp db' = db_dgp db" "db_owner_history db' = t"
    by (auto simp: modify_authority_def bindE_eq_Inr)
  with t show ?thesis by (auto simp: history_step_def head_block_time_def list_all_iff)
qed

lemma account_update_history:
  assumes "account_update_do_apply db o1 = Inr db'"
  shows "history_step db db'"
  using assms
proof (rule account_update_cases)
  fix a db1 db2
  assume 1: "(case au_owner o1 of None \<Rightarrow> Inr db
             | Some owner \<Rightarrow>
                 fc_assert 419 (head_block_time db - aa_last_owner_update (a :: account_authority_object) > STEEM_OWNER_UPDATE_LIMIT)
                 (bindE (verify_authority_accounts_exist db owner) (\<lambda>_.
                  update_owner_authority db (au_account o1) owner))) = Inr db1"
    and 2: "modify_account db1 (au_account o1) (touch_account (head_block_time db1) o1) = Inr db2"
    and 3: "(if au_active o1 \<noteq> None \<or> au_posting o1 \<noteq> None then
        modify_authority db2 (au_account o1) (\<lambda>auth.
          auth\<lparr> aa_active := (case au_active o1 of Some a \<Rightarrow> a | None \<Rightarrow> aa_active auth),
                aa_posting := (case au_posting o1 of Some a \<Rightarrow> a | None \<Rightarrow> aa_posting auth) \<rparr>)
      else Inr db2) = Inr db'"
  from 1 have "history_step db db1"
    by (auto simp: bindE_eq_Inr fc_assert_eq_Inr split: option.splits dest: update_owner_history)
  moreover have "history_step db2 db'"
    using 3 by (intro history_step_frame) (auto simp: modify_authority_def bindE_eq_Inr split: if_splits)
  ultimately show ?thesis using modify_account_history[OF 2] by (meson history_step_trans)
qed

lemma recovery_processing_history:
  assumes "account_recovery_processing db = Inr db'"
  shows "head_block_time db' = head_block_time db"
    and "rows (db_owner_history db') = dropWhile (expired_owner_auth (head_block_time db)) (rows (db_owner_history db))"
proof -
  have "head_block_time db' = head_block_time db \<and>
    rows (db_owner_history db') = dropWhile (expired_owner_auth (head_block_time db)) (rows (db_owner_history db))"
    using assms
  proof (rule recovery_processing_cases)
    fix t u rs assume f: "foldE apply_recovery_change rs (db\<lparr> db_recovery_requests := t, db_owner_history := u \<rparr>) = Inr db'"
      and u: "rows u = dropWhile (expired_owner_auth (head_block_time db)) (rows (db_owner_history db))"
    have "db_dgp db' = db_dgp (db\<lparr> db_recovery_requests := t, db_owner_history := u \<rparr>)"
      using f by (rule foldE_pres) (auto simp: apply_recovery_change_def modify_account_def bindE_eq_Inr)
    moreover have "db_owner_history db' = db_owner_history (db\<lparr> db_recovery_requests := t, db_owner_history := u \<rparr>)"
      using f by (rule foldE_pres) (auto simp: apply_recovery_change_def modify_account_def bindE_eq_Inr)
    ultimately show ?thesis using u by (simp add: head_block_time_def)
  qed
  then show "head_block_time db' = head_block_time db"
    and "rows (db_owner_history db') = dropWhile (expired_owner_auth (head_block_time db)) (rows (db_owner_history db))"
    by blast+
qed

lemma account_step_history: "account_step db db' \<Longrightarrow> history_step db db'"
proof (induction rule: account_step.induct)
  case (create producing db o1 db')
  then show ?case
  proof (rule account_create_cases)
    fix db1 db2 db3
    assume 1: "modify_account db (acr_creator o1) (pay_fee (acr_fee o1)) = Inr db1"
      and 2: "create_account db1 (acr_new_account_name o1) (acr_memo_key o1) (acr_creator o1) (mk_asset 0 VESTS_SYMBOL) (acr_json_metadata o1) = Inr db2"
      and 3: "create_account_authority db2 (acr_new_account_name o1) (acr_owner o1) (acr_active o1) (acr_posting o1) = Inr db3"
      and 4: "(if amount (acr_fee o1) > 0 then bindE (create_vesting db3 (acr_new_account_name o1) (acr_fee o1) False) (\<lambda>(db, _). Inr db)
        else Inr db3) = Inr db'"
    from modify_account_history[OF 1] register_account_history[OF 2 3] vest_fee_history[OF 4] show ?thesis
      by (meson history_step_trans)
  qed
next
  case (create_with_delegation producing db o2 db')
  then show ?case
  proof (rule account_create_with_delegation_cases)
    fix db1 db2 db3 db4
    assume 1: "modify_account db (acd_creator o2) (pay_fee_and_delegate (acd_fee o2) (acd_delegation o2)) = Inr db1"
      and 2: "create_account db1 (acd_new_account_name o2) (acd_memo_key o2) (acd_creator o2) (acd_delegation o2) (acd_json_metadata o2) = Inr db2"
      and 3: "create_account_authority db2 (acd_new_account_name o2) (acd_owner o2) (acd_active o2) (acd_posting o2) = Inr db3"
      and 4: "(if amount (acd_delegation o2) > 0 then
          bindE (tbl_create delegation_clash (\<lambda>i. \<lparr> vd_id = i, vd_delegator = acd_creator o2,
              vd_delegatee = acd_new_account_name o2, vd_vesting_shares = acd_delegation o2,
              vd_min_delegation_time = to_uint32 (head_block_time db3 + STEEM_CREATE_ACCOUNT_DELEGATION_TIME) \<rparr>)
            (db_delegations db3)) (\<lambda>t. Inr (db3\<lparr> db_delegations := t \<rparr>))
          else Inr db3) = Inr db4"
      and 5: "(if amount (acd_fee o2) > 0 then bindE (create_vesting db4 (acd_new_account_name o2) (acd_fee o2) False) (\<lambda>(db, _). Inr db)
          else Inr db4) = Inr db'"
    from 4 have "history_step db3 db4" by (intro history_step_frame) (auto simp: bindE_eq_Inr split: if_splits)
    with modify_account_history[OF 1] register_account_history[OF 2 3] vest_fee_history[OF 5] show ?thesis
      by (meson history_step_trans)
  qed
next
  case (claim db o3 db')
  then show ?case
    by (rule claim_account_cases) (rule history_step_trans[OF adjust_balance_history modify_account_history])
next
  case (create_claimed db o4 db')
  then show ?case
    by (rule create_claimed_cases) (rule history_step_trans[OF modify_account_history register_account_history])
next
  case (update db o5 db')
  then show ?case by (rule account_update_history)
next
  case (request db o6 db')
  then show ?case by (rule request_recovery_cases) (simp add: history_step_frame)
next
  case (recover db o7 db')
  then show ?case
  proof (rule recover_account_cases)
    fix req db1
    assume 1: "update_owner_authority (db\<lparr> db_recovery_requests := tbl_erase req (db_recovery_requests db) \<rparr>)
       (rec_account_to_recover o7) (rec_new_owner_authority o7) = Inr db1"
      and 2: "modify_account db1 (rec_account_to_recover o7)
       (\<lambda>a. Inr (a\<lparr> ac_last_account_recovery := head_block_time db1 \<rparr>)) = Inr db'"
    have "history_step db (db\<lparr> db_recovery_requests := tbl_erase req (db_recovery_requests db) \<rparr>)" by (simp add: history_step_frame)
    with update_owner_history[OF 1] modify_account_history[OF 2] show ?thesis by (meson history_step_trans)
  qed
next
  case (change db o8 db')
  then show ?case by (rule change_recovery_cases) (simp add: history_step_frame)
next
  case (process db db')
  then show ?case
    using recovery_processing_history[OF process] by (auto simp: history_step_def dest: set_dropWhileD)
qed

definition fresh_history :: "database \<Rightarrow> bool" where
  "fresh_history db \<longleftrightarrow>
     list_all (\<lambda>h. head_block_time db - oah_last_valid_time h \<le> STEEM_OWNER_AUTH_RECOVERY_PERIOD) (rows (db_owner_history db))"

text \<open>Entries are appended with the time of the head block, so the history is in the order of time.\<close>

definition ordered_history :: "database \<Rightarrow> bool" where
  "ordered_history db \<longleftrightarrow> sorted (map oah_last_valid_time (rows (db_owner_history db))) \<and>
     list_all (\<lambda>h. 0 \<le> oah_last_valid_time h \<and> oah_last_valid_time h + STEEM_OWNER_AUTH_RECOVERY_PERIOD < 4294967296)
       (rows (db_owner_history db))"

lemma drop_expired_fresh:
  assumes "sorted (map oah_last_valid_time xs)"
    and "list_all (\<lambda>h. 0 \<le> oah_last_valid_time h \<and> oah_last_valid_time h + STEEM_OWNER_AUTH_RECOVERY_PERIOD < 4294967296) xs"
  shows "list_all (\<lambda>h. now - oah_last_valid_time h \<le> STEEM_OWNER_AUTH_RECOVERY_PERIOD) (dropWhile (expired_owner_auth now) xs)"
  using assms
proof (induction xs)
  case (Cons x xs)
  show ?case
  proof (cases "expired_owner_auth now x")
    case False
    with Cons.prems have "now - oah_last_valid_time x \<le> STEEM_OWNER_AUTH_RECOVERY_PERIOD"
      by (simp add: expired_owner_auth_def)
    moreover have "oah_last_valid_time x \<le> oah_last_valid_time y" if "y \<in> set xs" for y
      using Cons.prems(1) that by simp
    ultimately show ?thesis using False by (force simp: list_all_iff)
  qed (use Cons in simp)
qed simp

lemma history_step_fresh: "history_step db db' \<Longrightarrow> fresh_history db \<Longrightarrow> fresh_history db'"
  by (auto simp: history_step_def fresh_history_def list_all_iff)

lemma block_history_fresh:
  assumes "account_recovery_processing db0 = Inr db1" "ordered_history db0" "account_step\<^sup>*\<^sup>* db1 db"
  shows "fresh_history db"
  using assms(3)
proof (induction rule: rtranclp_induct)
  case base
  show ?case
    using drop_expired_fresh[of "rows (db_owner_history db0)" "head_block_time db0"] assms(2)
      recovery_processing_history[OF assms(1)]
    by (simp add: fresh_history_def ordered_history_def)
next
  case (step y z)
  from history_step_fresh[OF account_step_history[OF step(2)] step(3)] show ?case .
qed

lemma modify_authority_get:
  assumes "modify_authority db n f = Inr db'" "\<And>a. aa_account (f a) = aa_account a"
  shows "\<exists>a. get_authority db n = Inr a \<and> get_authority db' n = Inr (f a)"
    and "m \<noteq> n \<Longrightarrow> get_authority db' m = get_authority db m"
proof -
  from assms(1) obtain t where t: "tbl_modify (\<lambda>a. aa_account a = n) (\<lambda>a. Inr (f a)) (db_authorities db) = Inr t"
    and db': "db' = db\<lparr> db_authorities := t \<rparr>"
    by (auto simp: modify_authority_def bindE_eq_Inr)
  from tbl_modify_find[OF t] obtain a where a: "tbl_find (\<lambda>a. aa_account a = n) (db_authorities db) = Some a" by blast
  then have "aa_account (f a) = n" using tbl_find_Some[OF a] assms(2) by simp
  with tbl_modify_find_after[OF t a refl] a show "\<exists>a. get_authority db n = Inr a \<and> get_authority db' n = Inr (f a)"
    by (simp add: get_authority_def tbl_get_Inr db')
  assume "m \<noteq> n"
  then have "tbl_find (\<lambda>a. aa_account a = m) t = tbl_find (\<lambda>a. aa_account a = m) (db_authorities db)"
    using assms(2) by (intro tbl_modify_find_other[OF t]) auto
  then show "get_authority db' m = get_authority db m" by (simp add: get_authority_def tbl_get_def db')
qed

lemma update_owner_get:
  assumes "update_owner_authority db n owner = Inr db'"
  shows "\<exists>a. get_authority db n = Inr a \<and>
      get_authority db' n = Inr (a\<lparr> aa_owner := owner, aa_last_owner_update := head_block_time db \<rparr>)"
    and "m \<noteq> n \<Longrightarrow> get_authority db' m = get_authority db m"
proof -
  have *: "(\<exists>a. get_authority db n = Inr a \<and>
      get_authority db' n = Inr (a\<lparr> aa_owner := owner, aa_last_owner_update := head_block_time db \<rparr>)) \<and>
      (m \<noteq> n \<longrightarrow> get_authority db' m = get_authority db m)" for m
    using assms
  proof (rule update_owner_cases)
    fix t assume u: "modify_authority (db\<lparr> db_owner_history := t \<rparr>) n
       (\<lambda>a. a\<lparr> aa_owner := owner, aa_last_owner_update := head_block_time db \<rparr>) = Inr db'"
    have "get_authority (db\<lparr> db_owner_history := t \<rparr>) x = get_authority db x" for x
      by (simp add: get_authority_def)
    with modify_authority_get[OF u] show ?thesis by simp
  qed
  from * show "\<exists>a. get_authority db n = Inr a \<and>
      get_authority db' n = Inr (a\<lparr> aa_owner := owner, aa_last_owner_update := head_block_time db \<rparr>)" by blast
  from * show "m \<noteq> n \<Longrightarrow> get_authority db' m = get_authority db m" by blast
qed

text \<open>C8. The registry of accounts stays well formed under every sequence of account operations and
  recovery processing: ids are handed out in order without gaps, no two accounts share a name, and
  every account has exactly one authority object.\<close>

theorem registry_stays_well_formed:
  assumes "account_step\<^sup>*\<^sup>* db db'" "registry_wf db"
  shows "registry_wf db'"
  using assms by (induction rule: rtranclp_induct) (auto intro: account_step_registry)


section \<open>Evaluation\<close>

definition dave_op :: account_create_operation where
  "dave_op = \<lparr> acr_fee = mk_asset 3000 STEEM_SYMBOL, acr_creator = ''alice'', acr_new_account_name = ''dave'',
     acr_owner = sample_authority ''owner-dave'', acr_active = sample_authority ''active-dave'',
     acr_posting = sample_authority ''posting-dave'', acr_memo_key = ''memo-dave'', acr_json_metadata = [] \<rparr>"

definition dave_db :: database where
  "dave_db = res_or sample_db (account_create_do_apply True sample_db dave_op)"

theorem registry_stays_well_formed_witness:
  "account_step\<^sup>*\<^sup>* sample_db dave_db \<and> registry_wf dave_db \<and> map ac_name (rows (db_accounts dave_db)) = [''alice'', ''bob'', ''carol'', ''dave'']"
proof -
  have "case account_create_do_apply True sample_db dave_op of
      Inr d \<Rightarrow> map ac_name (rows (db_accounts d)) = [''alice'', ''bob'', ''carol'', ''dave''] | Inl e \<Rightarrow> False"
    by code_simp
  then have r: "account_create_do_apply True sample_db dave_op = Inr dave_db"
    and n: "map ac_name (rows (db_accounts dave_db)) = [''alice'', ''bob'', ''carol'', ''dave'']"
    unfolding dave_db_def by (rule res_or_run)+
  have s: "account_step\<^sup>*\<^sup>* sample_db dave_db" using account_step.create[OF r] by blast
  have w: "registry_wf sample_db" by code_simp
  from registry_stays_well_formed[OF s w] s n show ?thesis by blast
qed

text \<open>Bob's owner key was changed ten thousand seconds ago; Alice, the recovery partner, asks for a new one.\<close>

definition stolen_db :: database where
  "stolen_db = sample_db\<lparr>
     db_dgp := sample_dgp\<lparr> dgp_head_block_number := 4000000 \<rparr>,
     db_owner_history := \<lparr> rows = [\<lparr> oah_id = 0, oah_account = ''bob'', oah_previous_owner_authority = sample_authority ''old-bob'',
        oah_last_valid_time = 1499990000 \<rparr>], next_id = 1 \<rparr> \<rparr>"

definition recovery_request_op :: request_account_recovery_operation where
  "recovery_request_op = \<lparr> rar_recovery_account = ''alice'', rar_account_to_recover = ''bob'',
     rar_new_owner_authority = sample_authority ''new-bob'', rar_extensions = [] \<rparr>"

definition recover_op :: recover_account_operation where
  "recover_op = \<lparr> rec_account_to_recover = ''bob'', rec_new_owner_authority = sample_authority ''new-bob'',
     rec_recent_owner_authority = sample_authority ''old-bob'', rec_extensions = [] \<rparr>"

definition block_db :: database where
  "block_db = res_or stolen_db (account_recovery_processing stolen_db)"

definition requested_db :: database where
  "requested_db = res_or stolen_db (request_account_recovery_do_apply block_db recovery_request_op)"

definition recovered_db :: database where
  "recovered_db = res_or stolen_db (recover_account_do_apply requested_db recover_op)"


end
