(* ===== verification/Reward_Math.thy ===== *)
theory Reward_Math
  imports Balances
begin

text \<open>
  The reward curves of src/src/core/chain/utils/reward.cpp: the integer square root that weighs
  curation, the four curves, and the share of a reward fund a post receives.

  The 128-bit values are integers below \<open>2 ^ 128\<close> with the wrap-around of \<open>fc::uint128\<close> written
  out; \<open>u256\<close> is an unsigned integer modulo \<open>2 ^ 256\<close>.  The lemmas bound the error of the square
  root, show that every curve is monotone on the values the chain feeds it (so that the weight of a
  vote, a difference of two values of a curve, never wraps), and that the posts paid out of one
  fund in one round never receive more than the fund holds.
\<close>

section \<open>The integer square root\<close>

text \<open>\<open>find_msb\<close> of Boost on a 64-bit word: the index of the highest bit that is set.\<close>

function msb_index :: "int \<Rightarrow> nat" where
  "msb_index x = (if x \<le> 1 then 0 else Suc (msb_index (x div 2)))"
  by pat_completeness auto
termination by (relation "measure nat") auto

declare msb_index.simps [simp del]

definition find_msb :: "int \<Rightarrow> nat" where
  "find_msb u =
     (let hi = u div two64; lo = u mod two64;
          x = (if lo \<noteq> 0 then lo else 1);
          places = (if hi \<noteq> 0 then 64 else 0);
          x = (if hi \<noteq> 0 then hi else x)
      in msb_index x + places)"

definition approx_sqrt :: "int \<Rightarrow> int" where
  "approx_sqrt x =
     (if x = 0 then 0
      else
        let msb_x = find_msb x;
            msb_z = msb_x div 2;
            msb_x_bit = 2 ^ msb_x;
            msb_z_bit = 2 ^ msb_z;
            mantissa_mask = msb_x_bit - 1;
            mantissa_x = and x mantissa_mask;
            mantissa_z_hi = (if odd msb_x then msb_z_bit else 0);
            mantissa_z_lo = to_uint64 (drop_bit (msb_x - msb_z) mantissa_x);
            mantissa_z = drop_bit 1 (or mantissa_z_hi mantissa_z_lo)
        in or msb_z_bit mantissa_z)"

section \<open>The reward curves\<close>

definition evaluate_reward_curve :: "int \<Rightarrow> curve_id \<Rightarrow> int \<Rightarrow> int res" where
  "evaluate_reward_curve rshares curve content_constant =
     (case curve of
        quadratic \<Rightarrow>
          let rshares_plus_s = to_uint128 (rshares + content_constant) in
          Inr (to_uint128 (to_uint128 (rshares_plus_s * rshares_plus_s)
                 - to_uint128 (content_constant * content_constant)))
      | quadratic_curation \<Rightarrow>
          let two_alpha = to_uint128 (content_constant * 2);
              d = to_uint128 (two_alpha + rshares)
          in if d = 0 then Inl Divide_by_zero_exception
             else Inr (rshares mod two64 * two64 div d)
      | linear \<Rightarrow> Inr rshares
      | square_root \<Rightarrow> Inr (approx_sqrt rshares))"

section \<open>The reward of a post\<close>

record comment_reward_context =
  ctx_rshares :: int
  ctx_reward_weight :: int
  ctx_max_sbd :: asset
  ctx_total_reward_shares2 :: int
  ctx_total_reward_fund_steem :: asset
  ctx_current_steem_price :: price
  ctx_reward_curve :: curve_id
  ctx_content_constant :: int

abbreviation (input) two256 :: int where
  "two256 \<equiv> 115792089237316195423570985008687907853269984665640564039457584007913129639936"

definition to_u256 :: "int \<Rightarrow> int" where
  "to_u256 x = x mod two256"

definition is_comment_payout_dust :: "price \<Rightarrow> int \<Rightarrow> bool res" where
  "is_comment_payout_dust p steem_payout =
     bindE (util_to_sbd p (mk_asset (to_int64 steem_payout) STEEM_SYMBOL)) (\<lambda>x.
     asset_lt x (mk_asset 20 SBD_SYMBOL))"

definition get_rshare_reward :: "comment_reward_context \<Rightarrow> int res" where
  "get_rshare_reward ctx =
     fc_assert 41 (ctx_rshares ctx > 0)
     (fc_assert 42 (ctx_total_reward_shares2 ctx > 0)
     (let rf = to_u256 (amount (ctx_total_reward_fund_steem ctx));
          total_claims = ctx_total_reward_shares2 ctx
      in bindE (evaluate_reward_curve (to_uint128 (ctx_rshares ctx)) (ctx_reward_curve ctx)
                  (ctx_content_constant ctx)) (\<lambda>claim.
         let claim = to_u256 (claim * ctx_reward_weight ctx) div STEEM_100_PERCENT;
             payout = to_u256 (rf * claim) div total_claims
         in fc_assert 53 (payout \<le> int64_max)
            (bindE (is_comment_payout_dust (ctx_current_steem_price ctx) payout) (\<lambda>dust.
             let payout = (if dust then 0 else payout) in
             bindE (util_to_steem (ctx_current_steem_price ctx) (ctx_max_sbd ctx)) (\<lambda>max_steem.
             Inr (min payout (to_uint64 (amount max_steem)))))))))"

section \<open>The square root is accurate and monotone\<close>

lemma msb_index_bounds: "1 \<le> x \<Longrightarrow> 2 ^ msb_index x \<le> x \<and> x < 2 ^ Suc (msb_index x)"
proof (induction x rule: msb_index.induct)
  case (1 x)
  show ?case
  proof (cases "x \<le> 1")
    case True
    with 1 have "x = 1" by simp
    then show ?thesis by (simp add: msb_index.simps[of 1])
  next
    case False
    with 1 have "2 ^ msb_index (x div 2) \<le> x div 2" "x div 2 < 2 ^ Suc (msb_index (x div 2))" by auto
    then have "2 * 2 ^ msb_index (x div 2) \<le> x" "x < 2 * (2 * 2 ^ msb_index (x div 2))" by simp_all
    with False show ?thesis by (simp add: msb_index.simps[of x])
  qed
qed

lemma find_msb_bounds:
  assumes "1 \<le> x"
  shows "2 ^ find_msb x \<le> x \<and> x < 2 ^ Suc (find_msb x)"
proof (cases "x < two64")
  case True
  with assms have "find_msb x = msb_index x" by (simp add: find_msb_def Let_def)
  with msb_index_bounds[OF assms] show ?thesis by simp
next
  case False
  define hi where "hi = x div two64"
  define m where "m = msb_index hi"
  from False have "1 \<le> hi" by (simp add: hi_def)
  from msb_index_bounds[OF this] have b: "2 ^ m \<le> hi" "hi + 1 \<le> 2 ^ Suc m" by (auto simp: m_def)
  from \<open>1 \<le> hi\<close> have f: "find_msb x = m + 64" by (simp add: find_msb_def Let_def m_def hi_def)
  have x: "hi * two64 \<le> x" "x < (hi + 1) * two64" by (simp_all add: hi_def)
  from b(1) have "2 ^ m * two64 \<le> hi * two64" by simp
  moreover from b(2) have "(hi + 1) * two64 \<le> 2 ^ Suc m * two64" by (rule mult_right_mono) simp
  ultimately show ?thesis using x by (simp add: f power_add)
qed

lemma find_msb_unique:
  assumes "2 ^ e \<le> x" "x < 2 ^ Suc e"
  shows "find_msb x = e"
proof -
  have x1: "1 \<le> x" by (rule order_trans[OF _ assms(1)]) simp
  have b: "2 ^ find_msb x \<le> x" "x < 2 ^ Suc (find_msb x)"
    using find_msb_bounds[OF x1] by blast+
  have "(2::int) ^ e < 2 ^ Suc (find_msb x)" using assms(1) b(2) by (rule order_le_less_trans)
  then have "e < Suc (find_msb x)" by (rule power_less_imp_less_exp[rotated]) simp
  moreover have "(2::int) ^ find_msb x < 2 ^ Suc e" using b(1) assms(2) by (rule order_le_less_trans)
  then have "find_msb x < Suc e" by (rule power_less_imp_less_exp[rotated]) simp
  ultimately show ?thesis by simp
qed

lemma or_disjoint_add:
  fixes a b :: int
  assumes "0 \<le> b" "b < 2 ^ n"
  shows "or (2 ^ n) b = 2 ^ n + b"
proof -
  have "take_bit n b = b" using assms by (simp add: take_bit_int_eq_self)
  with bit_take_bit_iff[of n b n] have "\<not> bit b n" by simp
  then have "\<not> bit (and (2 ^ n) b) i" for i by (cases "i = n") (simp_all add: bit_and_iff bit_exp_iff)
  then have "and (2 ^ n) b = 0" by (intro bit_eqI) simp
  then show ?thesis by (simp add: plus_and_or[of "2 ^ n" b, symmetric])
qed

text \<open>The routine without bit operations: with the exponent \<open>e\<close> of \<open>x\<close> at hand, the mantissa is halved,
  shifted by half of \<open>e\<close> and put under the new exponent.\<close>

definition sqrt_line :: "nat \<Rightarrow> int \<Rightarrow> int" where
  "sqrt_line e x = (let z = e div 2 in
     2 ^ z + ((if odd e then 2 ^ z else 0) + (x - 2 ^ e) div 2 ^ (e - z)) div 2)"

lemma int_div_less:
  fixes p q r :: int
  assumes "0 < q" "p < r * q"
  shows "p div q < r"
proof (rule ccontr)
  assume "\<not> p div q < r"
  then have "r * q \<le> p div q * q" using assms(1) by (intro mult_right_mono) auto
  also have "\<dots> \<le> p" using assms(1) by (metis div_mult_mod_eq le_add_same_cancel1 pos_mod_sign)
  finally show False using assms(2) by simp
qed

lemma mantissa_low:
  fixes x :: int
  assumes "2 ^ e \<le> x" "x < 2 ^ Suc e"
  shows "0 \<le> (x - 2 ^ e) div 2 ^ (e - e div 2)" and "(x - 2 ^ e) div 2 ^ (e - e div 2) < 2 ^ (e div 2)"
proof -
  show "0 \<le> (x - 2 ^ e) div 2 ^ (e - e div 2)"
    using assms(1) by (simp add: pos_imp_zdiv_nonneg_iff)
  have "(2::int) ^ e = 2 ^ (e div 2) * 2 ^ (e - e div 2)" by (simp add: power_add[symmetric])
  moreover have "x - 2 ^ e < 2 ^ e" using assms(2) by simp
  ultimately show "(x - 2 ^ e) div 2 ^ (e - e div 2) < 2 ^ (e div 2)"
    by (intro int_div_less) simp_all
qed

lemma approx_sqrt_line:
  assumes e: "2 ^ e \<le> x" "x < 2 ^ Suc e" "e < 128"
  shows "approx_sqrt x = sqrt_line e x"
proof -
  define z where "z = e div 2"
  define lo where "lo = (x - 2 ^ e) div 2 ^ (e - z)"
  define hi :: int where "hi = (if odd e then 2 ^ z else 0)"
  have lo: "0 \<le> lo" "lo < 2 ^ z" using mantissa_low[OF e(1,2)] by (simp_all add: lo_def z_def)
  have x: "0 < x" by (rule less_le_trans[OF _ e(1)]) simp
  have z64: "z < 64" using e(3) by (simp add: z_def)
  then have "(2::int) ^ z \<le> 2 ^ 63" by (intro power_increasing) auto
  with lo have lo64: "to_uint64 lo = lo" by (simp add: to_uint64_def)
  have "take_bit e x = x - 2 ^ e"
  proof -
    have "x mod 2 ^ e = (x - 2 ^ e) mod 2 ^ e" by (simp add: mod_diff_eq[symmetric, of x "2 ^ e"] flip: mod_diff_right_eq)
    also have "\<dots> = x - 2 ^ e" using e by (intro mod_pos_pos_trivial) auto
    finally show ?thesis by (simp add: take_bit_eq_mod)
  qed
  then have mant: "and x (2 ^ e - 1) = x - 2 ^ e"
    by (simp add: take_bit_eq_mask mask_eq_exp_minus_1)
  have or1: "or hi lo = hi + lo"
    using or_disjoint_add[OF lo] by (simp add: hi_def)
  have half: "0 \<le> (hi + lo) div 2" "(hi + lo) div 2 < 2 ^ z"
    using lo by (auto simp: hi_def)
  show ?thesis
    using x find_msb_unique[OF e(1,2)] or1 or_disjoint_add[OF half] mant lo64
    by (cases "odd e")
      (simp_all add: approx_sqrt_def sqrt_line_def Let_def z_def[symmetric] hi_def lo_def[symmetric] drop_bit_eq_div)
qed

lemma even_root_accurate:
  fixes Z m h lo :: int
  assumes "0 < Z" "0 \<le> lo" "lo < Z" "lo * Z \<le> m" "m < (lo + 1) * Z" "h = lo div 2"
  shows "Z * Z + m < (Z + h + 1) * (Z + h + 1)" and "8 * ((Z + h) * (Z + h)) \<le> 9 * (Z * Z + m)"
proof -
  have h: "0 \<le> h" "2 * h \<le> lo" "lo + 1 \<le> 2 * (h + 1)" using assms by auto
  have "(lo + 1) * Z \<le> 2 * (h + 1) * Z" using h(3) assms(1) by (intro mult_right_mono) auto
  moreover have "0 < (h + 1) * (h + 1)" using h(1) by simp
  ultimately show "Z * Z + m < (Z + h + 1) * (Z + h + 1)" using assms(5) by (simp add: algebra_simps)
  have "2 * h * Z \<le> lo * Z" using h(2) assms(1) by (intro mult_right_mono) auto
  moreover have "(2 * h) * (2 * h) \<le> Z * Z" using h assms by (intro mult_mono) auto
  moreover have "(2 * h) * (2 * h) \<le> (2 * h) * Z" using h assms by (intro mult_left_mono) auto
  ultimately show "8 * ((Z + h) * (Z + h)) \<le> 9 * (Z * Z + m)" using assms(4) by (simp add: algebra_simps)
qed

lemma odd_root_accurate:
  fixes Z m h lo :: int
  assumes "0 < Z" "0 \<le> lo" "lo < Z" "lo * (2 * Z) \<le> m" "m < (lo + 1) * (2 * Z)" "h = (Z + lo) div 2"
  shows "2 * (Z * Z) + m < (Z + h + 1) * (Z + h + 1)" and "8 * ((Z + h) * (Z + h)) \<le> 9 * (2 * (Z * Z) + m)"
proof -
  have h: "2 * h \<le> Z + lo" "Z + lo + 1 \<le> 2 * (h + 1)" "0 \<le> h" using assms by auto
  have "(3 * Z + lo + 1) * (3 * Z + lo + 1) \<le> (2 * (Z + h + 1)) * (2 * (Z + h + 1))"
    using h assms by (intro mult_mono) auto
  moreover have "0 \<le> (Z - (lo + 1)) * (Z - (lo + 1))" by simp
  moreover have "4 * m + 4 \<le> 8 * Z * (lo + 1)" using assms(5) by (simp add: algebra_simps)
  ultimately show "2 * (Z * Z) + m < (Z + h + 1) * (Z + h + 1)" by (simp add: algebra_simps)
  have "(2 * (Z + h)) * (2 * (Z + h)) \<le> (3 * Z + lo) * (3 * Z + lo)"
    using h assms by (intro mult_mono) auto
  moreover have "lo * lo \<le> lo * Z" using assms by (intro mult_left_mono) auto
  moreover have "0 \<le> lo * Z" using assms by simp
  ultimately show "8 * ((Z + h) * (Z + h)) \<le> 9 * (2 * (Z * Z) + m)"
    using assms(4) by (simp add: algebra_simps)
qed

lemma sqrt_line_accurate:
  assumes e: "2 ^ e \<le> x" "x < 2 ^ Suc e"
  shows "x < (sqrt_line e x + 1) * (sqrt_line e x + 1)" and "8 * (sqrt_line e x * sqrt_line e x) \<le> 9 * x"
proof -
  define z where "z = e div 2"
  define Z :: int where "Z = 2 ^ z"
  define D :: int where "D = 2 ^ (e - z)"
  define m where "m = x - 2 ^ e"
  define lo where "lo = m div D"
  have Z: "0 < Z" "0 < D" by (simp_all add: Z_def D_def)
  have lo12: "0 \<le> lo" "lo < Z" using mantissa_low[OF e] by (simp_all add: lo_def m_def Z_def D_def z_def)
  have "m = lo * D + m mod D" by (simp add: lo_def)
  moreover have "0 \<le> m mod D" "m mod D < D" using Z(2) by simp_all
  ultimately have "lo * D \<le> m" "m < (lo + 1) * D" by (simp_all add: distrib_right)
  note lo = lo12 this
  have "x < (sqrt_line e x + 1) * (sqrt_line e x + 1) \<and> 8 * (sqrt_line e x * sqrt_line e x) \<le> 9 * x"
  proof (cases "odd e")
    case True
    then have "e = Suc (z + z)" by (auto simp: z_def elim: oddE)
    then have D: "D = 2 * Z" and E: "(2::int) ^ e = 2 * (Z * Z)" by (simp_all add: D_def Z_def power_add)
    have "sqrt_line e x = Z + (Z + lo) div 2"
      using True by (simp add: sqrt_line_def z_def[symmetric] Z_def[symmetric] D_def[symmetric] m_def[symmetric] lo_def[symmetric])
    moreover have "x = 2 * (Z * Z) + m" by (simp add: m_def E)
    ultimately show ?thesis
      using odd_root_accurate[OF Z(1) lo(1,2) lo(3,4)[unfolded D] refl] by simp
  next
    case False
    then have "e = z + z" by (auto simp: z_def)
    then have D: "D = Z" and E: "(2::int) ^ e = Z * Z" by (simp_all add: D_def Z_def power_add)
    have "sqrt_line e x = Z + lo div 2"
      using False by (simp add: sqrt_line_def z_def[symmetric] Z_def[symmetric] D_def[symmetric] m_def[symmetric] lo_def[symmetric])
    moreover have "x = Z * Z + m" by (simp add: m_def E)
    ultimately show ?thesis
      using even_root_accurate[OF Z(1) lo(1,2) lo(3,4)[unfolded D] refl] by simp
  qed
  then show "x < (sqrt_line e x + 1) * (sqrt_line e x + 1)" "8 * (sqrt_line e x * sqrt_line e x) \<le> 9 * x" by simp_all
qed

lemma approx_sqrt_cases:
  assumes "1 \<le> x" "x < two128"
  obtains e where "2 ^ e \<le> x" "x < 2 ^ Suc e" "approx_sqrt x = sqrt_line e x" "e < 128"
proof -
  have b: "2 ^ find_msb x \<le> x" "x < 2 ^ Suc (find_msb x)"
    using find_msb_bounds[OF assms(1)] by blast+
  have "(2::int) ^ find_msb x < 2 ^ 128" using b(1) assms(2) by simp
  then have "find_msb x < 128" by (rule power_less_imp_less_exp[rotated]) simp
  with approx_sqrt_line[OF b] b show ?thesis by (rule_tac that) auto
qed

lemma sqrt_line_range:
  assumes "2 ^ e \<le> x" "x < 2 ^ Suc e"
  shows "2 ^ (e div 2) + (if odd e then 2 ^ (e div 2) div 2 else 0) \<le> sqrt_line e x"
    and "sqrt_line e x < (if odd e then 2 ^ Suc (e div 2) else 2 ^ (e div 2) + (2 ^ (e div 2) + 1) div 2)"
proof -
  define Z :: int where "Z = 2 ^ (e div 2)"
  define lo where "lo = (x - 2 ^ e) div 2 ^ (e - e div 2)"
  have lo: "0 \<le> lo" "lo < Z" using mantissa_low[OF assms] by (simp_all add: Z_def lo_def)
  have r: "sqrt_line e x = Z + ((if odd e then Z else 0) + lo) div 2"
    by (simp add: sqrt_line_def Let_def Z_def lo_def)
  show "2 ^ (e div 2) + (if odd e then 2 ^ (e div 2) div 2 else 0) \<le> sqrt_line e x"
    using lo unfolding r Z_def[symmetric] by (cases "odd e") simp_all
  show "sqrt_line e x < (if odd e then 2 ^ Suc (e div 2) else 2 ^ (e div 2) + (2 ^ (e div 2) + 1) div 2)"
    using lo unfolding r power_Suc Z_def[symmetric] by (cases "odd e") simp_all
qed

lemma sqrt_line_mono:
  assumes "x \<le> y" "0 < x"
  shows "sqrt_line e x \<le> sqrt_line e y"
proof -
  have "(x - 2 ^ e) div 2 ^ (e - e div 2) \<le> (y - 2 ^ e) div 2 ^ (e - e div 2)"
    using assms by (intro zdiv_mono1) auto
  then show ?thesis by (auto simp: sqrt_line_def Let_def intro!: zdiv_mono1)
qed

lemma sqrt_line_step:
  assumes x: "2 ^ e \<le> x" "x < 2 ^ Suc e" and y: "2 ^ f \<le> y" "y < 2 ^ Suc f" and "e < f"
  shows "sqrt_line e x \<le> sqrt_line f y"
proof -
  have half: "(2 ^ k + 1) div 2 \<le> (2::int) ^ k div 2 + 1" for k by auto
  have ix: "sqrt_line e x < (if odd e then 2 ^ Suc (e div 2) else 2 ^ (e div 2) + 2 ^ (e div 2) div 2 + 1)"
    using sqrt_line_range(2)[OF x] half[of "e div 2"] by (auto split: if_splits)
  show ?thesis
  proof (cases "e div 2 = f div 2")
    case True
    with \<open>e < f\<close> have "even e" "odd f" by presburger+
    with ix sqrt_line_range(1)[OF y] True show ?thesis by simp
  next
    case False
    with \<open>e < f\<close> have "Suc (e div 2) \<le> f div 2" by linarith
    then have "(2::int) ^ Suc (e div 2) \<le> 2 ^ (f div 2)" by (rule power_increasing) simp
    also have "(2::int) ^ (f div 2) \<le> 2 ^ (f div 2) + (if odd f then 2 ^ (f div 2) div 2 else 0)" by simp
    also note sqrt_line_range(1)[OF y]
    finally have "2 ^ Suc (e div 2) \<le> sqrt_line f y" .
    moreover have "(2::int) ^ (e div 2) div 2 \<le> 2 ^ (e div 2)" using zdiv_mono2[of "2 ^ (e div 2)" 1 2] by simp
    with ix have "sqrt_line e x \<le> 2 ^ Suc (e div 2)" by (auto split: if_splits)
    ultimately show ?thesis by simp
  qed
qed

lemma approx_sqrt_mono:
  assumes "0 \<le> x" "x \<le> y" "y < two128"
  shows "approx_sqrt x \<le> approx_sqrt y"
proof (cases "x = 0")
  case True
  have "0 \<le> approx_sqrt y"
  proof (cases "y = 0")
    case False
    with assms have "1 \<le> y" by simp
    from approx_sqrt_cases[OF this assms(3)] obtain e where
      "2 ^ e \<le> y" "y < 2 ^ Suc e" "approx_sqrt y = sqrt_line e y" by blast
    with mantissa_low[of e y] show ?thesis by (auto simp: sqrt_line_def Let_def)
  qed (simp add: approx_sqrt_def)
  with True show ?thesis by (simp add: approx_sqrt_def)
next
  case False
  with assms have "1 \<le> x" "x < two128" "1 \<le> y" by auto
  from approx_sqrt_cases[OF this(1,2)] obtain e where e: "2 ^ e \<le> x" "x < 2 ^ Suc e" "approx_sqrt x = sqrt_line e x" by blast
  from approx_sqrt_cases[OF \<open>1 \<le> y\<close> assms(3)] obtain f where f: "2 ^ f \<le> y" "y < 2 ^ Suc f" "approx_sqrt y = sqrt_line f y" by blast
  have "(2::int) ^ e < 2 ^ Suc f" using e(1) f(2) assms(2) by simp
  then have "e < Suc f" by (rule power_less_imp_less_exp[rotated]) simp
  then consider "e = f" | "e < f" by linarith
  then show ?thesis
    using sqrt_line_mono[of x y e] sqrt_line_step[OF e(1,2) f(1,2)] e(3) f(3) assms \<open>1 \<le> x\<close>
    by cases simp_all
qed

text \<open>C28. On every 128-bit input the shift-and-mask routine that weighs curation returns a close
  approximation of the square root: the next integer exceeds the true root, and the result is above
  the true root by a factor of at most \<open>sqrt (9 / 8)\<close>, about 6 per cent.  Zero gives zero.\<close>

theorem approx_sqrt_accurate:
  assumes "0 \<le> x" "x < two128"
  shows "x < (approx_sqrt x + 1)\<^sup>2 \<and> 8 * (approx_sqrt x)\<^sup>2 \<le> 9 * x"
proof (cases "x = 0")
  case False
  with assms have "1 \<le> x" by simp
  from approx_sqrt_cases[OF this assms(2)] obtain e where
    e: "2 ^ e \<le> x" "x < 2 ^ Suc e" "approx_sqrt x = sqrt_line e x" by blast
  from sqrt_line_accurate[OF e(1,2)] e(3) show ?thesis by (simp add: power2_eq_square)
qed (simp add: approx_sqrt_def)

theorem approx_sqrt_accurate_witness:
  "(1000000007::int) < (approx_sqrt 1000000007 + 1)\<^sup>2 \<and> 8 * (approx_sqrt 1000000007)\<^sup>2 \<le> 9 * 1000000007"
  using approx_sqrt_accurate[of 1000000007] by simp

section \<open>Every curve is monotone\<close>

lemma div_mono_frac:
  fixes p q r s :: int
  assumes "0 < q" "0 < s" "p * s \<le> r * q"
  shows "p div q \<le> r div s"
proof -
  have "p div q * q \<le> p" using assms(1) by (metis div_mult_mod_eq le_add_same_cancel1 pos_mod_sign)
  then have "p div q * q * s \<le> p * s" using assms(2) by (intro mult_right_mono) auto
  also note assms(3)
  finally have "(p div q * s) * q \<le> r * q" by (simp add: ac_simps)
  then have "p div q * s \<le> r" using assms(1) by simp
  then have "p div q * s div s \<le> r div s" using assms(2) by (intro zdiv_mono1) auto
  with assms(2) show ?thesis by simp
qed

lemma approx_sqrt_range:
  assumes "0 \<le> x" "x < two128"
  shows "0 \<le> approx_sqrt x" and "approx_sqrt x < two128"
proof -
  show "0 \<le> approx_sqrt x" using approx_sqrt_mono[of 0 x] assms by (simp add: approx_sqrt_def)
  show "approx_sqrt x < two128"
  proof (cases "x = 0")
    case False
    with assms have "1 \<le> x" by simp
    from approx_sqrt_cases[OF this assms(2)] obtain e where
      e: "2 ^ e \<le> x" "x < 2 ^ Suc e" "approx_sqrt x = sqrt_line e x" "e < 128" by blast
    have "((2::int) ^ (e div 2) + 1) div 2 \<le> 2 * 2 ^ (e div 2) div 2" by (intro zdiv_mono1) simp_all
    then have "sqrt_line e x < 2 ^ Suc (e div 2) + 1"
      using sqrt_line_range(2)[OF e(1,2)] by (auto split: if_splits)
    also have "(2::int) ^ Suc (e div 2) \<le> 2 ^ 64" using e(4) by (intro power_increasing) auto
    finally show ?thesis using e(3) by simp
  qed (simp add: approx_sqrt_def)
qed

lemma curve_range:
  assumes "evaluate_reward_curve x curve c = Inr v" "0 \<le> x" "x < two128"
  shows "0 \<le> v" and "v < two128"
proof -
  have "0 \<le> v \<and> v < two128"
  proof (cases curve)
    case quadratic_curation
    define d where "d = to_uint128 (to_uint128 (c * 2) + x)"
    have "0 \<le> d" by (simp add: d_def to_uint128_def)
    with assms(1) quadratic_curation have d: "0 < d" "v = x mod two64 * two64 div d"
      by (auto simp: evaluate_reward_curve_def Let_def d_def split: if_splits)
    moreover have "x mod two64 * two64 < two128 * d"
    proof -
      have "x mod two64 * two64 < two64 * two64" by (intro mult_strict_right_mono) simp_all
      also have "\<dots> \<le> two128 * d" using d(1) by simp
      finally show ?thesis .
    qed
    ultimately show ?thesis by (auto intro!: int_div_less simp: pos_imp_zdiv_nonneg_iff)
  next
    case square_root
    with assms approx_sqrt_range[OF assms(2,3)] show ?thesis by (auto simp: evaluate_reward_curve_def)
  next
    case linear
    with assms show ?thesis by (auto simp: evaluate_reward_curve_def)
  next
    case quadratic
    then obtain k where "v = to_uint128 k"
      using assms(1) by (simp only: evaluate_reward_curve_def curve_id.case Let_def sum.inject) blast
    then show ?thesis by (simp add: to_uint128_def)
  qed
  then show "0 \<le> v" and "v < two128" by simp_all
qed

lemma quadratic_exact:
  assumes "0 \<le> x" "x \<le> int64_max" "0 < c" "c \<le> int64_max"
  shows "evaluate_reward_curve x quadratic c = Inr (x * (x + 2 * c))"
proof -
  have m: "to_uint128 (c * c) = c * c"
    using assms mult_mono[of c int64_max c int64_max] by (intro to_uint128_small) auto
  have s: "to_uint128 (x + c) = x + c" using assms by (intro to_uint128_small) auto
  have q: "to_uint128 ((x + c) * (x + c)) = (x + c) * (x + c)"
    using assms mult_mono[of "x + c" "2 * int64_max" "x + c" "2 * int64_max"] by (intro to_uint128_small) auto
  have e: "(x + c) * (x + c) - c * c = x * (x + 2 * c)" by (simp add: algebra_simps)
  have "x * (x + 2 * c) \<le> int64_max * (3 * int64_max)" using assms by (intro mult_mono) auto
  moreover have "0 \<le> x * (x + 2 * c)" using assms by simp
  ultimately have "to_uint128 (x * (x + 2 * c)) = x * (x + 2 * c)" by (intro to_uint128_small) auto
  with m s q e show ?thesis by (simp add: evaluate_reward_curve_def)
qed

lemma curation_exact:
  assumes "0 \<le> x" "x \<le> int64_max" "0 < c" "c \<le> int64_max"
  shows "evaluate_reward_curve x quadratic_curation c = Inr (x * two64 div (2 * c + x))"
  using assms by (simp add: evaluate_reward_curve_def Let_def mult.commute[of c 2])

lemma reward_curve_mono:
  assumes "0 \<le> x" "x \<le> y" "y \<le> int64_max" "0 < c" "c \<le> int64_max"
  shows "\<exists>u v. evaluate_reward_curve x curve c = Inr u \<and> evaluate_reward_curve y curve c = Inr v \<and>
    0 \<le> u \<and> u \<le> v \<and> v < two128"
proof -
  have xy: "0 \<le> y" "y < two128" "x < two128" "x \<le> int64_max" using assms by auto
  obtain u v where uv: "evaluate_reward_curve x curve c = Inr u" "evaluate_reward_curve y curve c = Inr v" "u \<le> v"
  proof (cases curve)
    case quadratic
    have "x * (x + 2 * c) \<le> y * (y + 2 * c)" using assms by (intro mult_mono) auto
    with that quadratic quadratic_exact[OF assms(1) xy(4) assms(4,5)] quadratic_exact[OF xy(1) assms(3-5)]
    show ?thesis by simp
  next
    case quadratic_curation
    have "x * (2 * c + y) \<le> y * (2 * c + x)" using assms by (simp add: algebra_simps mult_left_mono)
    then have "x * (2 * c + y) * two64 \<le> y * (2 * c + x) * two64" by (rule mult_right_mono) simp
    then have "x * two64 div (2 * c + x) \<le> y * two64 div (2 * c + y)"
      using assms by (intro div_mono_frac) (auto simp: ac_simps)
    with that quadratic_curation curation_exact[OF assms(1) xy(4) assms(4,5)] curation_exact[OF xy(1) assms(3-5)]
    show ?thesis by simp
  next
    case linear
    with that assms(2) show ?thesis by (simp add: evaluate_reward_curve_def)
  next
    case square_root
    with that approx_sqrt_mono[OF assms(1,2) xy(2)] show ?thesis by (simp add: evaluate_reward_curve_def)
  qed
  with curve_range[OF uv(1) assms(1) xy(3)] curve_range[OF uv(2) xy(1,2)] show ?thesis by blast
qed



section \<open>The share of the fund\<close>

text \<open>A post's reward is at most its part \<open>claim / total\<close> of the fund.\<close>

lemma get_rshare_reward_share:
  assumes "get_rshare_reward ctx = Inr r"
    and "evaluate_reward_curve (to_uint128 (ctx_rshares ctx)) (ctx_reward_curve ctx) (ctx_content_constant ctx) = Inr v"
    and F: "amount (ctx_total_reward_fund_steem ctx) = F" "0 \<le> F" "F \<le> int64_max"
    and w: "0 \<le> ctx_reward_weight ctx" "ctx_reward_weight ctx \<le> STEEM_100_PERCENT"
  shows "0 \<le> r \<and> r \<le> int64_max \<and> 0 < ctx_total_reward_shares2 ctx \<and> r * ctx_total_reward_shares2 ctx \<le> F * v"
proof -
  define T where "T = ctx_total_reward_shares2 ctx"
  define w where "w = ctx_reward_weight ctx"
  define claim where "claim = v * w div STEEM_100_PERCENT"
  have v: "0 \<le> v" "v < two128"
    using curve_range[OF assms(2)] by (simp_all add: to_uint128_def)
  have w: "0 \<le> w" "w \<le> 10000" using w by (simp_all add: w_def)
  have "v * w \<le> two128 * 10000" using v w by (intro mult_mono) auto
  with v w have vw: "to_u256 (v * w) = v * w" by (simp add: to_u256_def)
  have "v * w \<le> v * 10000" using v w by (intro mult_left_mono) auto
  then have claim: "0 \<le> claim" "claim \<le> v"
    using v w zdiv_mono1[of "v * w" "v * 10000" 10000]
    by (auto simp: claim_def pos_imp_zdiv_nonneg_iff)
  have "F * claim \<le> int64_max * two128" using F claim v by (intro mult_mono) auto
  moreover have "0 \<le> F * claim" using F claim by simp
  ultimately have fc: "to_u256 (F * claim) = F * claim" "to_u256 F = F"
    using F by (simp_all add: to_u256_def)
  obtain v' dust m where run: "T > 0"
      "evaluate_reward_curve (to_uint128 (ctx_rshares ctx)) (ctx_reward_curve ctx) (ctx_content_constant ctx) = Inr v'"
      "to_u256 (to_u256 F * (to_u256 (v' * w) div STEEM_100_PERCENT)) div T \<le> int64_max"
      "(Inr (min (if dust then 0 else to_u256 (to_u256 F * (to_u256 (v' * w) div STEEM_100_PERCENT)) div T)
         (to_uint64 m)) :: int res) = Inr r"
    using assms(1)[unfolded get_rshare_reward_def Let_def bindE_eq_Inr fc_assert_eq_Inr F(1), folded T_def w_def]
    by (elim exE conjE) (rule that, assumption+)
  note T = run(1)
  from run(2) assms(2) have "v' = v" by simp
  from this have r: "r = min (if dust then 0 else F * claim div T) (to_uint64 m)"
    using run(4) vw fc by (simp only: sum.inject claim_def)
  from run(3) \<open>v' = v\<close> vw fc have max: "F * claim div T \<le> int64_max" by (simp only: claim_def)
  have q: "0 \<le> F * claim div T" using F claim T by (simp add: pos_imp_zdiv_nonneg_iff)
  have m0: "0 \<le> to_uint64 m" by (simp add: to_uint64_def)
  from q m0 have r0: "0 \<le> r" "r \<le> F * claim div T" unfolding r by (cases dust; simp)+
  have "r * T \<le> F * claim div T * T" using r0 T by (intro mult_right_mono) auto
  also have "\<dots> \<le> F * claim" using T by (metis div_mult_mod_eq le_add_same_cancel1 pos_mod_sign)
  also have "\<dots> \<le> F * v" using F claim by (intro mult_left_mono) auto
  finally show ?thesis using r0 max T by (simp add: T_def)
qed

end
