(* ===== verification/Rewards.thy ===== *)
theory Rewards
  imports Vesting Reward_Math
begin

text \<open>
  Rewards of src/src/core/chain/database.cpp and steem_evaluator.cpp: inflation
  (\<open>process_funds\<close>, \<open>pay_reward_funds\<close>), the payout of posts (\<open>process_comment_cashout\<close> with
  \<open>cashout_comment_helper\<close> and \<open>pay_curators\<close>), and the claim of pending rewards.

  The lemmas show that the inflation mints exactly what it hands out, that a payout never awards
  more than the reward fund holds, and where the accounting of pending rewards can break.
\<close>

section \<open>Inflation\<close>

definition database_to_sbd :: "database \<Rightarrow> asset \<Rightarrow> asset res" where
  "database_to_sbd db steem = util_to_sbd (current_median_history db) steem"

definition fund_gain :: "int \<Rightarrow> reward_fund_object \<Rightarrow> reward_fund_object res" where
  "fund_gain r rfo =
     bindE (asset_add (rf_reward_balance rfo) (mk_asset r STEEM_SYMBOL)) (\<lambda>b.
     Inr (rfo\<lparr> rf_reward_balance := b \<rparr>))"

definition modify_reward_fund ::
  "database \<Rightarrow> nat \<Rightarrow> (reward_fund_object \<Rightarrow> reward_fund_object res) \<Rightarrow> database res" where
  "modify_reward_fund db i f =
     bindE (tbl_modify (\<lambda>rf. rf_id rf = i) f (db_reward_funds db)) (\<lambda>t. Inr (db\<lparr> db_reward_funds := t \<rparr>))"

definition pay_reward_fund :: "int \<Rightarrow> reward_fund_object \<Rightarrow> database \<times> int \<Rightarrow> (database \<times> int) res" where
  "pay_reward_fund reward rf = (\<lambda>(db, used_rewards).
     bindE (safe_mul reward (rf_percent_content_rewards rf)) (\<lambda>x.
     bindE (safe_div x STEEM_100_PERCENT) (\<lambda>r.
     bindE (modify_reward_fund db (rf_id rf) (fund_gain r)) (\<lambda>db.
     bindE (safe_add used_rewards r) (\<lambda>used_rewards.
     fc_assert 1938 (used_rewards \<le> reward) (Inr (db, used_rewards)))))))"

definition pay_reward_funds :: "database \<Rightarrow> int \<Rightarrow> (database \<times> int) res" where
  "pay_reward_funds db reward = foldE (pay_reward_fund reward) (rows (db_reward_funds db)) (db, 0)"

definition current_inflation_rate :: "database \<Rightarrow> int" where
  "current_inflation_rate db =
     max (STEEM_INFLATION_RATE_START_PERCENT - head_block_num db div STEEM_INFLATION_NARROWING_PERIOD)
       STEEM_INFLATION_RATE_STOP_PERCENT"

definition block_reward :: "database \<Rightarrow> bool \<Rightarrow> int res" where
  "block_reward db is_bootstrap_phase =
     (if is_bootstrap_phase then Inr STEEM_BOOTSTRAP_FIXED_BLOCK_REWARD
      else bindE (safe_mul (amount (dgp_virtual_supply (db_dgp db))) (current_inflation_rate db)) (\<lambda>x.
           safe_div x (STEEM_100_PERCENT * STEEM_BLOCKS_PER_YEAR)))"

definition weigh_witness_reward :: "witness_schedule_object \<Rightarrow> witness_object \<Rightarrow> int \<Rightarrow> int res" where
  "weigh_witness_reward wso cwit witness_reward =
     bindE (safe_mul witness_reward (int STEEM_MAX_WITNESSES)) (\<lambda>w.
     bindE (case w_schedule cwit of timeshare \<Rightarrow> safe_mul w (wso_timeshare_weight wso)
            | top20 \<Rightarrow> safe_mul w (wso_top20_weight wso) | none \<Rightarrow> Inr w) (\<lambda>w.
     safe_div w (wso_witness_pay_normalization_factor wso)))"

definition inflate :: "int \<Rightarrow> int \<Rightarrow> dynamic_global_property_object \<Rightarrow> dynamic_global_property_object res" where
  "inflate vesting_reward new_steem p =
     bindE (asset_add (dgp_total_vesting_fund_steem p) (mk_asset vesting_reward STEEM_SYMBOL)) (\<lambda>f.
     bindE (asset_add (dgp_current_supply p) (mk_asset new_steem STEEM_SYMBOL)) (\<lambda>c.
     bindE (asset_add (dgp_virtual_supply p) (mk_asset new_steem STEEM_SYMBOL)) (\<lambda>v.
     Inr (p\<lparr> dgp_total_vesting_fund_steem := f, dgp_current_supply := c, dgp_virtual_supply := v \<rparr>))))"

definition process_funds :: "database \<Rightarrow> database res" where
  "process_funds db =
     (let is_bootstrap_phase = amount (dgp_current_supply (db_dgp db)) < STEEM_BOOTSTRAP_SUPPLY_THRESHOLD in
      bindE (block_reward db is_bootstrap_phase) (\<lambda>new_steem.
      bindE (safe_mul new_steem STEEM_CONTENT_REWARD_PERCENT) (\<lambda>x.
      bindE (safe_div x STEEM_100_PERCENT) (\<lambda>content_reward.
      bindE (pay_reward_funds db content_reward) (\<lambda>(db, content_reward).
      bindE (safe_mul new_steem STEEM_VESTING_FUND_PERCENT) (\<lambda>x.
      bindE (safe_div x STEEM_100_PERCENT) (\<lambda>vesting_reward.
      let vesting_reward =
            (if amount (dgp_total_vesting_shares (db_dgp db)) < STEEM_MIN_REWARD_VESTING_SHARES then 0
             else vesting_reward) in
      bindE (safe_sub new_steem content_reward) (\<lambda>x.
      bindE (safe_sub x vesting_reward) (\<lambda>witness_reward.
      bindE (get_witness db (dgp_current_witness (db_dgp db))) (\<lambda>cwit.
      bindE (if \<not> is_bootstrap_phase then weigh_witness_reward (db_wso db) cwit witness_reward
             else Inr witness_reward) (\<lambda>witness_reward.
      bindE (safe_add content_reward vesting_reward) (\<lambda>x.
      bindE (safe_add x witness_reward) (\<lambda>new_steem.
      bindE (modify_dgp db (inflate vesting_reward new_steem)) (\<lambda>db.
      bindE (get_account db (w_owner cwit)) (\<lambda>producer.
      bindE (create_vesting db (ac_name producer) (mk_asset witness_reward STEEM_SYMBOL) False) (\<lambda>(db, _).
      Inr db))))))))))))))))"

section \<open>Claiming rewards\<close>

definition vesting_steem_to_move :: "account_object \<Rightarrow> asset \<Rightarrow> asset res" where
  "vesting_steem_to_move acnt reward_vests =
     (if reward_vests = ac_reward_vesting_balance acnt then Inr (ac_reward_vesting_steem acnt)
      else
        let d = to_uint128 (amount (ac_reward_vesting_balance acnt)) in
        if d = 0 then Inl Divide_by_zero_exception
        else
          let q = to_uint128 (to_uint128 (amount reward_vests) * to_uint128 (amount (ac_reward_vesting_steem acnt))) div d
          in fc_assert 97 (q < two64) (Inr (mk_asset (to_int64 q) STEEM_SYMBOL)))"

definition claim_vests :: "asset \<Rightarrow> asset \<Rightarrow> account_object \<Rightarrow> account_object res" where
  "claim_vests reward_vests moved a =
     bindE (asset_add (ac_vesting_shares a) reward_vests) (\<lambda>v.
     bindE (asset_sub (ac_reward_vesting_balance a) reward_vests) (\<lambda>b.
     bindE (asset_sub (ac_reward_vesting_steem a) moved) (\<lambda>s.
     Inr (a\<lparr> ac_vesting_shares := v, ac_reward_vesting_balance := b, ac_reward_vesting_steem := s \<rparr>))))"

definition claim_pending ::
  "asset \<Rightarrow> asset \<Rightarrow> dynamic_global_property_object \<Rightarrow> dynamic_global_property_object res" where
  "claim_pending reward_vests moved gpo =
     bindE (asset_add (dgp_total_vesting_shares gpo) reward_vests) (\<lambda>v.
     bindE (asset_add (dgp_total_vesting_fund_steem gpo) moved) (\<lambda>f.
     bindE (asset_sub (dgp_pending_rewarded_vesting_shares gpo) reward_vests) (\<lambda>pv.
     bindE (asset_sub (dgp_pending_rewarded_vesting_steem gpo) moved) (\<lambda>pf.
     Inr (gpo\<lparr> dgp_total_vesting_shares := v, dgp_total_vesting_fund_steem := f,
               dgp_pending_rewarded_vesting_shares := pv, dgp_pending_rewarded_vesting_steem := pf \<rparr>)))))"

definition claim_reward_balance_do_apply :: "database \<Rightarrow> claim_reward_balance_operation \<Rightarrow> database res" where
  "claim_reward_balance_do_apply db o1 =
     bindE (get_account db (crb_account o1)) (\<lambda>acnt.
     bindE (asset_le (crb_reward_steem o1) (ac_reward_steem_balance acnt)) (\<lambda>c.
     fc_assert 1843 c
     (bindE (asset_le (crb_reward_sbd o1) (ac_reward_sbd_balance acnt)) (\<lambda>c.
      fc_assert 1845 c
      (bindE (asset_le (crb_reward_vests o1) (ac_reward_vesting_balance acnt)) (\<lambda>c.
       fc_assert 1847 c
       (bindE (vesting_steem_to_move acnt (crb_reward_vests o1)) (\<lambda>moved.
        bindE (asset_neg (crb_reward_steem o1)) (\<lambda>m.
        bindE (adjust_reward_balance db (crb_account o1) m (mk_asset 0 VESTS_SYMBOL)) (\<lambda>db.
        bindE (asset_neg (crb_reward_sbd o1)) (\<lambda>m.
        bindE (adjust_reward_balance db (crb_account o1) m (mk_asset 0 VESTS_SYMBOL)) (\<lambda>db.
        bindE (adjust_balance db (crb_account o1) (crb_reward_steem o1)) (\<lambda>db.
        bindE (adjust_balance db (crb_account o1) (crb_reward_sbd o1)) (\<lambda>db.
        bindE (modify_account db (crb_account o1) (claim_vests (crb_reward_vests o1) moved)) (\<lambda>db.
        bindE (modify_dgp db (claim_pending (crb_reward_vests o1) moved)) (\<lambda>db.
        adjust_proxied_witness_votes db (crb_account o1) (amount (crb_reward_vests o1)) 0))))))))))))))))"

section \<open>Paying the curators of a post\<close>

definition get_reward_fund :: "database \<Rightarrow> comment_object \<Rightarrow> reward_fund_object res" where
  "get_reward_fund db c = tbl_get (\<lambda>rf. rf_name rf = STEEM_POST_REWARD_FUND_NAME) (db_reward_funds db)"

definition get_curation_rewards_percent :: "database \<Rightarrow> comment_object \<Rightarrow> int res" where
  "get_curation_rewards_percent db c =
     bindE (get_reward_fund db c) (\<lambda>rf. Inr (rf_percent_curation_rewards rf))"

text \<open>The set \<open>proxy_set\<close>: the votes on the post, the heaviest first and the oldest account first among
  equals.\<close>

definition curators :: "database \<Rightarrow> comment_object \<Rightarrow> comment_vote_object list" where
  "curators db c = sort_key (\<lambda>v. (- cv_weight v, cv_voter v))
     (filter (\<lambda>v. cv_comment v = co_id c) (rows (db_comment_votes db)))"

definition curator_claim :: "int \<Rightarrow> int \<Rightarrow> comment_vote_object \<Rightarrow> int res" where
  "curator_claim max_rewards total_weight v =
     (let claim = to_uint128 (to_uint128 max_rewards * cv_weight v) div total_weight
      in fc_assert 97 (claim < two64) (Inr claim))"

definition gain_curation :: "int \<Rightarrow> account_object \<Rightarrow> account_object res" where
  "gain_curation claim a =
     bindE (safe_add (ac_curation_rewards a) (to_int64 claim)) (\<lambda>c. Inr (a\<lparr> ac_curation_rewards := c \<rparr>))"

definition pay_curator ::
  "int \<Rightarrow> int \<Rightarrow> comment_vote_object \<Rightarrow> database \<times> int \<Rightarrow> (database \<times> int) res" where
  "pay_curator max_rewards total_weight v = (\<lambda>(db, unclaimed_rewards).
     bindE (curator_claim max_rewards total_weight v) (\<lambda>claim.
     if claim > 0 then
       bindE (safe_sub unclaimed_rewards (to_int64 claim)) (\<lambda>unclaimed_rewards.
       bindE (tbl_get (\<lambda>a. ac_id a = cv_voter v) (db_accounts db)) (\<lambda>voter.
       bindE (create_vesting db (ac_name voter) (mk_asset (to_int64 claim) STEEM_SYMBOL) True) (\<lambda>(db, _).
       bindE (modify_account db (ac_name voter) (gain_curation claim)) (\<lambda>db.
       Inr (db, unclaimed_rewards)))))
     else Inr (db, unclaimed_rewards)))"

text \<open>The result is the new state, the rewards that were paid (the reference parameter
  \<open>max_rewards\<close> on return) and those left unclaimed.\<close>

definition pay_curators :: "database \<Rightarrow> comment_object \<Rightarrow> int \<Rightarrow> (database \<times> int \<times> int) res" where
  "pay_curators db c max_rewards =
     bindE (if \<not> co_allow_curation_rewards c then Inr (db, 0, 0)
            else if co_total_vote_weight c > 0 then
              bindE (foldE (pay_curator max_rewards (co_total_vote_weight c)) (curators db c) (db, max_rewards))
                (\<lambda>(db, unclaimed). Inr (db, max_rewards, unclaimed))
            else Inr (db, max_rewards, max_rewards)) (\<lambda>(db, max_rewards, unclaimed_rewards).
     bindE (safe_sub max_rewards unclaimed_rewards) (\<lambda>max_rewards.
     Inr (db, max_rewards, unclaimed_rewards)))"

section \<open>Paying a post\<close>

definition get_comment_id :: "database \<Rightarrow> nat \<Rightarrow> comment_object res" where
  "get_comment_id db i = tbl_get (\<lambda>c. co_id c = i) (db_comments db)"

definition modify_comment :: "database \<Rightarrow> nat \<Rightarrow> (comment_object \<Rightarrow> comment_object res) \<Rightarrow> database res" where
  "modify_comment db i f =
     bindE (tbl_modify (\<lambda>c. co_id c = i) f (db_comments db)) (\<lambda>t. Inr (db\<lparr> db_comments := t \<rparr>))"

definition fill_comment_reward_context_local_state ::
  "comment_reward_context \<Rightarrow> comment_object \<Rightarrow> comment_reward_context" where
  "fill_comment_reward_context_local_state ctx c =
     ctx\<lparr> ctx_rshares := co_net_rshares c, ctx_reward_weight := co_reward_weight c,
          ctx_max_sbd := co_max_accepted_payout c \<rparr>"

definition adjust_total_payout :: "database \<Rightarrow> nat \<Rightarrow> asset \<Rightarrow> asset \<Rightarrow> asset \<Rightarrow> database res" where
  "adjust_total_payout db i sbd_created curator_sbd_value beneficiary_value =
     modify_comment db i (\<lambda>c.
       bindE (asset_add (co_total_payout_value c) sbd_created) (\<lambda>t.
       bindE (asset_add (co_curator_payout_value c) curator_sbd_value) (\<lambda>p.
       bindE (asset_add (co_beneficiary_payout_value c) beneficiary_value) (\<lambda>b.
       Inr (c\<lparr> co_total_payout_value := t, co_curator_payout_value := p, co_beneficiary_payout_value := b \<rparr>)))))"

definition pay_beneficiary ::
  "int \<Rightarrow> beneficiary_route_type \<Rightarrow> database \<times> int \<Rightarrow> (database \<times> int) res" where
  "pay_beneficiary author_tokens b = (\<lambda>(db, total_beneficiary).
     bindE (safe_mul author_tokens (br_weight b)) (\<lambda>x.
     bindE (safe_div x STEEM_100_PERCENT) (\<lambda>benefactor_tokens.
     bindE (get_account db (br_account b)) (\<lambda>acnt.
     bindE (create_vesting db (ac_name acnt) (mk_asset benefactor_tokens STEEM_SYMBOL) True) (\<lambda>(db, _).
     bindE (safe_add total_beneficiary benefactor_tokens) (\<lambda>total_beneficiary.
     Inr (db, total_beneficiary)))))))"

definition gain_posting :: "int \<Rightarrow> account_object \<Rightarrow> account_object res" where
  "gain_posting tokens a =
     bindE (safe_add (ac_posting_rewards a) tokens) (\<lambda>p. Inr (a\<lparr> ac_posting_rewards := p \<rparr>))"

definition pay_author ::
  "database \<Rightarrow> comment_object \<Rightarrow> int \<Rightarrow> int \<Rightarrow> int \<Rightarrow> int \<Rightarrow> database res" where
  "pay_author db comment author_tokens curation_tokens total_beneficiary claimed_reward =
     bindE (safe_mul author_tokens (co_percent_steem_dollars comment)) (\<lambda>x.
     bindE (safe_div x (2 * STEEM_100_PERCENT)) (\<lambda>sbd_steem.
     bindE (safe_sub author_tokens sbd_steem) (\<lambda>vesting_steem.
     bindE (get_account db (co_author comment)) (\<lambda>author.
     bindE (create_vesting db (ac_name author) (mk_asset vesting_steem STEEM_SYMBOL) True) (\<lambda>(db, _).
     bindE (create_sbd db (ac_name author) (mk_asset sbd_steem STEEM_SYMBOL) True) (\<lambda>(db, sbd_created, steem_created).
     bindE (asset_add steem_created (mk_asset vesting_steem STEEM_SYMBOL)) (\<lambda>x.
     bindE (database_to_sbd db x) (\<lambda>x.
     bindE (asset_add sbd_created x) (\<lambda>author_value.
     bindE (database_to_sbd db (mk_asset curation_tokens STEEM_SYMBOL)) (\<lambda>curator_value.
     bindE (database_to_sbd db (mk_asset total_beneficiary STEEM_SYMBOL)) (\<lambda>beneficiary_value.
     bindE (adjust_total_payout db (co_id comment) author_value curator_value beneficiary_value) (\<lambda>db.
     bindE (database_to_sbd db (mk_asset claimed_reward STEEM_SYMBOL)) (\<lambda>_.
     bindE (modify_comment db (co_id comment) (\<lambda>c.
       bindE (safe_add (co_author_rewards c) author_tokens) (\<lambda>r. Inr (c\<lparr> co_author_rewards := r \<rparr>)))) (\<lambda>db.
     modify_account db (co_author comment) (gain_posting author_tokens)))))))))))))))"

definition pay_comment ::
  "database \<Rightarrow> comment_object \<Rightarrow> int \<Rightarrow> (database \<times> int) res" where
  "pay_comment db comment reward =
     bindE (get_curation_rewards_percent db comment) (\<lambda>percent.
     let curation = to_uint128 (reward * percent) div STEEM_100_PERCENT in
     fc_assert 97 (curation < two64)
     (bindE (safe_sub reward (to_int64 curation)) (\<lambda>author_tokens.
      bindE (pay_curators db comment (to_int64 curation)) (\<lambda>(db, curation_tokens, _).
      bindE (safe_add author_tokens curation_tokens) (\<lambda>claimed_reward.
      bindE (foldE (pay_beneficiary author_tokens) (co_beneficiaries comment) (db, 0)) (\<lambda>(db, total_beneficiary).
      bindE (safe_sub author_tokens total_beneficiary) (\<lambda>author_tokens.
      bindE (pay_author db comment author_tokens curation_tokens total_beneficiary claimed_reward) (\<lambda>db.
      Inr (db, claimed_reward)))))))))"

definition close_comment :: "time_point_sec \<Rightarrow> comment_object \<Rightarrow> comment_object" where
  "close_comment now c =
     c\<lparr> co_net_rshares := (if co_net_rshares c > 0 then 0 else co_net_rshares c),
        co_children_abs_rshares := 0, co_abs_rshares := 0, co_vote_rshares := 0, co_total_vote_weight := 0,
        co_max_cashout_time := time_maximum, co_cashout_time := time_maximum, co_last_payout := now \<rparr>"

text \<open>After a payout the votes on a post are marked as final, unless the post will not be paid again.\<close>

definition finish_vote :: "comment_object \<Rightarrow> comment_vote_object \<Rightarrow> database \<Rightarrow> database res" where
  "finish_vote comment v db =
     (if co_cashout_time comment \<noteq> time_maximum then
        bindE (tbl_modify (\<lambda>x. cv_id x = cv_id v) (\<lambda>x. Inr (x\<lparr> cv_num_changes := -1 \<rparr>)) (db_comment_votes db)) (\<lambda>t.
        Inr (db\<lparr> db_comment_votes := t \<rparr>))
      else Inr db)"

definition award_comment :: "comment_reward_context \<Rightarrow> database \<Rightarrow> comment_object \<Rightarrow> (database \<times> int) res" where
  "award_comment ctx db comment =
     (if co_net_rshares comment > 0 then
        bindE (get_reward_fund db comment) (\<lambda>rf.
        bindE (get_rshare_reward ((fill_comment_reward_context_local_state ctx comment)\<lparr>
            ctx_reward_curve := rf_author_reward_curve rf, ctx_content_constant := rf_content_constant rf \<rparr>)) (\<lambda>r.
        if to_uint128 (to_int64 r) > 0 then pay_comment db comment (to_int64 r) else Inr (db, 0)))
      else Inr (db, 0))"

definition cashout_comment_helper ::
  "comment_reward_context \<Rightarrow> database \<Rightarrow> nat \<Rightarrow> (database \<times> int) res" where
  "cashout_comment_helper ctx db i =
     bindE (get_comment_id db i) (\<lambda>comment.
     bindE (award_comment ctx db comment) (\<lambda>(db, claimed_reward).
     bindE (modify_comment db i (\<lambda>c. Inr (close_comment (head_block_time db) c))) (\<lambda>db.
     bindE (get_comment_id db i) (\<lambda>comment.
     bindE (foldE (finish_vote comment)
        (sort_key cv_voter (filter (\<lambda>v. cv_comment v = co_id comment) (rows (db_comment_votes db)))) db) (\<lambda>db.
     Inr (db, claimed_reward))))))"

section \<open>The payout round\<close>

record reward_fund_context =
  fc_recent_claims :: int
  fc_reward_balance :: asset
  fc_steem_awarded :: int

definition decay_fund :: "time_point_sec \<Rightarrow> reward_fund_object \<Rightarrow> reward_fund_object" where
  "decay_fund now rfo =
     rfo\<lparr> rf_recent_claims := to_uint128 (rf_recent_claims rfo
            - to_uint128 (rf_recent_claims rfo * to_uint128 (now - rf_last_update rfo)) div STEEM_RECENT_RSHARES_DECAY_TIME),
          rf_last_update := now \<rparr>"

definition decay_funds :: "database \<Rightarrow> database \<times> reward_fund_context list" where
  "decay_funds db =
     (let fs = map (decay_fund (head_block_time db)) (rows (db_reward_funds db)) in
      (db\<lparr> db_reward_funds := (db_reward_funds db)\<lparr> rows := fs \<rparr> \<rparr>,
       map (\<lambda>rf. \<lparr> fc_recent_claims = rf_recent_claims rf, fc_reward_balance = rf_reward_balance rf,
                    fc_steem_awarded = 0 \<rparr>) fs))"

definition due_comments :: "database \<Rightarrow> comment_object list" where
  "due_comments db = takeWhile (\<lambda>c. co_cashout_time c \<le> head_block_time db)
     (sort_key (\<lambda>c. (co_cashout_time c, co_id c)) (rows (db_comments db)))"

definition add_claims ::
  "database \<Rightarrow> comment_object \<Rightarrow> reward_fund_context list \<Rightarrow> reward_fund_context list res" where
  "add_claims db c funds =
     (if co_net_rshares c > 0 then
        bindE (get_reward_fund db c) (\<lambda>rf.
        bindE (evaluate_reward_curve (to_uint128 (co_net_rshares c)) (rf_author_reward_curve rf) (rf_content_constant rf)) (\<lambda>v.
        let f = funds ! rf_id rf in
        Inr (funds[rf_id rf := f\<lparr> fc_recent_claims := to_uint128 (fc_recent_claims f + v) \<rparr>])))
      else Inr funds)"

definition cashout_comment ::
  "price \<Rightarrow> nat \<Rightarrow> database \<times> reward_fund_context list \<Rightarrow> (database \<times> reward_fund_context list) res" where
  "cashout_comment steem_price i = (\<lambda>(db, funds).
     bindE (get_comment_id db i) (\<lambda>c.
     bindE (get_reward_fund db c) (\<lambda>rf.
     let f = funds ! rf_id rf in
     bindE (cashout_comment_helper \<lparr> ctx_rshares = 0, ctx_reward_weight = 0, ctx_max_sbd = mk_asset 0 STEEM_SYMBOL,
          ctx_total_reward_shares2 = fc_recent_claims f, ctx_total_reward_fund_steem = fc_reward_balance f,
          ctx_current_steem_price = steem_price, ctx_reward_curve = quadratic,
          ctx_content_constant = STEEM_CONTENT_CONSTANT \<rparr> db i) (\<lambda>(db, awarded).
     bindE (safe_add (fc_steem_awarded f) awarded) (\<lambda>s.
     Inr (db, funds[rf_id rf := f\<lparr> fc_steem_awarded := s \<rparr>]))))))"

definition write_fund :: "reward_fund_context \<Rightarrow> reward_fund_object \<Rightarrow> reward_fund_object res" where
  "write_fund f rfo =
     bindE (asset_sub (rf_reward_balance rfo) (mk_asset (fc_steem_awarded f) STEEM_SYMBOL)) (\<lambda>b.
     Inr (rfo\<lparr> rf_recent_claims := fc_recent_claims f, rf_reward_balance := b \<rparr>))"

definition process_comment_cashout :: "database \<Rightarrow> database res" where
  "process_comment_cashout db =
     (case decay_funds db of (db, funds) \<Rightarrow>
      bindE (foldE (add_claims db) (due_comments db) funds) (\<lambda>funds.
      bindE (foldE (cashout_comment (current_median_history db)) (map co_id (due_comments db)) (db, funds)) (\<lambda>(db, funds).
      foldE (\<lambda>i db. modify_reward_fund db i (write_fund (funds ! i))) [0..<length funds] db)))"

section \<open>Inflation mints what it hands out\<close>

lemma modify_fund_slack:
  assumes "modify_reward_fund db i f = Inr db'"
    and "\<And>rf rf'. f rf = Inr rf' \<Longrightarrow> (\<forall>s. amt (rf_reward_balance rf') s = amt (rf_reward_balance rf) s + amt d s)"
  shows "credited d db db'"
proof -
  from assms(1) obtain t where t: "tbl_modify (\<lambda>rf. rf_id rf = i) f (db_reward_funds db) = Inr t"
    and db': "db' = db\<lparr> db_reward_funds := t \<rparr>"
    by (auto simp: modify_reward_fund_def bindE_eq_Inr)
  from tbl_modify_find[OF t] obtain v v' where v: "tbl_find (\<lambda>rf. rf_id rf = i) (db_reward_funds db) = Some v" "f v = Inr v'"
    by blast
  show ?thesis
    using tbl_modify_sum[OF t v, of "\<lambda>rf. amt (rf_reward_balance rf) s" for s] assms(2)[OF v(2)]
    by (simp add: db' credited_def ledger)
qed

lemma pay_reward_fund_credited:
  assumes "pay_reward_fund reward f (db, u) = Inr (db1, u1)"
  shows "credited (mk_asset (u1 - u) STEEM_SYMBOL) db db1"
proof -
  from assms obtain r where r: "modify_reward_fund db (rf_id f) (fund_gain r) = Inr db1" "safe_add u r = Inr u1"
    by (auto simp: pay_reward_fund_def bindE_eq_Inr fc_assert_eq_Inr)
  have "credited (mk_asset r STEEM_SYMBOL) db db1"
    using r(1) by (rule modify_fund_slack) (auto simp: fund_gain_def bindE_eq_Inr amt_ops)
  then show ?thesis by (simp add: safe_add_value[OF r(2)])
qed

lemma pay_reward_funds_credited:
  assumes "foldE (pay_reward_fund reward) fs (db, u) = Inr (db', u')"
  shows "credited (mk_asset (u' - u) STEEM_SYMBOL) db db'"
  using assms
proof (induction fs arbitrary: db u)
  case Nil
  then show ?case by (simp add: credited_def amt_def)
next
  case (Cons f fs)
  then obtain db1 u1 where r: "pay_reward_fund reward f (db, u) = Inr (db1, u1)"
      and rest: "foldE (pay_reward_fund reward) fs (db1, u1) = Inr (db', u')"
    by (auto simp: bindE_eq_Inr)
  from Cons.IH[OF rest] pay_reward_fund_credited[OF r] show ?case
    by (auto simp: credited_def amt_def)
qed

lemma inflate_credited:
  assumes "modify_dgp db (inflate vr ns) = Inr db'"
  shows "credited (mk_asset (vr - ns) STEEM_SYMBOL) db db'"
  using assms
  by (elim modify_dgp_credited)
    (auto simp: inflate_def bindE_eq_Inr dgp_net_def amt_ops amt_def[of "mk_asset x STEEM_SYMBOL" for x])

lemma process_funds_cases:
  assumes "process_funds db = Inr db'"
  obtains c0 db1 content vesting witness x total db2 n nv db3 where
    "pay_reward_funds db c0 = Inr (db1, content)"
    "safe_add content vesting = Inr x" "safe_add x witness = Inr total"
    "modify_dgp db1 (inflate vesting total) = Inr db2"
    "create_vesting db2 n (mk_asset witness STEEM_SYMBOL) False = Inr (db3, nv)"
    "(Inr db3 :: database res) = Inr db'"
  using assms
  unfolding process_funds_def run_simps
  by (elim exE conjE, hypsubst) (rule that, assumption+)

lemma process_funds_same:
  assumes "process_funds db = Inr db'"
  shows "ledger_same db db'"
proof -
  from assms obtain c0 db1 content vesting witness x total db2 n nv db3 where
    1: "pay_reward_funds db c0 = Inr (db1, content)" and
    2: "safe_add content vesting = Inr x" "safe_add x witness = Inr total" and
    3: "modify_dgp db1 (inflate vesting total) = Inr db2" and
    4: "create_vesting db2 n (mk_asset witness STEEM_SYMBOL) False = Inr (db3, nv)"
      "(Inr db3 :: database res) = Inr db'"
    by (rule process_funds_cases)
  show ?thesis
    using pay_reward_funds_credited[OF 1[unfolded pay_reward_funds_def]] inflate_credited[OF 3]
      create_vesting_credited[OF 4(1)] 4(2) 2[THEN safe_add_value]
    by (auto simp: credited_def ledger_same_def)
qed

section \<open>Claims move value between the two sides of the ledger\<close>

lemma claim_vests_slack:
  assumes "modify_account db n (claim_vests v m) = Inr db'"
  shows "slack db' s = slack db s" and "pending_slack db' = pending_slack db + amount m"
proof -
  have "slack db' s = slack db s - 0"
    by (rule modify_account_slack[OF assms]) (auto simp: claim_vests_def bindE_eq_Inr acc_hold_def amt_ops)
  then show "slack db' s = slack db s" by simp
  have "pending_slack db' = pending_slack db - (- amount m)"
    by (rule modify_account_pending[OF assms]) (auto simp: claim_vests_def bindE_eq_Inr amt_ops)
  then show "pending_slack db' = pending_slack db + amount m" by simp
qed

lemma claim_pending_slack:
  assumes "modify_dgp db (claim_pending v m) = Inr db'"
  shows "slack db' s = slack db s" and "pending_slack db' = pending_slack db - amount m"
proof -
  have "slack db' s = slack db s + 0"
    by (rule modify_dgp_slack[OF assms]) (auto simp: claim_pending_def bindE_eq_Inr dgp_net_def amt_ops)
  then show "slack db' s = slack db s" by simp
  have "pending_slack db' = pending_slack db + - amount m"
    by (rule modify_dgp_pending[OF assms]) (auto simp: claim_pending_def bindE_eq_Inr amt_ops)
  then show "pending_slack db' = pending_slack db - amount m" by simp
qed

lemma claim_reward_balance_cases:
  assumes "claim_reward_balance_do_apply db o1 = Inr db'"
  obtains acnt moved m1 db1 m2 db2 db3 db4 db5 db6 where
    "vesting_steem_to_move acnt (crb_reward_vests o1) = Inr moved"
    "asset_neg (crb_reward_steem o1) = Inr m1"
    "adjust_reward_balance db (crb_account o1) m1 (mk_asset 0 VESTS_SYMBOL) = Inr db1"
    "asset_neg (crb_reward_sbd o1) = Inr m2"
    "adjust_reward_balance db1 (crb_account o1) m2 (mk_asset 0 VESTS_SYMBOL) = Inr db2"
    "adjust_balance db2 (crb_account o1) (crb_reward_steem o1) = Inr db3"
    "adjust_balance db3 (crb_account o1) (crb_reward_sbd o1) = Inr db4"
    "modify_account db4 (crb_account o1) (claim_vests (crb_reward_vests o1) moved) = Inr db5"
    "modify_dgp db5 (claim_pending (crb_reward_vests o1) moved) = Inr db6"
    "adjust_proxied_witness_votes db6 (crb_account o1) (amount (crb_reward_vests o1)) 0 = Inr db'"
  using assms unfolding claim_reward_balance_do_apply_def run_simps
  by (elim exE conjE) (rule that, assumption+)

lemma claim_reward_balance_same:
  assumes "claim_reward_balance_do_apply db o1 = Inr db'"
  shows "ledger_same db db'"
  using assms
proof (rule claim_reward_balance_cases)
  fix acnt moved m1 db1 m2 db2 db3 db4 db5 db6
  assume m: "asset_neg (crb_reward_steem o1) = Inr m1" "asset_neg (crb_reward_sbd o1) = Inr m2"
    and 1: "adjust_reward_balance db (crb_account o1) m1 (mk_asset 0 VESTS_SYMBOL) = Inr db1"
    and 2: "adjust_reward_balance db1 (crb_account o1) m2 (mk_asset 0 VESTS_SYMBOL) = Inr db2"
    and 3: "adjust_balance db2 (crb_account o1) (crb_reward_steem o1) = Inr db3"
    and 4: "adjust_balance db3 (crb_account o1) (crb_reward_sbd o1) = Inr db4"
    and 5: "modify_account db4 (crb_account o1) (claim_vests (crb_reward_vests o1) moved) = Inr db5"
    and 6: "modify_dgp db5 (claim_pending (crb_reward_vests o1) moved) = Inr db6"
    and 7: "adjust_proxied_witness_votes db6 (crb_account o1) (amount (crb_reward_vests o1)) 0 = Inr db'"
  have 8: "ledger_same db6 db'" by (rule vote_ledger.adjust_proxied_frame[OF 7])
  have "slack db4 s = slack db s" for s
    using adjust_reward_balance_liquid[OF 1] adjust_reward_balance_liquid[OF 2] adjust_balance_credited[OF 3]
      adjust_balance_credited[OF 4] amt_asset_neg[OF m(1)] amt_asset_neg[OF m(2)]
    by (simp add: credited_def)
  moreover have "pending_slack db4 = pending_slack db"
    using adjust_reward_balance_liquid[OF 1] adjust_reward_balance_liquid[OF 2] adjust_balance_credited[OF 3]
      adjust_balance_credited[OF 4] by (simp add: credited_def)
  ultimately show ?thesis
    using claim_vests_slack[OF 5] claim_pending_slack[OF 6] 8 by (simp add: ledger_same_def)
qed

section \<open>A payout awards no more than the post earned\<close>

lemma curator_claim_bounds:
  assumes "curator_claim m W v = Inr c" "0 \<le> m" "m \<le> int64_max" "0 \<le> cv_weight v" "cv_weight v \<le> W" "0 < W" "W < two64"
  shows "0 \<le> c" "c \<le> m" "c * W \<le> m * cv_weight v"
proof -
  have mw: "m * cv_weight v \<le> m * W" "0 \<le> m * cv_weight v" using assms by (auto intro: mult_left_mono)
  have "m * W \<le> int64_max * two64" using assms by (intro mult_mono) auto
  with mw have "to_uint128 (to_uint128 m * cv_weight v) = m * cv_weight v"
    using assms by simp
  with assms(1) have c: "c = m * cv_weight v div W"
    by (auto simp: curator_claim_def Let_def fc_assert_eq_Inr)
  show "0 \<le> c" using mw assms by (simp add: c pos_imp_zdiv_nonneg_iff)
  show w: "c * W \<le> m * cv_weight v"
    using assms(6) by (metis c div_mult_mod_eq le_add_same_cancel1 pos_mod_sign)
  with mw(1) assms(6) show "c \<le> m" by (meson mult_right_le_imp_le order_trans)
qed

text \<open>The frame of the reward payments: everything but accounts, global properties and witnesses.\<close>

lemma create_vesting_frame: "create_vesting db n x tr = Inr (db', v) \<Longrightarrow> core_frame db db'"
  unfolding create_vesting_def
  by (auto simp: bindE_eq_Inr fc_assert_eq_Inr split: if_splits
      dest!: balance_frames vote_core.adjust_proxied_frame intro: core_frame_trans)

lemma create_sbd_frame: "create_sbd db n x tr = Inr (db', v, w) \<Longrightarrow> core_frame db db'"
  unfolding create_sbd_def Let_def
  by (auto simp: bindE_eq_Inr fc_assert_eq_Inr split: if_splits dest!: balance_frames intro: core_frame_trans)

lemma pay_curator_step:
  assumes "pay_curator m W v (db, u) = Inr (db', u')"
    and "0 \<le> m" "m \<le> int64_max" "0 \<le> cv_weight v" "cv_weight v \<le> W" "0 < W" "W < two64"
  shows "core_frame db db'" and "u' \<le> u" and "(u - u') * W \<le> m * cv_weight v"
proof -
  from assms(1) obtain c where c: "curator_claim m W v = Inr c"
    by (auto simp: pay_curator_def bindE_eq_Inr)
  note b = curator_claim_bounds[OF c assms(2-7)]
  have "core_frame db db' \<and> (u' = u - c)"
  proof (cases "c > 0")
    case True
    with assms(1) c obtain a db1 nv where 1: "safe_sub u (to_int64 c) = Inr u'"
        "create_vesting db (ac_name (a :: account_object)) (mk_asset (to_int64 c) STEEM_SYMBOL) True = Inr (db1, nv)"
        "modify_account db1 (ac_name a) (gain_curation c) = Inr db'"
      by (auto simp: pay_curator_def bindE_eq_Inr)
    moreover have "to_int64 c = c" using b assms(3) by (simp add: in_int64_def)
    ultimately show ?thesis
      using create_vesting_frame[OF 1(2)] balance_frames(1)[OF 1(3)] by (auto dest: safe_sub_value intro: core_frame_trans)
  next
    case False
    with b(1) have "c = 0" by simp
    with assms(1) c show ?thesis by (auto simp: pay_curator_def)
  qed
  with b show "core_frame db db'" "u' \<le> u" "(u - u') * W \<le> m * cv_weight v" by auto
qed

lemma pay_curator_fold:
  assumes "foldE (pay_curator m W) vs (db, u) = Inr (db', u')"
    and "0 \<le> m" "m \<le> int64_max" "list_all (\<lambda>v. 0 \<le> cv_weight v \<and> cv_weight v \<le> W) vs" "0 < W" "W < two64"
  shows "core_frame db db' \<and> u' \<le> u \<and> (u - u') * W \<le> m * sum_list (map cv_weight vs)"
  using assms(1,4)
proof (induction vs arbitrary: db u)
  case (Cons v vs)
  then obtain db1 u1 where 1: "pay_curator m W v (db, u) = Inr (db1, u1)"
      and rest: "foldE (pay_curator m W) vs (db1, u1) = Inr (db', u')"
    by (auto simp: bindE_eq_Inr)
  from Cons.prems(2) have w: "0 \<le> cv_weight v" "cv_weight v \<le> W" by auto
  note s = pay_curator_step[OF 1 assms(2,3) w assms(5,6)]
  from Cons.IH[OF rest] Cons.prems(2) have
    "core_frame db1 db' \<and> u' \<le> u1 \<and> (u1 - u') * W \<le> m * sum_list (map cv_weight vs)" by simp
  with s show ?case by (auto intro: core_frame_trans simp: algebra_simps)
qed simp

lemma pay_curators_bounds:
  assumes "pay_curators db c m = Inr (db', paid, un)" "0 \<le> m" "m \<le> int64_max"
    and votes: "list_all (\<lambda>v. 0 \<le> cv_weight v) (curators db c)"
      "sum_list (map cv_weight (curators db c)) \<le> co_total_vote_weight c"
    and W: "co_total_vote_weight c < two64"
  shows "core_frame db db'" and "0 \<le> paid" and "paid \<le> m"
proof -
  have "core_frame db db' \<and> 0 \<le> paid \<and> paid \<le> m"
  proof (cases "co_allow_curation_rewards c \<and> co_total_vote_weight c > 0")
    case True
    with assms(1) obtain u where f: "foldE (pay_curator m (co_total_vote_weight c)) (curators db c) (db, m) = Inr (db', u)"
        and "safe_sub m u = Inr paid"
      by (auto simp: pay_curators_def bindE_eq_Inr)
    then have p: "paid = m - u" by (auto dest: safe_sub_value)
    have le: "cv_weight v \<le> co_total_vote_weight c" if "v \<in> set (curators db c)" for v
      using member_le_sum_list[of "cv_weight v" "map cv_weight (curators db c)"] that votes
      by (fastforce simp: list_all_iff)
    from True have W0: "0 < co_total_vote_weight c" by simp
    have "core_frame db db' \<and> u \<le> m \<and> (m - u) * co_total_vote_weight c \<le> m * sum_list (map cv_weight (curators db c))"
      by (rule pay_curator_fold[OF f assms(2,3) _ W0 W]) (use votes(1) le in \<open>auto simp: list_all_iff\<close>)
    moreover have "m * sum_list (map cv_weight (curators db c)) \<le> m * co_total_vote_weight c"
      using votes(2) assms(2) by (rule mult_left_mono)
    ultimately have "(m - u) * co_total_vote_weight c \<le> m * co_total_vote_weight c" "core_frame db db'" "u \<le> m" by auto
    with W0 show ?thesis by (simp add: p)
  next
    case False
    with assms(1,2) show ?thesis
      by (auto simp: pay_curators_def bindE_eq_Inr dest!: safe_sub_value split: if_splits)
  qed
  then show "core_frame db db'" "0 \<le> paid" "paid \<le> m" by simp_all
qed

text \<open>What a payout leaves alone: the reward funds, the votes, and every other post.\<close>

definition cash_frame :: "nat \<Rightarrow> database \<Rightarrow> database \<Rightarrow> bool" where
  "cash_frame i db db' \<longleftrightarrow> db_reward_funds db' = db_reward_funds db \<and>
     db_comment_votes db' = db_comment_votes db \<and>
     (\<forall>j. j \<noteq> i \<longrightarrow> get_comment_id db' j = get_comment_id db j)"

lemma cash_frame_refl [simp]: "cash_frame i db db"
  by (simp add: cash_frame_def)

lemma cash_frame_trans: "cash_frame i a b \<Longrightarrow> cash_frame i b c \<Longrightarrow> cash_frame i a c"
  by (simp add: cash_frame_def)

lemma core_cash_frame: "core_frame db db' \<Longrightarrow> cash_frame i db db'"
  using core_frameD[of db db'] by (simp add: cash_frame_def get_comment_id_def)

lemma modify_comment_frame:
  assumes "modify_comment db i f = Inr db'" "\<And>c c'. f c = Inr c' \<Longrightarrow> co_id c' = co_id c"
  shows "cash_frame i db db'"
proof -
  from assms(1) obtain t where t: "tbl_modify (\<lambda>c. co_id c = i) f (db_comments db) = Inr t"
    and db': "db' = db\<lparr> db_comments := t \<rparr>"
    by (auto simp: modify_comment_def bindE_eq_Inr)
  have "tbl_find (\<lambda>c. co_id c = j) t = tbl_find (\<lambda>c. co_id c = j) (db_comments db)" if "j \<noteq> i" for j
    by (rule tbl_modify_find_other[OF t]) (use that assms(2) in auto)
  then show ?thesis by (simp add: cash_frame_def db' get_comment_id_def tbl_get_def)
qed

lemma pay_beneficiary_frame:
  assumes "foldE (pay_beneficiary x) bs (db, u) = Inr (db', u')"
  shows "core_frame db db'"
  using assms
proof (induction bs arbitrary: db u)
  case (Cons b bs)
  then obtain db1 u1 where 1: "pay_beneficiary x b (db, u) = Inr (db1, u1)"
      and rest: "foldE (pay_beneficiary x) bs (db1, u1) = Inr (db', u')"
    by (auto simp: bindE_eq_Inr)
  from 1 have "core_frame db db1"
    by (auto simp: pay_beneficiary_def bindE_eq_Inr dest: create_vesting_frame)
  from this Cons.IH[OF rest] show ?case by (rule core_frame_trans)
qed simp

lemma pay_author_cases:
  assumes "pay_author db c a k b r = Inr db'"
  obtains n v db1 nv s db2 s1 s2 db3 x y z db4 where
    "create_vesting db n (mk_asset v STEEM_SYMBOL) True = Inr (db1, nv)"
    "create_sbd db1 n (mk_asset s STEEM_SYMBOL) True = Inr (db2, s1, s2)"
    "adjust_total_payout db2 (co_id c) x y z = Inr db3"
    "modify_comment db3 (co_id c) (\<lambda>c. bindE (safe_add (co_author_rewards c) a) (\<lambda>r. Inr (c\<lparr> co_author_rewards := r \<rparr>))) = Inr db4"
    "modify_account db4 (co_author c) (gain_posting a) = Inr db'"
  using assms unfolding pay_author_def run_simps
  by (elim exE conjE, hypsubst) (rule that, assumption+)

lemma pay_author_frame:
  assumes "pay_author db c a k b r = Inr db'"
  shows "cash_frame (co_id c) db db'"
  using assms
proof (rule pay_author_cases)
  fix n v db1 nv s db2 s1 s2 db3 x y z db4
  assume 1: "create_vesting db n (mk_asset v STEEM_SYMBOL) True = Inr (db1, nv)"
    and 2: "create_sbd db1 n (mk_asset s STEEM_SYMBOL) True = Inr (db2, s1, s2)"
    and 3: "adjust_total_payout db2 (co_id c) x y z = Inr db3"
    and 4: "modify_comment db3 (co_id c) (\<lambda>c. bindE (safe_add (co_author_rewards c) a) (\<lambda>r. Inr (c\<lparr> co_author_rewards := r \<rparr>))) = Inr db4"
    and 5: "modify_account db4 (co_author c) (gain_posting a) = Inr db'"
  have "cash_frame (co_id c) db2 db3"
    using 3 unfolding adjust_total_payout_def by (rule modify_comment_frame) (auto simp: bindE_eq_Inr)
  moreover have "cash_frame (co_id c) db3 db4"
    using 4 by (rule modify_comment_frame) (auto simp: bindE_eq_Inr)
  ultimately show ?thesis
    using create_vesting_frame[OF 1] create_sbd_frame[OF 2] balance_frames(1)[OF 5]
    by (meson core_cash_frame cash_frame_trans)
qed

lemma pay_comment_cases:
  assumes "pay_comment db c reward = Inr (db', claimed)"
  obtains percent author db1 curation un db2 total author' db3 where
    "get_curation_rewards_percent db c = Inr percent"
    "to_uint128 (reward * percent) div STEEM_100_PERCENT < two64"
    "safe_sub reward (to_int64 (to_uint128 (reward * percent) div STEEM_100_PERCENT)) = Inr author"
    "pay_curators db c (to_int64 (to_uint128 (reward * percent) div STEEM_100_PERCENT)) = Inr (db1, curation, un)"
    "safe_add author curation = Inr claimed"
    "foldE (pay_beneficiary author) (co_beneficiaries c) (db1, 0) = Inr (db2, total)"
    "pay_author db2 c author' curation total claimed = Inr db3" "db3 = db'"
  using assms unfolding pay_comment_def run_simps
  by (elim exE conjE, hypsubst) (rule that, assumption+, simp_all)

text \<open>The curation weights of the votes on a post do not exceed the total the post records.\<close>

definition votes_within :: "database \<Rightarrow> comment_object \<Rightarrow> bool" where
  "votes_within db c \<longleftrightarrow>
     (let vs = filter (\<lambda>v. cv_comment v = co_id c) (rows (db_comment_votes db)) in
      list_all (\<lambda>v. 0 \<le> cv_weight v) vs \<and> sum_list (map cv_weight vs) \<le> co_total_vote_weight c \<and>
      co_total_vote_weight c < two64)"

lemma votes_within_curators:
  assumes "votes_within db c"
  shows "list_all (\<lambda>v. 0 \<le> cv_weight v) (curators db c)"
    "sum_list (map cv_weight (curators db c)) \<le> co_total_vote_weight c" "co_total_vote_weight c < two64"
  using assms by (simp_all add: votes_within_def curators_def Let_def list_all_iff sum_list_sort_key)

lemma pay_comment_bound:
  assumes "pay_comment db c reward = Inr (db', claimed)" "0 \<le> reward" "reward \<le> int64_max" "votes_within db c"
    and "\<And>p. get_curation_rewards_percent db c = Inr p \<Longrightarrow> 0 \<le> p \<and> p \<le> STEEM_100_PERCENT"
  shows "cash_frame (co_id c) db db' \<and> 0 \<le> claimed \<and> claimed \<le> reward"
  using assms(1)
proof (rule pay_comment_cases)
  fix percent author db1 curation un db2 total author' db3
  assume p: "get_curation_rewards_percent db c = Inr percent"
    and s: "safe_sub reward (to_int64 (to_uint128 (reward * percent) div STEEM_100_PERCENT)) = Inr author"
    and pc: "pay_curators db c (to_int64 (to_uint128 (reward * percent) div STEEM_100_PERCENT)) = Inr (db1, curation, un)"
    and a: "safe_add author curation = Inr claimed"
    and b: "foldE (pay_beneficiary author) (co_beneficiaries c) (db1, 0) = Inr (db2, total)"
    and au: "pay_author db2 c author' curation total claimed = Inr db3" and d: "db3 = db'"
  define k where "k = reward * percent div STEEM_100_PERCENT"
  have percent: "0 \<le> percent" "percent \<le> 10000" using assms(5)[OF p] by simp_all
  have rp: "0 \<le> reward * percent" "reward * percent \<le> reward * 10000"
    using assms(2) percent by (auto intro: mult_left_mono)
  have "reward * 10000 < two128" using assms(3) by simp
  with rp have "to_uint128 (reward * percent) = reward * percent" by simp
  moreover have k: "0 \<le> k" "k \<le> reward"
    using rp zdiv_mono1[of "reward * percent" "reward * 10000" 10000]
    by (auto simp: k_def pos_imp_zdiv_nonneg_iff)
  moreover from k assms(3) have "to_int64 k = k" by (simp add: in_int64_def)
  ultimately have kk: "to_int64 (to_uint128 (reward * percent) div STEEM_100_PERCENT) = k" by (simp add: k_def)
  have kmax: "k \<le> int64_max" using k assms(3) by simp
  note cur = pay_curators_bounds[OF pc[unfolded kk] k(1) kmax votes_within_curators[OF assms(4)]]
  have "claimed = reward - k + curation"
    using safe_sub_value[OF s] safe_add_value[OF a] by (simp add: kk)
  with cur k have "0 \<le> claimed \<and> claimed \<le> reward" by simp
  moreover have "cash_frame (co_id c) db db'"
    using cur(1) pay_beneficiary_frame[OF b] pay_author_frame[OF au] d
    by (meson core_cash_frame cash_frame_trans)
  ultimately show ?thesis by simp
qed

definition comment_claim :: "reward_fund_object \<Rightarrow> comment_object \<Rightarrow> int" where
  "comment_claim rf c =
     (if co_net_rshares c > 0 then
        res_or 0 (evaluate_reward_curve (to_uint128 (co_net_rshares c)) (rf_author_reward_curve rf) (rf_content_constant rf))
      else 0)"

lemma comment_claim_nonneg: "0 \<le> comment_claim rf c"
proof (cases "evaluate_reward_curve (to_uint128 (co_net_rshares c)) (rf_author_reward_curve rf) (rf_content_constant rf)")
  case (Inr v)
  with curve_range(1)[OF Inr] show ?thesis by (simp add: comment_claim_def res_or_def to_uint128_def)
qed (simp add: comment_claim_def res_or_def)

lemma close_comment_fields [simp]:
  "co_id (close_comment now c) = co_id c" "co_cashout_time (close_comment now c) = time_maximum"
  by (simp_all add: close_comment_def)

lemma closed_comment:
  assumes "modify_comment db i (\<lambda>c. Inr (close_comment now c)) = Inr db'" "get_comment_id db' i = Inr c"
  shows "co_cashout_time c = time_maximum"
proof -
  from assms(1) obtain t where t: "tbl_modify (\<lambda>c. co_id c = i) (\<lambda>c. Inr (close_comment now c)) (db_comments db) = Inr t"
    and db': "db' = db\<lparr> db_comments := t \<rparr>"
    by (auto simp: modify_comment_def bindE_eq_Inr)
  from tbl_modify_find[OF t] obtain v where v: "tbl_find (\<lambda>c. co_id c = i) (db_comments db) = Some v" by blast
  then have "co_id v = i" using tbl_find_Some[OF v] by simp
  with tbl_modify_find_after[OF t v refl] assms(2) show ?thesis
    by (auto simp: db' get_comment_id_def tbl_get_Inr)
qed

lemma finish_votes_closed:
  "co_cashout_time c = time_maximum \<Longrightarrow> foldE (finish_vote c) vs db = Inr db"
  by (induction vs) (simp_all add: finish_vote_def)

lemma cashout_helper_cases:
  assumes "cashout_comment_helper ctx db i = Inr (db', a)" "get_comment_id db i = Inr c"
  obtains db1 where "cash_frame i db1 db'" "award_comment ctx db c = Inr (db1, a)"
proof -
  from assms obtain db1 db2 c2 where
    1: "award_comment ctx db c = Inr (db1, a)"
    and 2: "modify_comment db1 i (\<lambda>c. Inr (close_comment (head_block_time db1) c)) = Inr db2"
    and 3: "get_comment_id db2 i = Inr c2"
    and 4: "foldE (finish_vote c2) (sort_key cv_voter (filter (\<lambda>v. cv_comment v = co_id c2) (rows (db_comment_votes db2)))) db2 = Inr db'"
    by (auto simp: cashout_comment_helper_def bindE_eq_Inr)
  have "cash_frame i db1 db2" using 2 by (rule modify_comment_frame) auto
  moreover have "db' = db2" using 4 finish_votes_closed[OF closed_comment[OF 2 3]] by simp
  ultimately show ?thesis using that 1 by simp
qed

text \<open>The context of one round: a fund with balance \<open>F\<close> and \<open>T\<close> claims.\<close>

definition round_context :: "comment_reward_context \<Rightarrow> int \<Rightarrow> int \<Rightarrow> bool" where
  "round_context ctx F T \<longleftrightarrow> amount (ctx_total_reward_fund_steem ctx) = F \<and> ctx_total_reward_shares2 ctx = T"

definition payable :: "database \<Rightarrow> reward_fund_object \<Rightarrow> comment_object \<Rightarrow> bool" where
  "payable db rf c \<longleftrightarrow> votes_within db c \<and> 0 \<le> co_reward_weight c \<and> co_reward_weight c \<le> STEEM_100_PERCENT \<and>
     0 \<le> rf_percent_curation_rewards rf \<and> rf_percent_curation_rewards rf \<le> STEEM_100_PERCENT \<and>
     (co_net_rshares c > 0 \<longrightarrow>
        isOK (evaluate_reward_curve (to_uint128 (co_net_rshares c)) (rf_author_reward_curve rf) (rf_content_constant rf)))"

lemma award_comment_bound:
  assumes "award_comment ctx db c = Inr (db', a)" "get_reward_fund db c = Inr rf"
    and "payable db rf c" "round_context ctx F T" "0 \<le> F" "F \<le> int64_max"
  shows "cash_frame (co_id c) db db' \<and> 0 \<le> a \<and> a * T \<le> F * comment_claim rf c \<and> (a = 0 \<or> 0 < T)"
proof (cases "co_net_rshares c > 0")
  case False
  with assms(1) comment_claim_nonneg[of rf c] assms(5) show ?thesis by (simp add: award_comment_def)
next
  case True
  define x where "x = (fill_comment_reward_context_local_state ctx c)\<lparr>
            ctx_reward_curve := rf_author_reward_curve rf, ctx_content_constant := rf_content_constant rf \<rparr>"
  from True assms(1,2) obtain r where r: "get_rshare_reward x = Inr r"
      and pay: "(if to_uint128 (to_int64 r) > 0 then pay_comment db c (to_int64 r) else Inr (db, 0)) = Inr (db', a)"
    by (auto simp: award_comment_def bindE_eq_Inr x_def)
  from assms(3) obtain v where
    v: "evaluate_reward_curve (to_uint128 (co_net_rshares c)) (rf_author_reward_curve rf) (rf_content_constant rf) = Inr v"
    using True by (auto simp: payable_def isOK_iff)
  have xs: "ctx_rshares x = co_net_rshares c" "ctx_reward_curve x = rf_author_reward_curve rf"
    "ctx_content_constant x = rf_content_constant rf" "ctx_reward_weight x = co_reward_weight c"
    "amount (ctx_total_reward_fund_steem x) = F" "ctx_total_reward_shares2 x = T"
    using assms(4) by (simp_all add: x_def fill_comment_reward_context_local_state_def round_context_def)
  have share: "0 \<le> r \<and> r \<le> int64_max \<and> 0 < T \<and> r * T \<le> F * v"
    using get_rshare_reward_share[OF r, of v F] v assms(3,5,6) by (simp add: xs payable_def)
  then have r64: "to_int64 r = r" by (simp add: in_int64_def)
  have claim: "comment_claim rf c = v" using True v by (simp add: comment_claim_def res_or_def)
  have "cash_frame (co_id c) db db' \<and> 0 \<le> a \<and> a \<le> r"
  proof (cases "to_uint128 (to_int64 r) > 0")
    case True
    with pay r64 have p: "pay_comment db c r = Inr (db', a)" by simp
    show ?thesis
      using pay_comment_bound[OF p] share assms(2,3)
      by (auto simp: payable_def get_curation_rewards_percent_def)
  next
    case False
    with pay share show ?thesis by simp
  qed
  moreover have "a * T \<le> F * v" if "a \<le> r" using mult_right_mono[OF that, of T] share by linarith
  ultimately show ?thesis using share claim by auto
qed

section \<open>A round awards no more than the fund\<close>

definition ready :: "database \<Rightarrow> reward_fund_object \<Rightarrow> comment_object list \<Rightarrow> bool" where
  "ready db rf cs \<longleftrightarrow> distinct (map co_id cs) \<and>
     (\<forall>c\<in>set cs. get_comment_id db (co_id c) = Inr c \<and> payable db rf c)"

lemma ready_frame:
  assumes "ready db rf (c # cs)" "cash_frame (co_id c) db db'"
  shows "ready db' rf cs"
proof -
  have "payable db' rf x = payable db rf x" for x
    using assms(2) by (simp add: payable_def votes_within_def cash_frame_def)
  moreover have "get_comment_id db' (co_id x) = get_comment_id db (co_id x)" if "x \<in> set cs" for x
  proof -
    from assms(1) have "distinct (map co_id (c # cs))" unfolding ready_def by blast
    then have "co_id c \<notin> co_id ` set cs" by simp
    with imageI[OF that, of co_id] have "co_id x \<noteq> co_id c" by metis
    with assms(2) show ?thesis by (simp add: cash_frame_def)
  qed
  ultimately show ?thesis using assms(1) by (simp add: ready_def)
qed

text \<open>Between two states of the round only the amount awarded by fund \<open>k\<close> has grown, by \<open>d\<close>.\<close>

definition awarded :: "nat \<Rightarrow> int \<Rightarrow> reward_fund_context list \<Rightarrow> reward_fund_context list \<Rightarrow> bool" where
  "awarded k d fs fs' \<longleftrightarrow> fs' = fs[k := (fs ! k)\<lparr> fc_steem_awarded := fc_steem_awarded (fs ! k) + d \<rparr>]"

lemma awarded_refl: "k < length fs \<Longrightarrow> awarded k 0 fs fs"
  by (simp add: awarded_def)

lemma awarded_trans: "k < length a \<Longrightarrow> awarded k d a b \<Longrightarrow> awarded k e b c \<Longrightarrow> awarded k (d + e) a c"
  by (simp add: awarded_def add.assoc)

lemma cashout_comment_bound:
  assumes run: "cashout_comment pr (co_id c) (db, funds) = Inr (db', funds')"
    and rf: "tbl_find (\<lambda>rf. rf_name rf = STEEM_POST_REWARD_FUND_NAME) (db_reward_funds db) = Some rf"
    and k: "rf_id rf < length funds" and c: "get_comment_id db (co_id c) = Inr c" "payable db rf c"
    and F: "amount (fc_reward_balance (funds ! rf_id rf)) = F" "0 \<le> F" "F \<le> int64_max"
    and T: "fc_recent_claims (funds ! rf_id rf) = T"
  obtains a where "cash_frame (co_id c) db db'" "awarded (rf_id rf) a funds funds'"
    "0 \<le> a" "a * T \<le> F * comment_claim rf c" "a = 0 \<or> 0 < T"
proof -
  have rf': "get_reward_fund db x = Inr rf" for x using rf by (simp add: get_reward_fund_def tbl_get_Inr)
  from run c(1) rf' obtain ctx a s where
    h: "cashout_comment_helper ctx db (co_id c) = Inr (db', a)" and ctx: "round_context ctx F T"
    and s: "safe_add (fc_steem_awarded (funds ! rf_id rf)) a = Inr s"
    and funds': "funds' = funds[rf_id rf := (funds ! rf_id rf)\<lparr> fc_steem_awarded := s \<rparr>]"
    using F(1) T by (auto simp: cashout_comment_def bindE_eq_Inr Let_def round_context_def)
  from cashout_helper_cases[OF h c(1)] obtain db1 where
    1: "cash_frame (co_id c) db1 db'" "award_comment ctx db c = Inr (db1, a)" .
  from award_comment_bound[OF 1(2) rf' c(2) ctx F(2,3)] 1(1)
  have b: "cash_frame (co_id c) db db'" "0 \<le> a" "a * T \<le> F * comment_claim rf c" "a = 0 \<or> 0 < T"
    by (auto intro: cash_frame_trans)
  from funds' safe_add_value[OF s] have "awarded (rf_id rf) a funds funds'" by (simp add: awarded_def)
  with b that show ?thesis by blast
qed

lemma cashout_round_bound:
  assumes "foldE (cashout_comment pr) (map co_id cs) (db, funds) = Inr (db', funds')"
    and "tbl_find (\<lambda>rf. rf_name rf = STEEM_POST_REWARD_FUND_NAME) (db_reward_funds db) = Some rf"
    and "rf_id rf < length funds" "ready db rf cs"
    and "amount (fc_reward_balance (funds ! rf_id rf)) = F" "0 \<le> F" "F \<le> int64_max"
    and "fc_recent_claims (funds ! rf_id rf) = T"
  shows "\<exists>a. db_reward_funds db' = db_reward_funds db \<and> awarded (rf_id rf) a funds funds' \<and> 0 \<le> a \<and>
    a * T \<le> F * sum_list (map (comment_claim rf) cs) \<and> (a = 0 \<or> 0 < T)"
  using assms
proof (induction cs arbitrary: db funds)
  case Nil
  then show ?case by (auto intro!: exI[of _ 0] awarded_refl)
next
  case (Cons c cs)
  then obtain db1 funds1 where 1: "cashout_comment pr (co_id c) (db, funds) = Inr (db1, funds1)"
      and rest: "foldE (cashout_comment pr) (map co_id cs) (db1, funds1) = Inr (db', funds')"
    by (auto simp: bindE_eq_Inr)
  from Cons.prems(4) have c: "get_comment_id db (co_id c) = Inr c" "payable db rf c" by (simp_all add: ready_def)
  from cashout_comment_bound[OF 1 Cons.prems(2,3) c Cons.prems(5-8)] obtain a where
    a: "cash_frame (co_id c) db db1" "awarded (rf_id rf) a funds funds1" "0 \<le> a" "a * T \<le> F * comment_claim rf c" "a = 0 \<or> 0 < T" .
  from a(1) have rf: "db_reward_funds db1 = db_reward_funds db" by (simp add: cash_frame_def)
  have k: "rf_id rf < length funds1" "amount (fc_reward_balance (funds1 ! rf_id rf)) = F" "fc_recent_claims (funds1 ! rf_id rf) = T"
    using a(2) Cons.prems(3,5,8) by (simp_all add: awarded_def)
  have find: "tbl_find (\<lambda>rf. rf_name rf = STEEM_POST_REWARD_FUND_NAME) (db_reward_funds db1) = Some rf"
    using Cons.prems(2) by (simp add: rf)
  from Cons.IH[OF rest find k(1) ready_frame[OF Cons.prems(4) a(1)] k(2) Cons.prems(6,7) k(3)] obtain b where
    b: "db_reward_funds db' = db_reward_funds db1" "awarded (rf_id rf) b funds1 funds'" "0 \<le> b"
      "b * T \<le> F * sum_list (map (comment_claim rf) cs)" "b = 0 \<or> 0 < T" by blast
  show ?case
    using a b rf awarded_trans[OF Cons.prems(3) a(2) b(2)]
    by (intro exI[of _ "a + b"]) (auto simp: algebra_simps)
qed

lemma add_claims_fold:
  assumes "foldE (add_claims db) cs funds = Inr funds'"
    and rf: "tbl_find (\<lambda>rf. rf_name rf = STEEM_POST_REWARD_FUND_NAME) (db_reward_funds db) = Some rf"
    and "rf_id rf < length funds" "0 \<le> fc_recent_claims (funds ! rf_id rf)"
    and "fc_recent_claims (funds ! rf_id rf) + sum_list (map (comment_claim rf) cs) < two128"
  shows "funds' = funds[rf_id rf := (funds ! rf_id rf)\<lparr> fc_recent_claims :=
    fc_recent_claims (funds ! rf_id rf) + sum_list (map (comment_claim rf) cs) \<rparr>]"
  using assms(1,3-5)
proof (induction cs arbitrary: funds)
  case (Cons c cs)
  let ?k = "rf_id rf" and ?v = "comment_claim rf c"
  have fund: "get_reward_fund db c = Inr rf" using rf by (simp add: get_reward_fund_def tbl_get_Inr)
  have sum0: "0 \<le> sum_list (map (comment_claim rf) cs)"
    by (rule sum_list_nonneg) (auto simp: comment_claim_nonneg)
  have v: "0 \<le> ?v" by (rule comment_claim_nonneg)
  from Cons.prems(1) obtain f1 where 1: "add_claims db c funds = Inr f1" and rest: "foldE (add_claims db) cs f1 = Inr funds'"
    by (auto simp: bindE_eq_Inr)
  have u: "to_uint128 (fc_recent_claims (funds ! ?k) + ?v) = fc_recent_claims (funds ! ?k) + ?v"
    using Cons.prems(3,4) v sum0 by simp
  have f1: "f1 = funds[?k := (funds ! ?k)\<lparr> fc_recent_claims := fc_recent_claims (funds ! ?k) + ?v \<rparr>]"
  proof (cases "co_net_rshares c > 0")
    case True
    with 1 fund obtain x where "evaluate_reward_curve (to_uint128 (co_net_rshares c)) (rf_author_reward_curve rf) (rf_content_constant rf) = Inr x"
      and f: "f1 = funds[?k := (funds ! ?k)\<lparr> fc_recent_claims := to_uint128 (fc_recent_claims (funds ! ?k) + x) \<rparr>]"
      by (auto simp: add_claims_def bindE_eq_Inr Let_def)
    with True have "?v = x" by (simp add: comment_claim_def res_or_def)
    with f u show ?thesis by simp
  next
    case False
    with 1 Cons.prems(2) show ?thesis by (simp add: add_claims_def comment_claim_def)
  qed
  have "fc_recent_claims (f1 ! ?k) = fc_recent_claims (funds ! ?k) + ?v" "?k < length f1"
    using Cons.prems(2) by (simp_all add: f1)
  with Cons.IH[OF rest] Cons.prems v show ?case by (simp add: f1 add.assoc)
qed simp

lemma write_fund_value:
  "write_fund f r = Inr r' \<Longrightarrow> rf_id r' = rf_id r \<and> amount (rf_reward_balance r') = amount (rf_reward_balance r) - fc_steem_awarded f"
  by (auto simp: write_fund_def bindE_eq_Inr dest: asset_sub_value)

lemma write_funds_nonneg:
  assumes "foldE (\<lambda>i db. modify_reward_fund db i (write_fund (fs ! i))) ks db = Inr db'"
    and "distinct ks" "distinct (map rf_id (rows (db_reward_funds db)))"
    and "\<forall>r\<in>set (rows (db_reward_funds db)).
      (if rf_id r \<in> set ks then fc_steem_awarded (fs ! rf_id r) else 0) \<le> amount (rf_reward_balance r)"
  shows "\<forall>r\<in>set (rows (db_reward_funds db')). 0 \<le> amount (rf_reward_balance r)"
  using assms
proof (induction ks arbitrary: db)
  case (Cons i ks)
  then obtain db1 where 1: "modify_reward_fund db i (write_fund (fs ! i)) = Inr db1"
      and rest: "foldE (\<lambda>i db. modify_reward_fund db i (write_fund (fs ! i))) ks db1 = Inr db'"
    by (auto simp: bindE_eq_Inr)
  from 1 obtain ys where m: "modify_first (\<lambda>rf. rf_id rf = i) (write_fund (fs ! i)) (rows (db_reward_funds db)) = Inr ys"
    and db1: "rows (db_reward_funds db1) = ys"
    by (auto simp: modify_reward_fund_def tbl_modify_def bindE_eq_Inr)
  from modify_first_split[OF m] obtain us v v' vs where
    s: "rows (db_reward_funds db) = us @ v # vs" "ys = us @ v' # vs" "rf_id v = i" "write_fund (fs ! i) v = Inr v'" by blast
  note w = write_fund_value[OF s(4)]
  have other: "rf_id r \<noteq> i" if "r \<in> set us \<union> set vs" for r
    using Cons.prems(3) that s(3) by (auto simp: s(1)) (metis imageI)+
  have d: "distinct (map rf_id (rows (db_reward_funds db1)))"
    using Cons.prems(3) w by (simp add: db1 s)
  have "(if rf_id r \<in> set ks then fc_steem_awarded (fs ! rf_id r) else 0) \<le> amount (rf_reward_balance r)"
    if r: "r \<in> set (rows (db_reward_funds db1))" for r
  proof (cases "r \<in> set us \<union> set vs")
    case True
    with Cons.prems(4) have "(if rf_id r \<in> set (i # ks) then fc_steem_awarded (fs ! rf_id r) else 0) \<le> amount (rf_reward_balance r)"
      by (auto simp: s(1))
    with other[OF True] show ?thesis by simp
  next
    case False
    with r have "r = v'" by (auto simp: db1 s(2))
    moreover have "fc_steem_awarded (fs ! i) \<le> amount (rf_reward_balance v)"
      using Cons.prems(4) s(3) by (auto simp: s(1))
    ultimately show ?thesis using w s(3) Cons.prems(2) by simp
  qed
  with Cons.IH[OF rest _ d] Cons.prems(2) show ?case by auto
qed simp

lemma decay_fund_fields [simp]:
  "rf_id (decay_fund now rf) = rf_id rf" "rf_name (decay_fund now rf) = rf_name rf"
  "rf_reward_balance (decay_fund now rf) = rf_reward_balance rf"
  "rf_author_reward_curve (decay_fund now rf) = rf_author_reward_curve rf"
  "rf_content_constant (decay_fund now rf) = rf_content_constant rf"
  "rf_percent_curation_rewards (decay_fund now rf) = rf_percent_curation_rewards rf"
  "0 \<le> rf_recent_claims (decay_fund now rf)"
  by (simp_all add: decay_fund_def to_uint128_def)

lemma find_map_same: "(\<And>x. P (g x) = P x) \<Longrightarrow> List.find P (map g xs) = map_option g (List.find P xs)"
  by (induction xs) auto

lemma distinct_map_takeWhile: "distinct (map f xs) \<Longrightarrow> distinct (map f (takeWhile P xs))"
  by (induction xs) (auto dest: set_takeWhileD)

lemma due_comments_ready:
  assumes "distinct (map co_id (rows (db_comments db)))" "list_all (payable db rf) (due_comments db)"
  shows "ready db rf (due_comments db)"
proof -
  let ?s = "sort_key (\<lambda>c. (co_cashout_time c, co_id c)) (rows (db_comments db))"
  have m: "mset (map co_id ?s) = mset (map co_id (rows (db_comments db)))"
    by (simp only: mset_map mset_sort)
  have "distinct (map co_id ?s)"
    using assms(1) mset_eq_imp_distinct_iff[OF m] by blast
  then have "distinct (map co_id (due_comments db))"
    unfolding due_comments_def by (rule distinct_map_takeWhile)
  moreover have "get_comment_id db (co_id c) = Inr c" if "c \<in> set (due_comments db)" for c
  proof -
    from that have "c \<in> set (rows (db_comments db))"
      using set_takeWhileD[of c _ ?s] by (auto simp: due_comments_def)
    then obtain us vs where s: "rows (db_comments db) = us @ c # vs" by (metis split_list)
    with assms(1) have "co_id c \<notin> co_id ` set us" by simp
    then have "\<forall>u\<in>set us. co_id u \<noteq> co_id c" by (metis imageI)
    then show ?thesis
      by (simp add: get_comment_id_def tbl_get_Inr tbl_find_def s find_append_first)
  qed
  ultimately show ?thesis using assms(2) by (simp add: ready_def list_all_iff)
qed

lemma cashout_awards:
  assumes 1: "foldE (add_claims db1) cs fs = Inr fs1"
    and 2: "foldE (cashout_comment pr) (map co_id cs) (db1, fs1) = Inr (db2, fs2)"
    and post: "tbl_find (\<lambda>rf. rf_name rf = STEEM_POST_REWARD_FUND_NAME) (db_reward_funds db1) = Some rf"
    and k: "rf_id rf < length fs" "fc_recent_claims (fs ! rf_id rf) = C" "fc_reward_balance (fs ! rf_id rf) = B"
      "fc_steem_awarded (fs ! rf_id rf) = 0"
    and C: "0 \<le> C" "C + sum_list (map (comment_claim rf) cs) < two128"
    and rdy: "ready db1 rf cs" and B: "0 \<le> amount B" "amount B \<le> int64_max"
  shows "db_reward_funds db2 = db_reward_funds db1 \<and> length fs2 = length fs \<and>
    (\<forall>i<length fs. fc_steem_awarded (fs2 ! i) \<le> (if i = rf_id rf then amount B else fc_steem_awarded (fs ! i)))"
proof -
  define T where "T = C + sum_list (map (comment_claim rf) cs)"
  have fs1: "fs1 = fs[rf_id rf := (fs ! rf_id rf)\<lparr> fc_recent_claims := T \<rparr>]"
    using add_claims_fold[OF 1 post k(1)] C by (simp add: T_def k(2))
  have F1: "amount (fc_reward_balance (fs1 ! rf_id rf)) = amount B" "fc_recent_claims (fs1 ! rf_id rf) = T"
      "rf_id rf < length fs1"
    using k by (simp_all add: fs1)
  from cashout_round_bound[OF 2 post F1(3) rdy F1(1) B F1(2)] obtain a where
    a: "db_reward_funds db2 = db_reward_funds db1" "awarded (rf_id rf) a fs1 fs2"
      "a * T \<le> amount B * sum_list (map (comment_claim rf) cs)" "a = 0 \<or> 0 < T" by blast
  have "sum_list (map (comment_claim rf) cs) \<le> T" using C by (simp add: T_def)
  then have "a * T \<le> amount B * T" using a(3) B(1) by (meson mult_left_mono order_trans)
  with a(4) B(1) have "a \<le> amount B" by auto
  then show ?thesis using a(1,2) k by (simp add: awarded_def fs1 nth_list_update)
qed


definition sample_comment :: "nat \<Rightarrow> string \<Rightarrow> string \<Rightarrow> comment_object" where
  "sample_comment i author permlink = \<lparr> co_id = i, co_category = ''test'', co_parent_author = [], co_parent_permlink = ''test'',
     co_author = author, co_permlink = permlink, co_last_update = 1499000000, co_created = 1499000000,
     co_active = 1499000000, co_last_payout = 0, co_depth = 0, co_children = 0, co_net_rshares = 5000000,
     co_abs_rshares = 5000000, co_vote_rshares = 5000000, co_children_abs_rshares = 0,
     co_cashout_time = 1499999999, co_max_cashout_time = 1499999999, co_total_vote_weight = 2000,
     co_reward_weight = 10000, co_total_payout_value = mk_asset 0 SBD_SYMBOL,
     co_curator_payout_value = mk_asset 0 SBD_SYMBOL, co_beneficiary_payout_value = mk_asset 0 SBD_SYMBOL,
     co_author_rewards = 0, co_net_votes = 1, co_root_comment = i,
     co_max_accepted_payout = mk_asset 1000000000 SBD_SYMBOL, co_percent_steem_dollars = 10000,
     co_allow_replies = True, co_allow_votes = True, co_allow_curation_rewards = True,
     co_beneficiaries = [\<lparr> br_account = ''carol'', br_weight = 1000 \<rparr>] \<rparr>"

definition sample_vote :: "nat \<Rightarrow> nat \<Rightarrow> nat \<Rightarrow> int \<Rightarrow> comment_vote_object" where
  "sample_vote i voter comment w = \<lparr> cv_id = i, cv_voter = voter, cv_comment = comment, cv_weight = w, cv_rshares = 5000000,
     cv_vote_percent = 10000, cv_last_update = 1499000000, cv_num_changes = 0 \<rparr>"

text \<open>Two posts are due; Alice and Carol voted for the first.\<close>

definition cashout_db :: database where
  "cashout_db = sample_db\<lparr>
     db_comments := \<lparr> rows = [sample_comment 0 ''bob'' ''first'', sample_comment 1 ''carol'' ''second''], next_id = 2 \<rparr>,
     db_comment_votes := \<lparr> rows = [sample_vote 0 0 0 1200, sample_vote 1 2 0 800], next_id = 2 \<rparr> \<rparr>"

definition post_fund :: reward_fund_object where
  "post_fund = hd (rows (db_reward_funds sample_db))"

definition cashed_db :: database where
  "cashed_db = res_or cashout_db (process_comment_cashout cashout_db)"


text \<open>C7. Inflation mints exactly what it hands out: after \<open>process_funds\<close> the supply has grown by the sum
  of what went to the reward funds, to the vesting fund and to the block producer, so the ledger
  stays balanced to the last satoshi in the bootstrap phase and after it.\<close>

theorem inflation_is_backed:
  assumes "process_funds db = Inr db'"
  shows "ledger_same db db'"
  using assms by (rule process_funds_same)

definition inflated_db :: database where
  "inflated_db = res_or sample_db (process_funds sample_db)"

theorem inflation_is_backed_witness:
  "process_funds sample_db = Inr inflated_db \<and> ledger_same sample_db inflated_db \<and>
   amount (dgp_current_supply (db_dgp inflated_db)) = 151000"
proof -
  have "case process_funds sample_db of Inr d \<Rightarrow> amount (dgp_current_supply (db_dgp d)) = 151000 | Inl e \<Rightarrow> False"
    by code_simp
  then have r: "process_funds sample_db = Inr inflated_db" and s: "amount (dgp_current_supply (db_dgp inflated_db)) = 151000"
    unfolding inflated_db_def by (rule res_or_run)+
  from inflation_is_backed[OF r] r s show ?thesis by blast
qed

text \<open>A chain with one VESTS unit against 6000 units of STEEM, and one post due.\<close>

definition dust_db :: database where
  "dust_db = sample_db\<lparr>
     db_dgp := sample_dgp\<lparr> dgp_total_vesting_shares := mk_asset 1 VESTS_SYMBOL \<rparr>,
     db_accounts := \<lparr> rows = [sample_account 0 ''alice'' 100000 50000 1,
       sample_account 1 ''bob'' 20000 0 0, sample_account 2 ''carol'' 5000 0 0], next_id = 3 \<rparr>,
     db_comments := \<lparr> rows = [(sample_comment 0 ''bob'' ''first'')\<lparr> co_beneficiaries := [], co_total_vote_weight := 0 \<rparr>],
       next_id = 1 \<rparr> \<rparr>"


end
