(* ===== verification/Comments.thy ===== *)
theory Comments
  imports Rewards Operations Utf8
begin

text \<open>
  Posts, replies and votes: the evaluators for comments, their options and their deletion, votes, and
  the custom operations, of src/src/core/chain/steem_evaluator.cpp.

  The body of an edited post is computed by the library diff-match-patch, which is a parameter: it maps
  the new body and the old one to the patched text, or to \<open>None\<close> when the new body is not a patch.
  The interpreters that plugins register for custom operations are a parameter as well; a failed
  interpreter leaves the state as it was.  The walk over the ancestors of a reply is bounded by the
  depth of the reply, which the lemmas show to be enough.
\<close>

section \<open>Posts\<close>

definition get_comment :: "database \<Rightarrow> account_name_type \<Rightarrow> string \<Rightarrow> comment_object res" where
  "get_comment db author permlink =
     tbl_get (\<lambda>c. co_author c = author \<and> co_permlink c = permlink) (db_comments db)"

definition permlink_char :: "char \<Rightarrow> bool" where
  "permlink_char c \<longleftrightarrow> c \<in> set ''abcdefghijklmnopqrstuvwxyz0123456789-''"

definition validate_permlink_0_1 :: "string \<Rightarrow> unit res" where
  "validate_permlink_0_1 permlink =
     fc_assert 49 (length permlink > STEEM_MIN_PERMLINK_LENGTH \<and> length permlink < STEEM_MAX_PERMLINK_LENGTH)
     (foldE (\<lambda>c _. fc_assert 62 (permlink_char c) (Inr ())) permlink ())"

text \<open>\<open>std::strcmp\<close> compares up to the first NUL.\<close>

definition strcmp_equal :: "string \<Rightarrow> string \<Rightarrow> bool" where
  "strcmp_equal a b \<longleftrightarrow> length a = length b \<or>
     takeWhile (\<lambda>c. c \<noteq> CHR 0x00) a = takeWhile (\<lambda>c. c \<noteq> CHR 0x00) b"

definition comment_clash :: "comment_object \<Rightarrow> comment_object \<Rightarrow> bool" where
  "comment_clash x y \<longleftrightarrow> co_author x = co_author y \<and> co_permlink x = co_permlink y"

definition new_comment :: "time_point_sec \<Rightarrow> comment_operation \<Rightarrow> comment_object option \<Rightarrow> nat \<Rightarrow> comment_object" where
  "new_comment now o1 parent i = \<lparr> co_id = i,
     co_category = (case parent of None \<Rightarrow> cm_parent_permlink o1 | Some p \<Rightarrow> co_category p),
     co_parent_author = (case parent of None \<Rightarrow> [] | Some p \<Rightarrow> co_author p),
     co_parent_permlink = (case parent of None \<Rightarrow> cm_parent_permlink o1 | Some p \<Rightarrow> co_permlink p),
     co_author = cm_author o1, co_permlink = cm_permlink o1, co_last_update = now, co_created = now, co_active = now,
     co_last_payout = 0, co_depth = (case parent of None \<Rightarrow> 0 | Some p \<Rightarrow> to_uint16 (co_depth p + 1)), co_children = 0,
     co_net_rshares = 0, co_abs_rshares = 0, co_vote_rshares = 0, co_children_abs_rshares = 0,
     co_cashout_time = to_uint32 (now + STEEM_CASHOUT_WINDOW_SECONDS), co_max_cashout_time = time_maximum,
     co_total_vote_weight = 0, co_reward_weight = STEEM_100_PERCENT,
     co_total_payout_value = mk_asset 0 SBD_SYMBOL, co_curator_payout_value = mk_asset 0 SBD_SYMBOL,
     co_beneficiary_payout_value = mk_asset 0 SBD_SYMBOL, co_author_rewards = 0, co_net_votes = 0,
     co_root_comment = (case parent of None \<Rightarrow> i | Some p \<Rightarrow> co_root_comment p),
     co_max_accepted_payout = mk_asset 1000000000 SBD_SYMBOL, co_percent_steem_dollars = STEEM_100_PERCENT,
     co_allow_replies = True, co_allow_votes = True, co_allow_curation_rewards = True, co_beneficiaries = [] \<rparr>"

text \<open>The walk from a post to the root of its discussion; \<open>d\<close> is added to the number of descendants.\<close>

fun touch_ancestors :: "nat \<Rightarrow> time_point_sec \<Rightarrow> int \<Rightarrow> nat \<Rightarrow> database \<Rightarrow> database res" where
  "touch_ancestors 0 now d i db = Inl Logic_error"
| "touch_ancestors (Suc fuel) now d i db =
     bindE (modify_comment db i (\<lambda>p. Inr (p\<lparr> co_children := to_uint32 (co_children p + d), co_active := now \<rparr>))) (\<lambda>db.
     bindE (get_comment_id db i) (\<lambda>p.
     if co_parent_author p \<noteq> [] then
       bindE (get_comment db (co_parent_author p) (co_parent_permlink p)) (\<lambda>q. touch_ancestors fuel now d (co_id q) db)
     else Inr db))"

definition ancestor_fuel :: "comment_object \<Rightarrow> nat" where
  "ancestor_fuel p = Suc (nat (co_depth p))"

definition create_comment :: "database \<Rightarrow> comment_operation \<Rightarrow> comment_object option \<Rightarrow> (database \<times> nat) res" where
  "create_comment db o1 parent =
     bindE (validate_permlink_0_1 (cm_parent_permlink o1)) (\<lambda>_.
     bindE (validate_permlink_0_1 (cm_permlink o1)) (\<lambda>_.
     bindE (tbl_create comment_clash (new_comment (head_block_time db) o1 parent) (db_comments db)) (\<lambda>t.
     Inr (db\<lparr> db_comments := t \<rparr>, next_id (db_comments db)))))"

definition create_content :: "database \<Rightarrow> comment_operation \<Rightarrow> nat \<Rightarrow> database res" where
  "create_content db o1 i =
     bindE (tbl_create (\<lambda>x y. cc_comment x = cc_comment y) (\<lambda>k. \<lparr> cc_id = k, cc_comment = i, cc_title = cm_title o1,
         cc_body = (if int (length (cm_body o1)) < 1024 * 1024 * 128 then cm_body o1 else []),
         cc_json_metadata = cm_json_metadata o1 \<rparr>) (db_comment_contents db)) (\<lambda>t.
     Inr (db\<lparr> db_comment_contents := t \<rparr>))"

definition count_post :: "bool \<Rightarrow> time_point_sec \<Rightarrow> account_object \<Rightarrow> account_object res" where
  "count_post is_root now a =
     Inr (a\<lparr> ac_last_root_post := (if is_root then now else ac_last_root_post a),
             ac_post_bandwidth := (if is_root then to_uint32 (ac_post_bandwidth a) else ac_post_bandwidth a),
             ac_last_post := now, ac_post_count := to_uint32 (ac_post_count a + 1) \<rparr>)"

definition post_comment :: "database \<Rightarrow> comment_operation \<Rightarrow> account_object \<Rightarrow> comment_object option \<Rightarrow> database res" where
  "post_comment db o1 auth parent =
     (let now = head_block_time db; is_root = (cm_parent_author o1 = []) in
      bindE (case parent of None \<Rightarrow> Inr ()
             | Some p \<Rightarrow> bindE (get_comment_id db (co_root_comment p)) (\<lambda>r. fc_assert 585 (co_allow_replies r) (Inr ()))) (\<lambda>_.
      fc_assert (if is_root then 589 else 591)
        (if is_root then now - ac_last_root_post auth > STEEM_MIN_ROOT_COMMENT_INTERVAL
         else now - ac_last_post auth \<ge> STEEM_MIN_REPLY_INTERVAL)
      (bindE (modify_account db (cm_author o1) (count_post is_root now)) (\<lambda>db.
       bindE (create_comment db o1 parent) (\<lambda>(db, i).
       bindE (create_content db o1 i) (\<lambda>db.
       case parent of None \<Rightarrow> Inr db
       | Some p \<Rightarrow> touch_ancestors (ancestor_fuel p) now 1 (co_id p) db))))))"

definition edit_body :: "(string \<Rightarrow> string \<Rightarrow> string option) \<Rightarrow> string \<Rightarrow> string \<Rightarrow> string" where
  "edit_body dmp body old =
     (case dmp body old of None \<Rightarrow> body
      | Some patched \<Rightarrow> if is_utf8 patched then patched else prune_invalid_utf8 patched)"

definition edit_comment ::
  "(string \<Rightarrow> string \<Rightarrow> string option) \<Rightarrow> database \<Rightarrow> comment_operation \<Rightarrow> comment_object option \<Rightarrow> comment_object \<Rightarrow> database res" where
  "edit_comment dmp db o1 parent comment =
     bindE (modify_comment db (co_id comment) (\<lambda>com.
       fc_assert (if parent = None then 684 else 689)
         (co_parent_author com = (if parent = None then [] else cm_parent_author o1))
       (fc_assert (if parent = None then 685 else 690) (strcmp_equal (co_parent_permlink com) (cm_parent_permlink o1))
       (Inr (com\<lparr> co_last_update := head_block_time db, co_active := head_block_time db \<rparr>))))) (\<lambda>db.
     bindE (tbl_modify (\<lambda>con. cc_comment con = co_id comment) (\<lambda>con. Inr (con\<lparr>
         cc_title := (if cm_title o1 \<noteq> [] then cm_title o1 else cc_title con),
         cc_json_metadata := (if cm_json_metadata o1 \<noteq> [] then cm_json_metadata o1 else cc_json_metadata con),
         cc_body := (if cm_body o1 \<noteq> [] then edit_body dmp (cm_body o1) (cc_body con) else cc_body con) \<rparr>))
       (db_comment_contents db)) (\<lambda>t.
     Inr (db\<lparr> db_comment_contents := t \<rparr>)))"

definition comment_do_apply ::
  "(string \<Rightarrow> string \<Rightarrow> string option) \<Rightarrow> database \<Rightarrow> comment_operation \<Rightarrow> database res" where
  "comment_do_apply dmp db o1 =
     fc_assert 561 (length (cm_title o1) + length (cm_body o1) + length (cm_json_metadata o1) \<noteq> 0)
     (let itr = tbl_find (\<lambda>c. co_author c = cm_author o1 \<and> co_permlink c = cm_permlink o1) (db_comments db) in
      bindE (get_account db (cm_author o1)) (\<lambda>auth.
      bindE (if cm_parent_author o1 \<noteq> [] then
               bindE (get_comment db (cm_parent_author o1) (cm_parent_permlink o1)) (\<lambda>p.
               fc_assert 574 (co_depth p < STEEM_MAX_COMMENT_DEPTH) (Inr (Some p)))
             else Inr None) (\<lambda>parent.
      fc_assert 577 (is_utf8 (cm_json_metadata o1))
      (case itr of None \<Rightarrow> post_comment db o1 auth parent
       | Some comment \<Rightarrow> edit_comment dmp db o1 parent comment))))"

section \<open>Options and deletion\<close>

definition add_beneficiaries :: "nat \<Rightarrow> beneficiary_route_type list \<Rightarrow> database \<Rightarrow> database res" where
  "add_beneficiaries i bs db =
     bindE (get_comment_id db i) (\<lambda>c.
     fc_assert 513 (co_beneficiaries c = [])
     (fc_assert 514 (co_abs_rshares c = 0)
     (bindE (foldE (\<lambda>b _. fc_assert 522 (find_account db (br_account b) \<noteq> None) (Inr ())) bs ()) (\<lambda>_.
      modify_comment db i (\<lambda>c. Inr (c\<lparr> co_beneficiaries := co_beneficiaries c @ bs \<rparr>))))))"

definition comment_options_do_apply :: "database \<Rightarrow> comment_options_operation \<Rightarrow> database res" where
  "comment_options_do_apply db o1 =
     bindE (get_comment db (cop_author o1) (cop_permlink o1)) (\<lambda>comment.
     bindE (asset_lt (cop_max_accepted_payout o1) (co_max_accepted_payout comment)) (\<lambda>less.
     fc_assert 539 (\<not> cop_allow_curation_rewards o1 \<or> \<not> cop_allow_votes o1 \<or> less \<longrightarrow> co_abs_rshares comment = 0)
     (fc_assert 541 (cop_allow_curation_rewards o1 \<longrightarrow> co_allow_curation_rewards comment)
     (fc_assert 542 (cop_allow_votes o1 \<longrightarrow> co_allow_votes comment)
     (bindE (asset_ge (co_max_accepted_payout comment) (cop_max_accepted_payout o1)) (\<lambda>ge.
      fc_assert 543 ge
      (fc_assert 544 (co_percent_steem_dollars comment \<ge> cop_percent_steem_dollars o1)
      (bindE (modify_comment db (co_id comment) (\<lambda>c. Inr (c\<lparr> co_max_accepted_payout := cop_max_accepted_payout o1,
           co_percent_steem_dollars := cop_percent_steem_dollars o1, co_allow_votes := cop_allow_votes o1,
           co_allow_curation_rewards := cop_allow_curation_rewards o1 \<rparr>))) (\<lambda>db.
       foldE (add_beneficiaries (co_id comment)) (cop_extensions o1) db)))))))))"

definition delete_comment_do_apply :: "database \<Rightarrow> delete_comment_operation \<Rightarrow> database res" where
  "delete_comment_do_apply db o1 =
     bindE (get_comment db (dc_author o1) (dc_permlink o1)) (\<lambda>comment.
     fc_assert 462 (co_children comment = 0)
     (fc_assert 464 (co_cashout_time comment \<noteq> time_maximum)
     (fc_assert 466 (co_net_rshares comment \<le> 0)
     (let db = db\<lparr> db_comment_votes := fold tbl_erase
            (filter (\<lambda>v. cv_comment v = co_id comment) (sort_key cv_voter (rows (db_comment_votes db)))) (db_comment_votes db) \<rparr> in
      bindE (if co_parent_author comment \<noteq> [] then
               bindE (get_comment db (co_parent_author comment) (co_parent_permlink comment)) (\<lambda>p.
               touch_ancestors (ancestor_fuel p) (head_block_time db) (-1) (co_id p) db)
             else Inr db) (\<lambda>db.
      Inr (db\<lparr> db_comments := tbl_remove (\<lambda>c. co_id c = co_id comment) (db_comments db) \<rparr>))))))"

section \<open>Votes\<close>

definition vote_clash :: "comment_vote_object \<Rightarrow> comment_vote_object \<Rightarrow> bool" where
  "vote_clash x y \<longleftrightarrow> cv_comment x = cv_comment y \<and> cv_voter x = cv_voter y"

definition is_vote :: "comment_object \<Rightarrow> account_object \<Rightarrow> comment_vote_object \<Rightarrow> bool" where
  "is_vote c a v \<longleftrightarrow> cv_comment v = co_id c \<and> cv_voter v = ac_id a"

definition create_vote :: "database \<Rightarrow> (nat \<Rightarrow> comment_vote_object) \<Rightarrow> database res" where
  "create_vote db mk = bindE (tbl_create vote_clash mk (db_comment_votes db)) (\<lambda>t. Inr (db\<lparr> db_comment_votes := t \<rparr>))"

definition modify_vote ::
  "database \<Rightarrow> comment_object \<Rightarrow> account_object \<Rightarrow> (comment_vote_object \<Rightarrow> comment_vote_object) \<Rightarrow> database res" where
  "modify_vote db c a f =
     bindE (tbl_modify (is_vote c a) (\<lambda>v. Inr (f v)) (db_comment_votes db)) (\<lambda>t. Inr (db\<lparr> db_comment_votes := t \<rparr>))"

text \<open>A vote on a post that has been paid is only recorded.\<close>

definition record_late_vote ::
  "database \<Rightarrow> vote_operation \<Rightarrow> comment_object \<Rightarrow> account_object \<Rightarrow> comment_vote_object option \<Rightarrow> database res" where
  "record_late_vote db o1 comment voter itr =
     (case itr of
        None \<Rightarrow> create_vote db (\<lambda>i. \<lparr> cv_id = i, cv_voter = ac_id voter, cv_comment = co_id comment, cv_weight = 0,
          cv_rshares = 0, cv_vote_percent = vo_weight o1, cv_last_update = head_block_time db, cv_num_changes = 0 \<rparr>)
      | Some v \<Rightarrow> modify_vote db comment voter (\<lambda>cv. cv\<lparr> cv_vote_percent := vo_weight o1, cv_last_update := head_block_time db \<rparr>))"

text \<open>The voting power of the voter, what the vote uses of it, and the rshares it is worth.\<close>

definition vote_power :: "database \<Rightarrow> account_object \<Rightarrow> int \<Rightarrow> (int \<times> int \<times> int) res" where
  "vote_power db voter weight =
     bindE (get_effective_vesting_shares voter VESTS_SYMBOL) (\<lambda>ev.
     let effective_vesting = amount ev in
     fc_assert 1164 (effective_vesting > STEEM_MIN_VOTE_VESTING_SHARES)
     (let elapsed_seconds = head_block_time db - ac_last_vote_time voter in
      fc_assert 1170 (elapsed_seconds \<ge> STEEM_MIN_VOTE_INTERVAL_SEC)
      (let regenerated_power = STEEM_100_PERCENT * elapsed_seconds div STEEM_VOTE_REGENERATION_SECONDS;
           current_power = min (ac_voting_power voter + regenerated_power) STEEM_100_PERCENT in
       fc_assert 1174 (current_power > 0)
       (let abs_weight = \<bar>weight\<bar>;
            used_power = current_power * abs_weight div STEEM_100_PERCENT * 86400;
            max_vote_denom = to_uint32 (dgp_vote_power_reserve_rate (db_dgp db) * STEEM_VOTE_REGENERATION_SECONDS) in
        fc_assert 1183 (max_vote_denom > 0)
        (let used_power = (used_power + max_vote_denom - 1) div max_vote_denom in
         fc_assert 1186 (used_power \<le> current_power)
         (let r = to_uint128 (to_uint128 effective_vesting * used_power) div STEEM_100_PERCENT in
          fc_assert 97 (r < two64)
          (Inr (current_power, used_power, max 0 (to_int64 r - STEEM_VOTE_DUST_THRESHOLD)))))))))"

definition spend_power :: "time_point_sec \<Rightarrow> int \<Rightarrow> account_object \<Rightarrow> account_object res" where
  "spend_power now left a = Inr (a\<lparr> ac_voting_power := to_uint16 left, ac_last_vote_time := now \<rparr>)"

text \<open>The curation weight of a new vote: the growth of the curve, and the part that is left after the
  reverse auction.\<close>

definition curve_weight :: "reward_fund_object \<Rightarrow> int \<Rightarrow> int res" where
  "curve_weight rf rshares =
     bindE (evaluate_reward_curve (to_uint128 rshares) (rf_curation_reward_curve rf) (rf_content_constant rf)) (\<lambda>w.
     fc_assert 97 (w < two64) (Inr w))"

definition vote_weight ::
  "database \<Rightarrow> comment_object \<Rightarrow> int \<Rightarrow> int \<Rightarrow> time_point_sec \<Rightarrow> (int \<times> int) res" where
  "vote_weight db comment rshares old_vote_rshares now =
     bindE (if rshares > 0 \<and> co_last_payout comment = 0 \<and> co_allow_curation_rewards comment
            then bindE (get_curation_rewards_percent db comment) (\<lambda>p. Inr (p > 0)) else Inr False) (\<lambda>curation_reward_eligible.
     if curation_reward_eligible then
       bindE (get_reward_fund db comment) (\<lambda>reward_fund.
       bindE (curve_weight reward_fund old_vote_rshares) (\<lambda>old_weight.
       bindE (curve_weight reward_fund (co_vote_rshares comment)) (\<lambda>new_weight.
       let max_vote_weight = to_uint64 (new_weight - old_weight);
           delta_t = min (to_uint64 (now - co_created comment)) STEEM_REVERSE_AUCTION_WINDOW_SECONDS;
           w = to_uint128 (max_vote_weight * delta_t) div STEEM_REVERSE_AUCTION_WINDOW_SECONDS
       in fc_assert 97 (w < two64) (Inr (w, max_vote_weight)))))
     else Inr (0, 0))"

definition count_vote :: "int \<Rightarrow> int \<Rightarrow> comment_object \<Rightarrow> comment_object res" where
  "count_vote rshares abs_rshares c =
     bindE (safe_add (co_net_rshares c) rshares) (\<lambda>n.
     bindE (safe_add (co_abs_rshares c) abs_rshares) (\<lambda>a.
     bindE (if rshares > 0 then safe_add (co_vote_rshares c) rshares else Inr (co_vote_rshares c)) (\<lambda>v.
     Inr (c\<lparr> co_net_rshares := n, co_abs_rshares := a, co_vote_rshares := v,
             co_net_votes := (if rshares > 0 then co_net_votes c + 1 else co_net_votes c - 1) \<rparr>))))"

definition count_discussion :: "int \<Rightarrow> comment_object \<Rightarrow> comment_object res" where
  "count_discussion abs_rshares c =
     bindE (safe_add (co_children_abs_rshares c) abs_rshares) (\<lambda>x. Inr (c\<lparr> co_children_abs_rshares := x \<rparr>))"

definition first_vote ::
  "database \<Rightarrow> vote_operation \<Rightarrow> comment_object \<Rightarrow> account_object \<Rightarrow> int \<times> int \<times> int \<Rightarrow> database res" where
  "first_vote db o1 comment voter = (\<lambda>(current_power, used_power, abs_rshares).
     fc_assert 1201 (vo_weight o1 \<noteq> 0)
     (let now = head_block_time db; rshares = (if vo_weight o1 < 0 then - abs_rshares else abs_rshares) in
      fc_assert 1207 (rshares > 0 \<longrightarrow> now < co_cashout_time comment - STEEM_UPVOTE_LOCKOUT)
      (bindE (modify_account db (ac_name voter) (spend_power now (current_power - used_power))) (\<lambda>db.
       bindE (get_comment_id db (co_root_comment comment)) (\<lambda>root.
       fc_assert 1222 (abs_rshares > 0)
       (bindE (modify_comment db (co_id comment) (count_vote rshares abs_rshares)) (\<lambda>db.
        bindE (modify_comment db (co_id root) (count_discussion abs_rshares)) (\<lambda>db.
        bindE (get_comment_id db (co_id comment)) (\<lambda>c.
        bindE (vote_weight db c rshares (co_vote_rshares comment) now) (\<lambda>(weight, max_vote_weight).
        bindE (create_vote db (\<lambda>i. \<lparr> cv_id = i, cv_voter = ac_id voter, cv_comment = co_id comment, cv_weight = weight,
          cv_rshares = rshares, cv_vote_percent = vo_weight o1, cv_last_update = now, cv_num_changes = 0 \<rparr>)) (\<lambda>db.
        if max_vote_weight \<noteq> 0 then
          modify_comment db (co_id comment) (\<lambda>c.
            Inr (c\<lparr> co_total_vote_weight := to_uint64 (co_total_vote_weight c + max_vote_weight) \<rparr>))
        else Inr db)))))))))))"

definition net_votes_change :: "int \<Rightarrow> int \<Rightarrow> int" where
  "net_votes_change rshares old =
     (if rshares > 0 \<and> old < 0 then 2 else if rshares > 0 \<and> old = 0 then 1
      else if rshares = 0 \<and> old < 0 then 1 else if rshares = 0 \<and> old > 0 then -1
      else if rshares < 0 \<and> old = 0 then -1 else if rshares < 0 \<and> old > 0 then -2 else 0)"

definition recount_vote :: "int \<Rightarrow> int \<Rightarrow> int \<Rightarrow> comment_object \<Rightarrow> comment_object res" where
  "recount_vote rshares abs_rshares old c =
     bindE (safe_sub (co_net_rshares c) old) (\<lambda>n.
     bindE (safe_add n rshares) (\<lambda>n.
     bindE (safe_add (co_abs_rshares c) abs_rshares) (\<lambda>a.
     Inr (c\<lparr> co_net_rshares := n, co_abs_rshares := a, co_net_votes := co_net_votes c + net_votes_change rshares old \<rparr>))))"

definition change_vote ::
  "database \<Rightarrow> vote_operation \<Rightarrow> comment_object \<Rightarrow> account_object \<Rightarrow> comment_vote_object \<Rightarrow> int \<times> int \<times> int \<Rightarrow> database res" where
  "change_vote db o1 comment voter itr = (\<lambda>(current_power, used_power, abs_rshares).
     fc_assert 1315 (cv_num_changes itr < STEEM_MAX_VOTE_CHANGES)
     (fc_assert 1317 (cv_vote_percent itr \<noteq> vo_weight o1)
     (let now = head_block_time db; rshares = (if vo_weight o1 < 0 then - abs_rshares else abs_rshares) in
      fc_assert 1324 (cv_rshares itr < rshares \<longrightarrow> now < co_cashout_time comment - STEEM_UPVOTE_LOCKOUT)
      (bindE (modify_account db (ac_name voter) (spend_power now (current_power - used_power))) (\<lambda>db.
       bindE (get_comment_id db (co_root_comment comment)) (\<lambda>root.
       bindE (modify_comment db (co_id comment) (recount_vote rshares abs_rshares (cv_rshares itr))) (\<lambda>db.
       bindE (modify_comment db (co_id root) (count_discussion abs_rshares)) (\<lambda>db.
       bindE (modify_comment db (co_id comment) (\<lambda>c.
         Inr (c\<lparr> co_total_vote_weight := to_uint64 (co_total_vote_weight c - cv_weight itr) \<rparr>))) (\<lambda>db.
       modify_vote db comment voter (\<lambda>cv. cv\<lparr> cv_rshares := rshares, cv_vote_percent := vo_weight o1,
         cv_last_update := now, cv_weight := 0, cv_num_changes := cv_num_changes cv + 1 \<rparr>))))))))))"

definition vote_do_apply :: "database \<Rightarrow> vote_operation \<Rightarrow> database res" where
  "vote_do_apply db o1 =
     bindE (get_comment db (vo_author o1) (vo_permlink o1)) (\<lambda>comment.
     bindE (get_account db (vo_voter o1)) (\<lambda>voter.
     fc_assert 1134 (ac_can_vote voter)
     (fc_assert 1137 (vo_weight o1 > 0 \<longrightarrow> co_allow_votes comment)
     (let itr = tbl_find (is_vote comment voter) (db_comment_votes db) in
      if co_cashout_time comment = time_maximum then record_late_vote db o1 comment voter itr
      else
        bindE (vote_power db voter (vo_weight o1)) (\<lambda>pw.
        case itr of
          None \<Rightarrow> first_vote db o1 comment voter pw
        | Some v \<Rightarrow>
            fc_assert 1196 (cv_num_changes v \<noteq> -1) (change_vote db o1 comment voter v pw))))))"

section \<open>Custom operations\<close>

text \<open>\<open>interp\<close> is the interpreter registered for the id of the operation, if any.\<close>

definition run_interpreter :: "bool \<Rightarrow> (database \<Rightarrow> database res) option \<Rightarrow> database \<Rightarrow> database res" where
  "run_interpreter producing interp db =
     (case interp of None \<Rightarrow> Inr db
      | Some eval \<Rightarrow>
          (case eval db of Inr db' \<Rightarrow> Inr db' | Inl e \<Rightarrow> if producing then Inl e else Inr db))"

definition custom_do_apply :: "bool \<Rightarrow> database \<Rightarrow> custom_operation \<Rightarrow> database res" where
  "custom_do_apply producing db o1 =
     fc_assert 1390 (producing \<longrightarrow> length (cu_data o1) \<le> 8192)
     (fc_assert 1392 (length (cu_required_auths o1) \<le> STEEM_MAX_AUTHORITY_MEMBERSHIP) (Inr db))"

definition custom_json_do_apply ::
  "(string \<Rightarrow> (custom_json_operation \<Rightarrow> database \<Rightarrow> database res) option) \<Rightarrow> bool \<Rightarrow> database \<Rightarrow> custom_json_operation \<Rightarrow> database res" where
  "custom_json_do_apply interp producing db o1 =
     fc_assert 1400 (producing \<longrightarrow> length (cj_json o1) \<le> 8192)
     (fc_assert 1403 (length (cj_required_auths o1) + length (cj_required_posting_auths o1) \<le> STEEM_MAX_AUTHORITY_MEMBERSHIP)
     (run_interpreter producing (map_option (\<lambda>f. f o1) (interp (cj_id o1))) db))"

definition custom_binary_do_apply ::
  "(string \<Rightarrow> (custom_binary_operation \<Rightarrow> database \<Rightarrow> database res) option) \<Rightarrow> bool \<Rightarrow> database \<Rightarrow> custom_binary_operation \<Rightarrow> database res" where
  "custom_binary_do_apply interp producing db o1 =
     fc_assert 1430 (producing \<longrightarrow> length (cb_data o1) \<le> 8192)
     (fc_assert 1431 (\<not> producing)
     (fc_assert 1440 (length (cb_required_owner_auths o1) + length (cb_required_active_auths o1)
          + length (cb_required_posting_auths o1)
          + sum_list (map (\<lambda>a. length (key_auths a) + length (account_auths a)) (cb_required_auths o1))
          \<le> STEEM_MAX_AUTHORITY_MEMBERSHIP)
     (run_interpreter producing (map_option (\<lambda>f. f o1) (interp (cb_id o1))) db)))"

section \<open>The forest of posts\<close>

text \<open>What a post contributes to the structure of the discussions.\<close>

record node =
  n_id :: nat
  n_key :: "account_name_type \<times> string"
  n_parent :: "account_name_type \<times> string"
  n_depth :: int

definition node_of :: "comment_object \<Rightarrow> node" where
  "node_of c = \<lparr> n_id = co_id c, n_key = (co_author c, co_permlink c),
     n_parent = (co_parent_author c, co_parent_permlink c), n_depth = co_depth c \<rparr>"

definition parent_in :: "node list \<Rightarrow> node \<Rightarrow> node option" where
  "parent_in S x = (if fst (n_parent x) = [] then None else List.find (\<lambda>p. n_key p = n_parent x) S)"

fun ancestors_upto :: "nat \<Rightarrow> node list \<Rightarrow> node \<Rightarrow> nat list" where
  "ancestors_upto 0 S x = []"
| "ancestors_upto (Suc k) S x = (case parent_in S x of None \<Rightarrow> [] | Some p \<Rightarrow> n_id p # ancestors_upto k S p)"

definition ancestors :: "node list \<Rightarrow> node \<Rightarrow> nat list" where
  "ancestors S x = ancestors_upto (nat (n_depth x)) S x"

definition node_ok :: "node list \<Rightarrow> node \<Rightarrow> bool" where
  "node_ok S x \<longleftrightarrow>
     (if fst (n_parent x) = [] then n_depth x = 0
      else (case parent_in S x of None \<Rightarrow> False | Some p \<Rightarrow> 0 \<le> n_depth p \<and> n_depth x = n_depth p + 1))"

definition forest :: "node list \<Rightarrow> bool" where
  "forest S \<longleftrightarrow> distinct (map n_id S) \<and> distinct (map n_key S) \<and> list_all (node_ok S) S"

definition descendants :: "node list \<Rightarrow> nat \<Rightarrow> int" where
  "descendants S i = int (length (filter (\<lambda>x. i \<in> set (ancestors S x)) S))"

lemma parent_in_mem: "parent_in S x = Some p \<Longrightarrow> p \<in> set S \<and> n_key p = n_parent x"
  by (auto simp: parent_in_def split: if_splits dest: find_in_set)

lemma ancestors_root: "node_ok S x \<Longrightarrow> fst (n_parent x) = [] \<Longrightarrow> ancestors S x = []"
  by (simp add: ancestors_def node_ok_def)

lemma ancestors_reply:
  assumes "node_ok S x" "parent_in S x = Some p"
  shows "ancestors S x = n_id p # ancestors S p"
proof -
  from assms have d: "n_depth x = n_depth p + 1" "0 \<le> n_depth p"
    by (auto simp: node_ok_def parent_in_def split: if_splits)
  then have "nat (n_depth x) = Suc (nat (n_depth p))" by (simp add: nat_add_distrib)
  with assms(2) show ?thesis by (simp add: ancestors_def)
qed

text \<open>Every ancestor is a post of the forest and lies higher.\<close>

lemma ancestors_higher:
  assumes "forest S" "x \<in> set S" "i \<in> set (ancestors S x)"
  shows "\<exists>y\<in>set S. n_id y = i \<and> n_depth y < n_depth x"
  using assms(2,3)
proof (induction "nat (n_depth x)" arbitrary: x)
  case 0
  then show ?case by (simp add: ancestors_def)
next
  case (Suc n)
  have ok: "node_ok S x" using assms(1) Suc.prems(1) by (simp add: forest_def list_all_iff)
  show ?case
  proof (cases "parent_in S x")
    case None
    with Suc.prems(2) have "nat (n_depth x) = 0 \<or> False" by (cases "nat (n_depth x)") (auto simp: ancestors_def)
    with Suc.hyps(2) show ?thesis by simp
  next
    case (Some p)
    note p = parent_in_mem[OF Some]
    have d: "n_depth x = n_depth p + 1" "0 \<le> n_depth p"
      using ok Some by (auto simp: node_ok_def parent_in_def split: if_splits)
    with Suc.hyps(2) have n: "n = nat (n_depth p)" by simp
    from Suc.prems(2) ancestors_reply[OF ok Some] consider "i = n_id p" | "i \<in> set (ancestors S p)" by auto
    then show ?thesis
    proof cases
      case 2
      from Suc.hyps(1)[OF n conjunct1[OF p] 2] d show ?thesis by fastforce
    qed (use p d in auto)
  qed
qed

lemma not_own_ancestor:
  assumes "forest S" "x \<in> set S"
  shows "n_id x \<notin> set (ancestors S x)"
proof
  assume "n_id x \<in> set (ancestors S x)"
  from ancestors_higher[OF assms this] obtain y where y: "y \<in> set S" "n_id y = n_id x" "n_depth y < n_depth x" by blast
  have "distinct (map n_id S)" using assms(1) by (simp add: forest_def)
  then have "x = y" using y(1,2) assms(2) by (auto simp: distinct_map dest: inj_onD)
  with y(3) show False by simp
qed

lemma parent_in_append:
  assumes "parent_in S y = Some p"
  shows "parent_in (S @ T) y = Some p"
  using assms by (auto simp: parent_in_def find_append split: if_splits)

lemma ancestors_append:
  assumes "list_all (node_ok S) S" "node_ok S y"
  shows "ancestors (S @ T) y = ancestors S y \<and> node_ok (S @ T) y"
  using assms(2)
proof (induction "nat (n_depth y)" arbitrary: y)
  case 0
  then show ?case
    by (auto simp: ancestors_def node_ok_def dest: parent_in_append split: option.splits if_splits)
next
  case (Suc n)
  then have "fst (n_parent y) \<noteq> []" by (auto simp: node_ok_def)
  with Suc.prems obtain p where p: "parent_in S y = Some p" "0 \<le> n_depth p" "n_depth y = n_depth p + 1"
    by (auto simp: node_ok_def split: option.splits)
  have "node_ok S p" using parent_in_mem[OF p(1)] assms(1) by (simp add: list_all_iff)
  moreover have "n = nat (n_depth p)" using Suc.hyps(2) p by simp
  ultimately have ih: "ancestors (S @ T) p = ancestors S p" using Suc.hyps(1) by simp
  have ok: "node_ok (S @ T) y"
    using \<open>fst (n_parent y) \<noteq> []\<close> p parent_in_append[OF p(1)] by (simp add: node_ok_def)
  with ih ancestors_reply[OF Suc.prems p(1)] ancestors_reply[OF ok parent_in_append[OF p(1)]] show ?case by simp
qed

definition nodes :: "database \<Rightarrow> node list" where
  "nodes db = map node_of (rows (db_comments db))"

text \<open>The invariant of the posts: they form a forest, and every post counts its descendants.\<close>

definition comments_ok :: "database \<Rightarrow> bool" where
  "comments_ok db \<longleftrightarrow> forest (nodes db) \<and> list_all (\<lambda>x. n_id x < next_id (db_comments db)) (nodes db) \<and>
     list_all (\<lambda>c. co_children c = descendants (nodes db) (co_id c)) (rows (db_comments db))"

lemma node_of_simps [simp]: "n_id (node_of c) = co_id c" "n_depth (node_of c) = co_depth c"
  "n_key (node_of c) = (co_author c, co_permlink c)" "n_parent (node_of c) = (co_parent_author c, co_parent_permlink c)"
  by (simp_all add: node_of_def)

lemma forest_distinct:
  assumes "forest (nodes db)"
  shows "distinct (map co_id (rows (db_comments db)))"
    and "distinct (map (\<lambda>c. (co_author c, co_permlink c)) (rows (db_comments db)))"
    and "\<And>c. c \<in> set (rows (db_comments db)) \<Longrightarrow> node_ok (nodes db) (node_of c)"
  using assms by (auto simp: forest_def nodes_def o_def list_all_iff)

lemma get_comment_forest:
  assumes "forest (nodes db)" "c \<in> set (rows (db_comments db))"
  shows "get_comment db (co_author c) (co_permlink c) = Inr c" and "get_comment_id db (co_id c) = Inr c"
  using find_distinct[OF forest_distinct(2)[OF assms(1)] assms(2)] find_distinct[OF forest_distinct(1)[OF assms(1)] assms(2)]
  by (simp_all add: get_comment_def get_comment_id_def tbl_get_Inr tbl_find_def)

lemma get_comment_mem:
  "get_comment db a p = Inr c \<Longrightarrow> c \<in> set (rows (db_comments db)) \<and> co_author c = a \<and> co_permlink c = p"
  by (auto simp: get_comment_def tbl_get_Inr dest: tbl_find_Some)

text \<open>The effect of the walk on the rows it visits.\<close>

definition touch_rows :: "nat set \<Rightarrow> time_point_sec \<Rightarrow> int \<Rightarrow> comment_object list \<Rightarrow> comment_object list" where
  "touch_rows I now d = map (\<lambda>c. if co_id c \<in> I
     then c\<lparr> co_children := to_uint32 (co_children c + d), co_active := now \<rparr> else c)"

definition touched :: "nat set \<Rightarrow> time_point_sec \<Rightarrow> int \<Rightarrow> database \<Rightarrow> database" where
  "touched I now d db = db\<lparr> db_comments := (db_comments db)\<lparr> rows := touch_rows I now d (rows (db_comments db)) \<rparr> \<rparr>"

lemma touch_rows_twice:
  "i \<notin> I \<Longrightarrow> touch_rows I now d (touch_rows {i} now d xs) = touch_rows (insert i I) now d xs"
  by (auto simp: touch_rows_def)

lemma touched_twice: "i \<notin> I \<Longrightarrow> touched I now d (touched {i} now d db) = touched (insert i I) now d db"
  by (simp add: touched_def touch_rows_twice)

lemma nodes_touched [simp]: "nodes (touched I now d db) = nodes db"
  by (auto simp: nodes_def touched_def touch_rows_def node_of_def)

lemma modify_touched:
  assumes "forest (nodes db)" "p \<in> set (rows (db_comments db))"
  shows "modify_comment db (co_id p) (\<lambda>p. Inr (p\<lparr> co_children := to_uint32 (co_children p + d), co_active := now \<rparr>))
    = Inr (touched {co_id p} now d db)"
  by (simp add: modify_comment_def tbl_modify_def touched_def touch_rows_def
      modify_first_map[OF forest_distinct(1)[OF assms(1)] assms(2) refl])

lemma touched_row:
  assumes "c \<in> set (rows (db_comments db))"
  shows "\<exists>c' \<in> set (rows (db_comments (touched I now d db))). node_of c' = node_of c"
proof -
  have "node_of c \<in> set (nodes (touched I now d db))" unfolding nodes_touched using assms by (simp add: nodes_def)
  then show ?thesis by (auto simp: nodes_def)
qed

lemma parent_row:
  assumes "forest (nodes db)" "c \<in> set (rows (db_comments db))" "co_parent_author c \<noteq> []"
  obtains q where "q \<in> set (rows (db_comments db))" "parent_in (nodes db) (node_of c) = Some (node_of q)"
    "co_author q = co_parent_author c" "co_permlink q = co_parent_permlink c" "0 \<le> co_depth q" "co_depth c = co_depth q + 1"
proof -
  have "node_ok (nodes db) (node_of c)" using forest_distinct(3)[OF assms(1,2)] .
  with assms(3) obtain x where x: "parent_in (nodes db) (node_of c) = Some x" "0 \<le> n_depth x" "co_depth c = n_depth x + 1"
    by (auto simp: node_ok_def split: option.splits)
  from parent_in_mem[OF x(1)] obtain q where "q \<in> set (rows (db_comments db))" "x = node_of q"
    "n_key x = (co_parent_author c, co_parent_permlink c)" by (auto simp: nodes_def)
  with x that show thesis by auto
qed

text \<open>The fuel is enough: the walk from a post returns, and it visits the post and its ancestors.\<close>

lemma touch_ancestors_run:
  assumes "forest (nodes db)" "p \<in> set (rows (db_comments db))"
  shows "touch_ancestors (ancestor_fuel p) now d (co_id p) db =
    Inr (touched (set (co_id p # ancestors (nodes db) (node_of p))) now d db)"
  using assms
proof (induction "nat (co_depth p)" arbitrary: p db rule: less_induct)
  case less
  note f = less.prems(1) and p = less.prems(2)
  let ?db = "touched {co_id p} now d db"
  have f1: "forest (nodes ?db)" using f by simp
  from touched_row[OF p, of "{co_id p}" now d] obtain p1 where p1: "p1 \<in> set (rows (db_comments ?db))" "node_of p1 = node_of p" by blast
  then have i1: "co_id p1 = co_id p" "co_parent_author p1 = co_parent_author p" "co_parent_permlink p1 = co_parent_permlink p"
    by (auto simp: node_of_def)
  have g1: "get_comment_id ?db (co_id p) = Inr p1" using get_comment_forest(2)[OF f1 p1(1)] i1 by simp
  note step = modify_touched[OF f p] g1 i1 ancestor_fuel_def
  show ?case
  proof (cases "co_parent_author p = []")
    case True
    then show ?thesis using forest_distinct(3)[OF f p] by (simp add: step ancestors_root)
  next
    case False
    from parent_row[OF f p False] obtain q0 where q0: "q0 \<in> set (rows (db_comments db))" "parent_in (nodes db) (node_of p) = Some (node_of q0)"
      "co_author q0 = co_parent_author p" "co_permlink q0 = co_parent_permlink p" "0 \<le> co_depth q0" "co_depth p = co_depth q0 + 1" by blast
    from touched_row[OF q0(1), of "{co_id p}" now d] obtain q where q: "q \<in> set (rows (db_comments ?db))" "node_of q = node_of q0" by blast
    then have iq: "co_id q = co_id q0" "co_author q = co_parent_author p" "co_permlink q = co_parent_permlink p" "co_depth q = co_depth q0"
      using q0 by (auto simp: node_of_def)
    have anc: "ancestors (nodes db) (node_of p) = co_id q0 # ancestors (nodes db) (node_of q0)"
      using ancestors_reply[OF forest_distinct(3)[OF f p] q0(2)] by simp
    have fuel: "ancestor_fuel p = Suc (ancestor_fuel q)" using q0(5,6) iq(4) by (simp add: ancestor_fuel_def nat_add_distrib)
    have "nat (co_depth q) < nat (co_depth p)" using q0(5,6) iq(4) by simp
    from less.hyps[OF this f1 q(1)] have
      ih: "touch_ancestors (ancestor_fuel q) now d (co_id q) ?db = Inr (touched (set (ancestors (nodes db) (node_of p))) now d ?db)"
      using q(2) iq(1) anc by simp
    have g2: "get_comment ?db (co_parent_author p) (co_parent_permlink p) = Inr q" using get_comment_forest(1)[OF f1 q(1)] iq by simp
    have "co_id p \<notin> set (ancestors (nodes db) (node_of p))"
      using not_own_ancestor[OF f, of "node_of p"] p by (simp add: nodes_def)
    with False show ?thesis by (simp add: fuel modify_touched[OF f p] g1 i1 g2 ih touched_twice)
  qed
qed

lemma node_ok_depth: "node_ok S x \<Longrightarrow> 0 \<le> n_depth x"
  by (auto simp: node_ok_def split: if_splits option.splits)

lemma ancestors_ids: "forest S \<Longrightarrow> x \<in> set S \<Longrightarrow> i \<in> set (ancestors S x) \<Longrightarrow> i \<in> n_id ` set S"
  using ancestors_higher by fastforce

lemma forest_snoc:
  assumes f: "forest S" and id: "n_id x \<notin> n_id ` set S" and key: "n_key x \<notin> n_key ` set S" and ok: "node_ok S x"
  shows "forest (S @ [x])"
    and "\<And>i. descendants (S @ [x]) i = descendants S i + (if i \<in> set (ancestors S x) then 1 else 0)"
proof -
  have S: "list_all (node_ok S) S" "distinct (map n_id S)" "distinct (map n_key S)" using f by (auto simp: forest_def)
  have a: "ancestors (S @ [x]) y = ancestors S y \<and> node_ok (S @ [x]) y" if "y \<in> set S \<or> y = x" for y
    using ancestors_append[OF S(1), of y "[x]"] that ok S(1) by (auto simp: list_all_iff)
  show "forest (S @ [x])" using S id key a by (simp add: forest_def list_all_iff)
  have "filter (\<lambda>y. i \<in> set (ancestors (S @ [x]) y)) S = filter (\<lambda>y. i \<in> set (ancestors S y)) S" for i
    using a by (intro filter_cong) auto
  then show "\<And>i. descendants (S @ [x]) i = descendants S i + (if i \<in> set (ancestors S x) then 1 else 0)"
    using a[of x] by (simp add: descendants_def)
qed

lemma descendants_fresh:
  assumes "forest S" "i \<notin> n_id ` set S"
  shows "descendants S i = 0"
  using ancestors_ids[OF assms(1)] assms(2) by (auto simp: descendants_def filter_empty_conv)

lemma descendants_bound: "0 \<le> descendants S i" "descendants S i \<le> int (length S)"
  by (simp_all add: descendants_def)

lemma descendants_none: "descendants S i = 0 \<Longrightarrow> y \<in> set S \<Longrightarrow> i \<notin> set (ancestors S y)"
  by (auto simp: descendants_def filter_empty_conv)

lemma descendants_some: "y \<in> set S \<Longrightarrow> i \<in> set (ancestors S y) \<Longrightarrow> 1 \<le> descendants S i"
  using descendants_none[of S i y] descendants_bound(1)[of S i] by (cases "descendants S i = 0") auto

text \<open>Removing a post without replies.\<close>

lemma leaf_parent:
  assumes f: "forest (us @ x # vs)" and y: "y \<in> set (us @ vs)" and no: "n_id x \<notin> set (ancestors (us @ x # vs) y)"
  shows "parent_in (us @ vs) y = parent_in (us @ x # vs) y"
proof (cases "fst (n_parent y) = []")
  case True
  then show ?thesis by (simp add: parent_in_def)
next
  case False
  have ok: "node_ok (us @ x # vs) y" using f y by (auto simp: forest_def list_all_iff)
  with False obtain p where p: "parent_in (us @ x # vs) y = Some p" by (auto simp: node_ok_def split: option.splits)
  from ancestors_reply[OF ok p] no have "p \<noteq> x" by auto
  with parent_in_mem[OF p] have m: "p \<in> set (us @ vs)" "n_key p = n_parent y" by auto
  have "distinct (map n_key (us @ vs))" using f by (auto simp: forest_def)
  from find_distinct[OF this m(1)] m(2) p False show ?thesis by (simp add: parent_in_def)
qed

lemma leaf_ancestors:
  assumes f: "forest (us @ x # vs)" and y: "y \<in> set (us @ vs)" and no: "n_id x \<notin> set (ancestors (us @ x # vs) y)"
  shows "ancestors (us @ vs) y = ancestors (us @ x # vs) y \<and> node_ok (us @ vs) y"
  using y no
proof (induction "nat (n_depth y)" arbitrary: y rule: less_induct)
  case less
  have ok: "node_ok (us @ x # vs) y" using f less.prems(1) by (auto simp: forest_def list_all_iff)
  note par = leaf_parent[OF f less.prems]
  have ok': "node_ok (us @ vs) y" using ok by (simp add: node_ok_def par)
  show ?case
  proof (cases "fst (n_parent y) = []")
    case True
    with ok ok' show ?thesis by (simp add: ancestors_root)
  next
    case False
    with ok obtain p where p: "parent_in (us @ x # vs) y = Some p" "0 \<le> n_depth p" "n_depth y = n_depth p + 1"
      by (auto simp: node_ok_def split: option.splits)
    note a = ancestors_reply[OF ok p(1)] and a' = ancestors_reply[OF ok' trans[OF par p(1)]]
    have m: "p \<in> set (us @ vs)" "n_id x \<notin> set (ancestors (us @ x # vs) p)"
      using a less.prems(2) parent_in_mem[OF p(1)] by auto
    from less.hyps[OF _ m] p a a' ok' show ?thesis by simp
  qed
qed

lemma leaf_removed:
  assumes f: "forest (us @ x # vs)" and leaf: "descendants (us @ x # vs) (n_id x) = 0"
  shows "forest (us @ vs)"
    and "\<And>i. descendants (us @ vs) i = descendants (us @ x # vs) i - (if i \<in> set (ancestors (us @ x # vs) x) then 1 else 0)"
proof -
  have no: "n_id x \<notin> set (ancestors (us @ x # vs) y)" if "y \<in> set (us @ vs)" for y
    using descendants_none[OF leaf] that by auto
  note a = leaf_ancestors[OF f _ no]
  have "list_all (node_ok (us @ vs)) (us @ vs)" unfolding list_all_iff using a by blast
  then show "forest (us @ vs)" using f by (auto simp: forest_def)
  have "filter (\<lambda>y. i \<in> set (ancestors (us @ vs) y)) (us @ vs) = filter (\<lambda>y. i \<in> set (ancestors (us @ x # vs) y)) (us @ vs)" for i
    using a by (intro filter_cong) auto
  then show "\<And>i. descendants (us @ vs) i = descendants (us @ x # vs) i - (if i \<in> set (ancestors (us @ x # vs) x) then 1 else 0)"
    by (simp add: descendants_def)
qed

section \<open>Operations keep the forest\<close>

text \<open>Operations that neither create, delete nor count posts.\<close>

definition same_forest :: "database \<Rightarrow> database \<Rightarrow> bool" where
  "same_forest db db' \<longleftrightarrow> next_id (db_comments db') = next_id (db_comments db) \<and>
     map (\<lambda>c. (node_of c, co_children c)) (rows (db_comments db')) = map (\<lambda>c. (node_of c, co_children c)) (rows (db_comments db))"

lemma same_forest_refl: "db_comments db' = db_comments db \<Longrightarrow> same_forest db db'"
  by (simp add: same_forest_def)

lemma same_forest_trans: "same_forest a b \<Longrightarrow> same_forest b c \<Longrightarrow> same_forest a c"
  by (simp add: same_forest_def)

lemma same_forest_ok:
  assumes "same_forest db db'" "comments_ok db"
  shows "comments_ok db'"
proof -
  have n: "nodes db' = nodes db" using arg_cong[OF conjunct2[OF assms(1)[unfolded same_forest_def]], of "map fst"]
    by (simp add: nodes_def o_def)
  have "map (\<lambda>c. (co_id c, co_children c)) (rows (db_comments db')) = map (\<lambda>c. (co_id c, co_children c)) (rows (db_comments db))"
    using arg_cong[OF conjunct2[OF assms(1)[unfolded same_forest_def]], of "map (\<lambda>(x, k). (n_id x, k))"] by (simp add: o_def)
  then have "list_all (\<lambda>(i, k). k = descendants (nodes db) i) (map (\<lambda>c. (co_id c, co_children c)) (rows (db_comments db')))"
    using assms(2) by (simp add: comments_ok_def list.pred_map o_def)
  then show ?thesis using assms by (simp add: comments_ok_def n same_forest_def list.pred_map o_def)
qed

lemma modify_comment_forest:
  assumes "modify_comment db i f = Inr db'"
    and "\<And>c c'. f c = Inr c' \<Longrightarrow> node_of c' = node_of c \<and> co_children c' = co_children c"
  shows "same_forest db db'"
proof -
  from assms(1) obtain t where t: "tbl_modify (\<lambda>c. co_id c = i) f (db_comments db) = Inr t" "db' = db\<lparr> db_comments := t \<rparr>"
    by (auto simp: modify_comment_def bindE_eq_Inr)
  then obtain ys where ys: "modify_first (\<lambda>c. co_id c = i) f (rows (db_comments db)) = Inr ys" "t = (db_comments db)\<lparr> rows := ys \<rparr>"
    by (auto simp: tbl_modify_def bindE_eq_Inr)
  from modify_first_split[OF ys(1)] assms(2) show ?thesis by (auto simp: same_forest_def t(2) ys(2))
qed

lemma nodes_length:
  assumes "comments_ok db"
  shows "length (nodes db) \<le> next_id (db_comments db)"
proof -
  have "length (nodes db) = card (n_id ` set (nodes db))"
    using assms distinct_card[of "map n_id (nodes db)"] by (simp add: comments_ok_def forest_def)
  also have "\<dots> \<le> card {..<next_id (db_comments db)}"
    using assms by (intro card_mono) (auto simp: comments_ok_def list_all_iff)
  finally show ?thesis by simp
qed

lemma touch_rows_nodes: "map node_of (touch_rows I now d cs) = map node_of cs"
  by (auto simp: touch_rows_def node_of_def)

lemma touch_rows_children:
  assumes "list_all (\<lambda>c. to_uint32 (co_children c + d) = co_children c + d) (filter (\<lambda>c. co_id c \<in> I) cs)"
    and "list_all (\<lambda>c. co_children c + (if co_id c \<in> I then d else 0) = D (co_id c)) cs"
  shows "list_all (\<lambda>c. co_children c = D (co_id c)) (touch_rows I now d cs)"
  using assms by (induction cs) (auto simp: touch_rows_def split: if_splits)

lemma created_ok:
  assumes ok: "comments_ok db" and c: "co_id c = next_id (db_comments db)" "co_children c = 0"
    "node_ok (nodes db) (node_of c)" "n_key (node_of c) \<notin> n_key ` set (nodes db)"
    and r: "rows (db_comments db') = touch_rows (set (ancestors (nodes db) (node_of c))) now 1 (rows (db_comments db) @ [c])"
    and n: "next_id (db_comments db') = Suc (next_id (db_comments db))" "next_id (db_comments db') < 2 ^ 32"
  shows "comments_ok db'"
proof -
  let ?S = "nodes db" and ?x = "node_of c"
  have f: "forest ?S" and lt: "list_all (\<lambda>x. n_id x < next_id (db_comments db)) ?S" using ok by (auto simp: comments_ok_def)
  have id: "n_id ?x \<notin> n_id ` set ?S" using lt c(1) by (auto simp: list_all_iff)
  note s = forest_snoc[OF f id c(4,3)]
  have nd: "nodes db' = ?S @ [?x]" by (simp add: nodes_def r touch_rows_nodes)
  let ?I = "set (ancestors ?S ?x)" and ?D = "descendants (?S @ [?x])"
  have old: "list_all (\<lambda>k. co_children k + (if co_id k \<in> ?I then 1 else 0) = ?D (co_id k)) (rows (db_comments db))"
    using ok by (simp add: comments_ok_def list_all_iff s(2))
  have x0: "?D (co_id c) = (if co_id c \<in> ?I then 1 else 0)"
    using descendants_fresh[OF f id] by (simp add: s(2))
  have bound: "?D i < 2 ^ 32" for i
    using descendants_bound(2)[of "?S @ [?x]" i] nodes_length[OF ok] n by simp
  have all: "list_all (\<lambda>k. co_children k + (if co_id k \<in> ?I then 1 else 0) = ?D (co_id k)) (rows (db_comments db) @ [c])"
    using old x0 c(2) by simp
  have small: "to_uint32 (co_children k + 1) = co_children k + 1" if "k \<in> set (rows (db_comments db) @ [c])" "co_id k \<in> ?I" for k
  proof -
    have "co_children k + 1 = ?D (co_id k)" using all that by (simp add: list_all_iff) fastforce
    with bound[of "co_id k"] descendants_bound(1)[of "?S @ [?x]" "co_id k"] show ?thesis by simp
  qed
  have "list_all (\<lambda>k. co_children k = ?D (co_id k)) (rows (db_comments db'))"
    unfolding r by (rule touch_rows_children[OF _ all]) (use small in \<open>auto simp: list_all_iff\<close>)
  with s(1) lt c(1) n(1) show ?thesis by (auto simp: comments_ok_def nd list_all_iff)
qed

lemma touch_rows_none: "touch_rows {} now d cs = cs"
  by (simp add: touch_rows_def)

lemma create_comment_rows:
  assumes "create_comment db o1 parent = Inr (db', i)"
  shows "i = next_id (db_comments db)" "next_id (db_comments db') = Suc (next_id (db_comments db))"
    "rows (db_comments db') = rows (db_comments db) @ [new_comment (head_block_time db) o1 parent i]"
    "(cm_author o1, cm_permlink o1) \<notin> n_key ` set (nodes db)"
  using assms
  by (auto simp: create_comment_def bindE_eq_Inr tbl_create_def Let_def nodes_def comment_clash_def new_comment_def list_ex_iff
      split: if_splits)

lemma post_comment_cases:
  assumes "post_comment db o1 auth parent = Inr db'"
  obtains db1 db2 db3 i where "modify_account db (cm_author o1) (count_post (cm_parent_author o1 = []) (head_block_time db)) = Inr db1"
    "create_comment db1 o1 parent = Inr (db2, i)" "create_content db2 o1 i = Inr db3"
    "(case parent of None \<Rightarrow> Inr db3 | Some p \<Rightarrow> touch_ancestors (ancestor_fuel p) (head_block_time db) 1 (co_id p) db3) = Inr db'"
  using assms unfolding post_comment_def run_simps by (elim exE conjE, hypsubst) (rule that, assumption+)

lemma modify_account_comments:
  "modify_account db a f = Inr db' \<Longrightarrow> db_comments db' = db_comments db"
  "modify_account db a f = Inr db' \<Longrightarrow> db_comment_votes db' = db_comment_votes db \<and> db_reward_funds db' = db_reward_funds db"
  by (auto simp: modify_account_def bindE_eq_Inr)

lemma create_content_comments:
  "create_content db o1 i = Inr db' \<Longrightarrow> db_comments db' = db_comments db"
  "create_content db o1 i = Inr db' \<Longrightarrow> db_comment_votes db' = db_comment_votes db \<and> db_reward_funds db' = db_reward_funds db"
  by (auto simp: create_content_def bindE_eq_Inr)

lemma create_comment_votes:
  "create_comment db o1 parent = Inr (db', i) \<Longrightarrow> db_comment_votes db' = db_comment_votes db \<and> db_reward_funds db' = db_reward_funds db"
  by (auto simp: create_comment_def bindE_eq_Inr)

lemma nodes_cong: "db_comments db' = db_comments db \<Longrightarrow> nodes db' = nodes db"
  by (simp add: nodes_def)

definition parent_fits :: "database \<Rightarrow> comment_object option \<Rightarrow> bool" where
  "parent_fits db parent = (case parent of None \<Rightarrow> True
     | Some p \<Rightarrow> p \<in> set (rows (db_comments db)) \<and> co_author p \<noteq> [] \<and> co_depth p < STEEM_MAX_COMMENT_DEPTH)"

lemma new_comment_node:
  assumes f: "forest (nodes db)" and p: "parent_fits db parent"
  shows "node_ok (nodes db) (node_of (new_comment now o1 parent i))"
    and "ancestors (nodes db) (node_of (new_comment now o1 parent i)) =
      (case parent of None \<Rightarrow> [] | Some p \<Rightarrow> co_id p # ancestors (nodes db) (node_of p))"
proof -
  let ?x = "node_of (new_comment now o1 parent i)"
  have "node_ok (nodes db) ?x \<and> ancestors (nodes db) ?x = (case parent of None \<Rightarrow> [] | Some p \<Rightarrow> co_id p # ancestors (nodes db) (node_of p))"
  proof (cases parent)
    case None
    then show ?thesis by (simp add: node_ok_def new_comment_def ancestors_def)
  next
    case (Some q)
    with p have q: "q \<in> set (rows (db_comments db))" "co_author q \<noteq> []" "co_depth q < STEEM_MAX_COMMENT_DEPTH" by (auto simp: parent_fits_def)
    have d: "0 \<le> co_depth q" using node_ok_depth[OF forest_distinct(3)[OF f q(1)]] by simp
    have "distinct (map n_key (nodes db))" using f by (simp add: forest_def)
    from find_distinct[OF this, of "node_of q"] q have par: "parent_in (nodes db) ?x = Some (node_of q)"
      by (simp add: parent_in_def Some new_comment_def nodes_def)
    have ok: "node_ok (nodes db) ?x" using par q d by (simp add: node_ok_def) (simp add: Some new_comment_def)
    with ancestors_reply[OF ok par] Some show ?thesis by simp
  qed
  then show "node_ok (nodes db) ?x" "ancestors (nodes db) ?x = (case parent of None \<Rightarrow> [] | Some p \<Rightarrow> co_id p # ancestors (nodes db) (node_of p))"
    by auto
qed

lemma post_comment_effect:
  assumes run: "post_comment db o1 auth parent = Inr db'" and ok: "comments_ok db" and p: "parent_fits db parent"
  obtains c where "co_id c = next_id (db_comments db)" "co_children c = 0" "co_vote_rshares c = 0" "co_total_vote_weight c = 0"
    "node_ok (nodes db) (node_of c)" "n_key (node_of c) \<notin> n_key ` set (nodes db)"
    "rows (db_comments db') = touch_rows (set (ancestors (nodes db) (node_of c))) (head_block_time db) 1 (rows (db_comments db) @ [c])"
    "next_id (db_comments db') = Suc (next_id (db_comments db))"
    "db_comment_votes db' = db_comment_votes db" "db_reward_funds db' = db_reward_funds db"
  using run
proof (rule post_comment_cases)
  fix db1 db2 db3 i
  assume 1: "modify_account db (cm_author o1) (count_post (cm_parent_author o1 = []) (head_block_time db)) = Inr db1"
    and 2: "create_comment db1 o1 parent = Inr (db2, i)" and 3: "create_content db2 o1 i = Inr db3"
    and 4: "(case parent of None \<Rightarrow> Inr db3 | Some p \<Rightarrow> touch_ancestors (ancestor_fuel p) (head_block_time db) 1 (co_id p) db3) = Inr db'"
  note c1 = modify_account_comments(1)[OF 1] and c3 = create_content_comments(1)[OF 3]
  note r2 = create_comment_rows[OF 2, unfolded c1 nodes_cong[OF c1]]
  define c where "c = new_comment (head_block_time db1) o1 parent i"
  have f: "forest (nodes db)" using ok by (simp add: comments_ok_def)
  note node = new_comment_node[OF f p, of "head_block_time db1" o1 i, folded c_def]
  have ci: "co_id c = next_id (db_comments db)" "co_children c = 0" "n_key (node_of c) = (cm_author o1, cm_permlink o1)"
    "co_vote_rshares c = 0" "co_total_vote_weight c = 0"
    by (simp_all add: c_def new_comment_def r2(1))
  have r3: "rows (db_comments db3) = rows (db_comments db) @ [c]" "next_id (db_comments db3) = Suc (next_id (db_comments db))"
    by (simp_all add: c3 r2 c_def)
  have v3: "db_comment_votes db3 = db_comment_votes db" "db_reward_funds db3 = db_reward_funds db"
    using modify_account_comments(2)[OF 1] create_comment_votes[OF 2] create_content_comments(2)[OF 3] by simp_all
  have n3: "nodes db3 = nodes db @ [node_of c]" by (simp add: nodes_def r3)
  have id: "n_id (node_of c) \<notin> n_id ` set (nodes db)" using ok ci(1) by (auto simp: comments_ok_def list_all_iff)
  have f3: "forest (nodes db3)" unfolding n3 by (rule forest_snoc(1)[OF f id _ node(1)]) (use r2(4) ci(3) in simp)
  have rn: "rows (db_comments db') = touch_rows (set (ancestors (nodes db) (node_of c))) (head_block_time db) 1 (rows (db_comments db) @ [c]) \<and>
    next_id (db_comments db') = Suc (next_id (db_comments db)) \<and>
    db_comment_votes db' = db_comment_votes db \<and> db_reward_funds db' = db_reward_funds db"
  proof (cases parent)
    case None
    with 4 node(2) r3 v3 show ?thesis by (auto simp: touch_rows_none)
  next
    case (Some q)
    with p have q: "q \<in> set (rows (db_comments db))" by (simp add: parent_fits_def)
    then have "q \<in> set (rows (db_comments db3))" by (simp add: r3)
    from touch_ancestors_run[OF f3 this] 4 Some have db': "db' = touched (set (co_id q # ancestors (nodes db3) (node_of q))) (head_block_time db) 1 db3" by simp
    have "ancestors (nodes db3) (node_of q) = ancestors (nodes db) (node_of q)"
      unfolding n3 using ancestors_append[of "nodes db" "node_of q" "[node_of c]"] f forest_distinct(3)[OF f q] by (simp add: forest_def)
    then show ?thesis using node(2) Some by (simp add: db' touched_def r3 v3)
  qed
  show thesis by (rule that[OF ci(1,2,4,5) node(1)]) (use r2(4) ci(3) rn in simp_all)
qed

lemma post_comment_ok:
  assumes run: "post_comment db o1 auth parent = Inr db'" and ok: "comments_ok db" and p: "parent_fits db parent"
    and n: "next_id (db_comments db') < 2 ^ 32"
  shows "comments_ok db' \<and> next_id (db_comments db') = Suc (next_id (db_comments db))"
  using run ok p by (rule post_comment_effect) (use created_ok[OF ok] n in blast)

lemma removed_ok:
  assumes ok: "comments_ok db" and c: "c \<in> set (rows (db_comments db))" "co_children c = 0"
    and r: "rows (db_comments db') = remove_first (\<lambda>k. co_id k = co_id c)
      (touch_rows (set (ancestors (nodes db) (node_of c))) now (-1) (rows (db_comments db)))"
    and n: "next_id (db_comments db') = next_id (db_comments db)" "next_id (db_comments db') < 2 ^ 32"
  shows "comments_ok db'"
proof -
  have f: "forest (nodes db)" using ok by (simp add: comments_ok_def)
  from split_list[OF c(1)] obtain us vs where s: "rows (db_comments db) = us @ c # vs" by blast
  let ?S = "map node_of us @ node_of c # map node_of vs" and ?I = "set (ancestors (nodes db) (node_of c))"
  have nd: "nodes db = ?S" by (simp add: nodes_def s)
  have no: "co_id c \<notin> ?I" using not_own_ancestor[OF f, of "node_of c"] c(1) by (simp add: nodes_def)
  have us: "\<forall>u\<in>set us. co_id u \<noteq> co_id c" using forest_distinct(1)[OF f] s by (auto simp: image_iff)
  have r': "rows (db_comments db') = touch_rows ?I now (-1) (us @ vs)"
  proof -
    have "touch_rows ?I now (-1) (us @ c # vs) = touch_rows ?I now (-1) us @ c # touch_rows ?I now (-1) vs"
      using no by (simp add: touch_rows_def)
    moreover have "remove_first (\<lambda>k. co_id k = co_id c) (touch_rows ?I now (-1) us @ c # touch_rows ?I now (-1) vs)
        = touch_rows ?I now (-1) us @ touch_rows ?I now (-1) vs"
      by (rule remove_first_append) (use us in \<open>auto simp: touch_rows_def\<close>)
    ultimately show ?thesis unfolding r s by (simp add: touch_rows_def)
  qed
  have leaf: "descendants ?S (n_id (node_of c)) = 0"
    using ok c by (auto simp: comments_ok_def list_all_iff nd)
  note l = leaf_removed[OF f[unfolded nd] leaf]
  let ?D = "descendants (map node_of us @ map node_of vs)"
  have D: "?D i = descendants (nodes db) i - (if i \<in> ?I then 1 else 0)" for i using l(2)[of i] by (simp add: nd)
  have all: "list_all (\<lambda>k. co_children k + (if co_id k \<in> ?I then -1 else 0) = ?D (co_id k)) (us @ vs)"
    using ok by (simp add: comments_ok_def D s)
  have small: "to_uint32 (co_children k + -1) = co_children k + -1" if "k \<in> set (us @ vs)" "co_id k \<in> ?I" for k
  proof -
    have "co_children k + -1 = ?D (co_id k)" using bspec[OF all[unfolded list_all_iff] that(1)] that(2) by simp
    moreover have "?D (co_id k) < 2 ^ 32"
      using descendants_bound(2)[of "map node_of us @ map node_of vs" "co_id k"] nodes_length[OF ok] n by (simp add: nd)
    ultimately show ?thesis using descendants_bound(1)[of "map node_of us @ map node_of vs" "co_id k"] by simp
  qed
  have "list_all (\<lambda>k. co_children k = ?D (co_id k)) (rows (db_comments db'))"
    unfolding r' by (rule touch_rows_children[OF _ all]) (use small in \<open>auto simp: list_all_iff\<close>)
  moreover have "nodes db' = map node_of us @ map node_of vs" by (simp add: nodes_def r' touch_rows_nodes)
  ultimately show ?thesis using l(1) ok n(1) by (auto simp: comments_ok_def nd list_all_iff)
qed

lemma delete_comment_cases:
  assumes "delete_comment_do_apply db o1 = Inr db'"
  obtains db0 db1 c where "get_comment db (dc_author o1) (dc_permlink o1) = Inr c" "co_children c = 0"
    "co_cashout_time c \<noteq> time_maximum" "co_net_rshares c \<le> 0"
    "(if co_parent_author c \<noteq> [] then
        bindE (get_comment db0 (co_parent_author c) (co_parent_permlink c)) (\<lambda>p.
        touch_ancestors (ancestor_fuel p) (head_block_time db0) (-1) (co_id p) db0)
      else Inr db0) = Inr db1"
    "db' = db1\<lparr> db_comments := tbl_remove (\<lambda>k. co_id k = co_id c) (db_comments db1) \<rparr>"
    "db0 = db\<lparr> db_comment_votes := fold tbl_erase (filter (\<lambda>v. cv_comment v = co_id c)
       (sort_key cv_voter (rows (db_comment_votes db)))) (db_comment_votes db) \<rparr>"
  using assms unfolding delete_comment_do_apply_def run_simps sum.inject
  by (elim exE conjE) (rule that, assumption+, erule sym, rule refl)

lemma delete_comment_effect:
  assumes run: "delete_comment_do_apply db o1 = Inr db'" and ok: "comments_ok db"
  obtains c vs now where "c \<in> set (rows (db_comments db))" "co_children c = 0"
    "rows (db_comments db') = remove_first (\<lambda>k. co_id k = co_id c)
      (touch_rows (set (ancestors (nodes db) (node_of c))) now (-1) (rows (db_comments db)))"
    "next_id (db_comments db') = next_id (db_comments db)"
    "list_all (\<lambda>v. cv_comment v = co_id c) vs" "db_comment_votes db' = fold tbl_erase vs (db_comment_votes db)"
    "db_reward_funds db' = db_reward_funds db"
  using run
proof (rule delete_comment_cases)
  fix db0 db1 c
  assume 1: "get_comment db (dc_author o1) (dc_permlink o1) = Inr c" "co_children c = 0" and 2: "db0 = db\<lparr> db_comment_votes := fold tbl_erase (filter (\<lambda>v. cv_comment v = co_id c)
       (sort_key cv_voter (rows (db_comment_votes db)))) (db_comment_votes db) \<rparr>"
    and 3: "(if co_parent_author c \<noteq> [] then
        bindE (get_comment db0 (co_parent_author c) (co_parent_permlink c)) (\<lambda>p.
        touch_ancestors (ancestor_fuel p) (head_block_time db0) (-1) (co_id p) db0)
      else Inr db0) = Inr db1"
    and 4: "db' = db1\<lparr> db_comments := tbl_remove (\<lambda>k. co_id k = co_id c) (db_comments db1) \<rparr>"
  have 0: "db_comments db0 = db_comments db" by (simp add: 2)
  have c: "c \<in> set (rows (db_comments db))" using get_comment_mem[OF 1(1)] by simp
  have f: "forest (nodes db)" using ok by (simp add: comments_ok_def)
  have f0: "forest (nodes db0)" using f by (simp add: nodes_cong[OF 0])
  have c0: "c \<in> set (rows (db_comments db0))" using c 0 by simp
  have r1: "rows (db_comments db1) = touch_rows (set (ancestors (nodes db) (node_of c))) (head_block_time db0) (-1) (rows (db_comments db))
      \<and> next_id (db_comments db1) = next_id (db_comments db) \<and> db_comment_votes db1 = db_comment_votes db0 \<and> db_reward_funds db1 = db_reward_funds db0"
  proof (cases "co_parent_author c = []")
    case True
    with 3 ancestors_root[OF forest_distinct(3)[OF f c]] 0 show ?thesis by (auto simp: touch_rows_none)
  next
    case False
    from parent_row[OF f0 c0 False] obtain q where q: "q \<in> set (rows (db_comments db0))" "parent_in (nodes db0) (node_of c) = Some (node_of q)"
      "co_author q = co_parent_author c" "co_permlink q = co_parent_permlink c" by blast
    have g: "get_comment db0 (co_parent_author c) (co_parent_permlink c) = Inr q" using get_comment_forest(1)[OF f0 q(1)] q(3,4) by simp
    have "ancestors (nodes db) (node_of c) = co_id q # ancestors (nodes db0) (node_of q)"
      using ancestors_reply[OF forest_distinct(3)[OF f0 c0] q(2)] by (simp add: nodes_cong[OF 0])
    moreover have "db1 = touched (set (co_id q # ancestors (nodes db0) (node_of q))) (head_block_time db0) (-1) db0"
      using 3 False touch_ancestors_run[OF f0 q(1)] by (simp add: g)
    ultimately show ?thesis by (simp add: touched_def 0)
  qed
  show thesis
    by (rule that[OF c 1(2), where now = "head_block_time db0"
          and vs = "filter (\<lambda>v. cv_comment v = co_id c) (sort_key cv_voter (rows (db_comment_votes db)))"])
      (use r1 in \<open>simp_all add: 4 tbl_remove_def 2 list_all_iff\<close>)
qed

lemma delete_comment_ok:
  assumes run: "delete_comment_do_apply db o1 = Inr db'" and ok: "comments_ok db" and n: "next_id (db_comments db') < 2 ^ 32"
  shows "comments_ok db' \<and> next_id (db_comments db') = next_id (db_comments db)"
  using run ok by (rule delete_comment_effect) (use removed_ok[OF ok] n in blast)

lemma comment_cases:
  assumes run: "comment_do_apply dmp db o1 = Inr db'"
  obtains (post) auth parent where "parent_fits db parent" "post_comment db o1 auth parent = Inr db'"
  | (edit) parent c where "edit_comment dmp db o1 parent c = Inr db'"
proof -
  from run obtain auth parent where
    p: "(if cm_parent_author o1 \<noteq> [] then
               bindE (get_comment db (cm_parent_author o1) (cm_parent_permlink o1)) (\<lambda>p.
               fc_assert 574 (co_depth p < STEEM_MAX_COMMENT_DEPTH) (Inr (Some p)))
             else Inr None) = Inr parent"
    and r: "(case tbl_find (\<lambda>c. co_author c = cm_author o1 \<and> co_permlink c = cm_permlink o1) (db_comments db) of
        None \<Rightarrow> post_comment db o1 auth parent | Some comment \<Rightarrow> edit_comment dmp db o1 parent comment) = Inr db'"
    unfolding comment_do_apply_def run_simps by blast
  have "parent_fits db parent"
    using p by (auto simp: parent_fits_def bindE_eq_Inr fc_assert_eq_Inr split: if_splits dest: get_comment_mem)
  with r post edit show thesis by (auto split: option.splits)
qed

section \<open>Votes\<close>

abbreviation vote_rshares :: "vote_operation \<Rightarrow> int \<Rightarrow> int" where
  "vote_rshares o1 r \<equiv> (if vo_weight o1 < 0 then - r else r)"

lemma first_vote_cases:
  assumes "first_vote db o1 comment voter (cur, used, r) = Inr db'"
  obtains db1 root db2 db3 c w m db4 where
    "modify_account db (ac_name voter) (spend_power (head_block_time db) (cur - used)) = Inr db1"
    "get_comment_id db1 (co_root_comment comment) = Inr root" "0 < r"
    "modify_comment db1 (co_id comment) (count_vote (vote_rshares o1 r) r) = Inr db2"
    "modify_comment db2 (co_id root) (count_discussion r) = Inr db3"
    "get_comment_id db3 (co_id comment) = Inr c"
    "vote_weight db3 c (vote_rshares o1 r) (co_vote_rshares comment) (head_block_time db) = Inr (w, m)"
    "create_vote db3 (\<lambda>i. \<lparr> cv_id = i, cv_voter = ac_id voter, cv_comment = co_id comment, cv_weight = w,
          cv_rshares = vote_rshares o1 r, cv_vote_percent = vo_weight o1, cv_last_update = head_block_time db, cv_num_changes = 0 \<rparr>) = Inr db4"
    "(if m \<noteq> 0 then modify_comment db4 (co_id comment) (\<lambda>c.
            Inr (c\<lparr> co_total_vote_weight := to_uint64 (co_total_vote_weight c + m) \<rparr>)) else Inr db4) = Inr db'"
  using assms unfolding first_vote_def run_simps prod.case by (elim exE conjE, hypsubst) (rule that, assumption+)

lemma change_vote_cases:
  assumes "change_vote db o1 comment voter itr (cur, used, r) = Inr db'"
  obtains db1 root db2 db3 db4 where
    "modify_account db (ac_name voter) (spend_power (head_block_time db) (cur - used)) = Inr db1"
    "get_comment_id db1 (co_root_comment comment) = Inr root"
    "modify_comment db1 (co_id comment) (recount_vote (vote_rshares o1 r) r (cv_rshares itr)) = Inr db2"
    "modify_comment db2 (co_id root) (count_discussion r) = Inr db3"
    "modify_comment db3 (co_id comment) (\<lambda>c.
         Inr (c\<lparr> co_total_vote_weight := to_uint64 (co_total_vote_weight c - cv_weight itr) \<rparr>)) = Inr db4"
    "modify_vote db4 comment voter (\<lambda>cv. cv\<lparr> cv_rshares := vote_rshares o1 r, cv_vote_percent := vo_weight o1,
         cv_last_update := head_block_time db, cv_weight := 0, cv_num_changes := cv_num_changes cv + 1 \<rparr>) = Inr db'"
  using assms unfolding change_vote_def run_simps prod.case by (elim exE conjE) (rule that, assumption+)

lemma vote_cases:
  assumes "vote_do_apply db o1 = Inr db'"
  obtains (late) c a where "get_comment db (vo_author o1) (vo_permlink o1) = Inr c" "get_account db (vo_voter o1) = Inr a"
      "co_cashout_time c = time_maximum" "record_late_vote db o1 c a (tbl_find (is_vote c a) (db_comment_votes db)) = Inr db'"
  | (first) c a cur used r where "get_comment db (vo_author o1) (vo_permlink o1) = Inr c" "get_account db (vo_voter o1) = Inr a"
      "co_cashout_time c \<noteq> time_maximum" "vote_power db a (vo_weight o1) = Inr (cur, used, r)"
      "tbl_find (is_vote c a) (db_comment_votes db) = None" "first_vote db o1 c a (cur, used, r) = Inr db'"
  | (change) c a cur used r v where "get_comment db (vo_author o1) (vo_permlink o1) = Inr c" "get_account db (vo_voter o1) = Inr a"
      "co_cashout_time c \<noteq> time_maximum" "vote_power db a (vo_weight o1) = Inr (cur, used, r)"
      "tbl_find (is_vote c a) (db_comment_votes db) = Some v" "change_vote db o1 c a v (cur, used, r) = Inr db'"
proof -
  from assms obtain c a where c: "get_comment db (vo_author o1) (vo_permlink o1) = Inr c" "get_account db (vo_voter o1) = Inr a"
    and r: "(if co_cashout_time c = time_maximum then record_late_vote db o1 c a (tbl_find (is_vote c a) (db_comment_votes db))
      else bindE (vote_power db a (vo_weight o1)) (\<lambda>pw.
        case tbl_find (is_vote c a) (db_comment_votes db) of
          None \<Rightarrow> first_vote db o1 c a pw
        | Some v \<Rightarrow> fc_assert 1196 (cv_num_changes v \<noteq> -1) (change_vote db o1 c a v pw))) = Inr db'"
    unfolding vote_do_apply_def run_simps by blast
  show thesis
  proof (cases "co_cashout_time c = time_maximum")
    case True
    with late[OF c True] r show thesis by simp
  next
    case False
    with r obtain cur used sh where p: "vote_power db a (vo_weight o1) = Inr (cur, used, sh)"
      and k: "(case tbl_find (is_vote c a) (db_comment_votes db) of
          None \<Rightarrow> first_vote db o1 c a (cur, used, sh)
        | Some v \<Rightarrow> fc_assert 1196 (cv_num_changes v \<noteq> -1) (change_vote db o1 c a v (cur, used, sh))) = Inr db'"
      by (auto simp: bindE_eq_Inr)
    show thesis
    proof (cases "tbl_find (is_vote c a) (db_comment_votes db)")
      case None
      with first[OF c False p None] k show thesis by simp
    next
      case (Some v)
      with change[OF c False p Some] k show thesis by (simp add: fc_assert_eq_Inr)
    qed
  qed
qed

lemma create_vote_comments: "create_vote db mk = Inr db' \<Longrightarrow> db_comments db' = db_comments db"
  by (auto simp: create_vote_def bindE_eq_Inr)

lemma modify_vote_comments: "modify_vote db c a f = Inr db' \<Longrightarrow> db_comments db' = db_comments db"
  by (auto simp: modify_vote_def bindE_eq_Inr)

lemma record_late_vote_comments: "record_late_vote db o1 c a itr = Inr db' \<Longrightarrow> db_comments db' = db_comments db"
  by (auto simp: record_late_vote_def split: option.splits dest: create_vote_comments modify_vote_comments)

lemma count_vote_forest: "modify_comment db i (count_vote x y) = Inr db' \<Longrightarrow> same_forest db db'"
  by (erule modify_comment_forest) (auto simp: count_vote_def bindE_eq_Inr node_of_def)

lemma recount_vote_forest: "modify_comment db i (recount_vote x y z) = Inr db' \<Longrightarrow> same_forest db db'"
  by (erule modify_comment_forest) (auto simp: recount_vote_def bindE_eq_Inr node_of_def)

lemma count_discussion_forest: "modify_comment db i (count_discussion x) = Inr db' \<Longrightarrow> same_forest db db'"
  by (erule modify_comment_forest) (auto simp: count_discussion_def bindE_eq_Inr node_of_def)

lemmas comment_same =
  same_forest_refl[OF modify_account_comments(1)] same_forest_refl[OF create_vote_comments]
  same_forest_refl[OF modify_vote_comments] count_vote_forest recount_vote_forest count_discussion_forest

lemma total_weight_forest:
  assumes "modify_comment db i (\<lambda>c. Inr (c\<lparr> co_total_vote_weight := g c \<rparr>)) = Inr db'"
  shows "same_forest db db'"
  using assms by (rule modify_comment_forest) (auto simp: node_of_def)

lemma first_vote_forest:
  assumes "first_vote db o1 c a (cur, used, r) = Inr db'"
  shows "same_forest db db'"
  using assms
proof (rule first_vote_cases)
  fix db1 root db2 db3 k w m db4
  assume 1: "modify_account db (ac_name a) (spend_power (head_block_time db) (cur - used)) = Inr db1"
    and 2: "modify_comment db1 (co_id c) (count_vote (vote_rshares o1 r) r) = Inr db2"
    and 3: "modify_comment db2 (co_id root) (count_discussion r) = Inr db3"
    and 4: "create_vote db3 (\<lambda>i. \<lparr> cv_id = i, cv_voter = ac_id a, cv_comment = co_id c, cv_weight = w,
          cv_rshares = vote_rshares o1 r, cv_vote_percent = vo_weight o1, cv_last_update = head_block_time db, cv_num_changes = 0 \<rparr>) = Inr db4"
    and 5: "(if m \<noteq> 0 then modify_comment db4 (co_id c) (\<lambda>c.
            Inr (c\<lparr> co_total_vote_weight := to_uint64 (co_total_vote_weight c + m) \<rparr>)) else Inr db4) = Inr db'"
  have "same_forest db4 db'" using 5 by (auto split: if_splits dest: total_weight_forest intro: same_forest_refl)
  with comment_same(1)[OF 1] comment_same(4)[OF 2] comment_same(6)[OF 3] comment_same(2)[OF 4] show ?thesis
    by (blast intro: same_forest_trans)
qed

lemma change_vote_forest:
  assumes "change_vote db o1 c a v (cur, used, r) = Inr db'"
  shows "same_forest db db'"
  using assms
proof (rule change_vote_cases)
  fix db1 root db2 db3 db4
  assume 1: "modify_account db (ac_name a) (spend_power (head_block_time db) (cur - used)) = Inr db1"
    and 2: "modify_comment db1 (co_id c) (recount_vote (vote_rshares o1 r) r (cv_rshares v)) = Inr db2"
    and 3: "modify_comment db2 (co_id root) (count_discussion r) = Inr db3"
    and 4: "modify_comment db3 (co_id c) (\<lambda>c.
         Inr (c\<lparr> co_total_vote_weight := to_uint64 (co_total_vote_weight c - cv_weight v) \<rparr>)) = Inr db4"
    and 5: "modify_vote db4 c a (\<lambda>cv. cv\<lparr> cv_rshares := vote_rshares o1 r, cv_vote_percent := vo_weight o1,
         cv_last_update := head_block_time db, cv_weight := 0, cv_num_changes := cv_num_changes cv + 1 \<rparr>) = Inr db'"
  from comment_same(1)[OF 1] comment_same(5)[OF 2] comment_same(6)[OF 3] total_weight_forest[OF 4] comment_same(3)[OF 5]
  show ?thesis by (blast intro: same_forest_trans)
qed

lemma vote_forest: "vote_do_apply db o1 = Inr db' \<Longrightarrow> same_forest db db'"
  by (erule vote_cases) (blast intro: same_forest_refl record_late_vote_comments first_vote_forest change_vote_forest)+

lemma comment_options_cases:
  assumes "comment_options_do_apply db o1 = Inr db'"
  obtains c db1 where "get_comment db (cop_author o1) (cop_permlink o1) = Inr c"
    "modify_comment db (co_id c) (\<lambda>c. Inr (c\<lparr> co_max_accepted_payout := cop_max_accepted_payout o1,
           co_percent_steem_dollars := cop_percent_steem_dollars o1, co_allow_votes := cop_allow_votes o1,
           co_allow_curation_rewards := cop_allow_curation_rewards o1 \<rparr>)) = Inr db1"
    "foldE (add_beneficiaries (co_id c)) (cop_extensions o1) db1 = Inr db'"
  using assms unfolding comment_options_do_apply_def run_simps by (elim exE conjE) (rule that, assumption+)

section \<open>Operations that keep the votes\<close>

text \<open>Edits, options and payouts: a post keeps its place, and it keeps its rshares and its vote weight unless
  the payout closes it.\<close>

definition row_kept :: "comment_object \<Rightarrow> comment_object \<Rightarrow> bool" where
  "row_kept c c' \<longleftrightarrow> node_of c' = node_of c \<and> co_children c' = co_children c \<and>
     (co_cashout_time c' = time_maximum \<or> co_cashout_time c' = co_cashout_time c \<and> co_vote_rshares c' = co_vote_rshares c \<and>
        co_total_vote_weight c' = co_total_vote_weight c)"

definition fund_terms :: "database \<Rightarrow> (string \<times> curve_id \<times> int) list" where
  "fund_terms db = map (\<lambda>rf. (rf_name rf, rf_curation_reward_curve rf, rf_content_constant rf)) (rows (db_reward_funds db))"

definition posts_kept :: "database \<Rightarrow> database \<Rightarrow> bool" where
  "posts_kept db db' \<longleftrightarrow> next_id (db_comments db') = next_id (db_comments db) \<and> db_comment_votes db' = db_comment_votes db \<and>
     fund_terms db' = fund_terms db \<and> list_all2 row_kept (rows (db_comments db)) (rows (db_comments db'))"

lemma row_kept_refl [simp]: "row_kept c c"
  by (simp add: row_kept_def)

lemma row_kept_trans: "row_kept a b \<Longrightarrow> row_kept b c \<Longrightarrow> row_kept a c"
  by (auto simp: row_kept_def)

lemma posts_kept_refl [simp]: "posts_kept db db"
  by (simp add: posts_kept_def list.rel_refl)

lemma posts_kept_trans [trans]: "posts_kept a b \<Longrightarrow> posts_kept b c \<Longrightarrow> posts_kept a c"
  unfolding posts_kept_def using list_all2_trans[of row_kept row_kept row_kept] row_kept_trans by metis

lemma posts_kept_frame:
  "db_comments db' = db_comments db \<Longrightarrow> db_comment_votes db' = db_comment_votes db \<Longrightarrow> fund_terms db' = fund_terms db
   \<Longrightarrow> posts_kept db db'"
  by (simp add: posts_kept_def list.rel_refl)

lemma core_frame_kept: "core_frame db db' \<Longrightarrow> posts_kept db db'"
  using core_frameD[of db db'] by (intro posts_kept_frame) (simp_all add: fund_terms_def)

lemma posts_kept_forest:
  assumes "posts_kept db db'"
  shows "same_forest db db'"
proof -
  have "map (\<lambda>c. (node_of c, co_children c)) ys = map (\<lambda>c. (node_of c, co_children c)) xs" if "list_all2 row_kept xs ys" for xs ys
    using that by (induction rule: list_all2_induct) (auto simp: row_kept_def)
  with assms show ?thesis by (simp add: posts_kept_def same_forest_def)
qed

lemma modify_comment_kept:
  assumes "modify_comment db i f = Inr db'" "\<And>c c'. f c = Inr c' \<Longrightarrow> row_kept c c'"
  shows "posts_kept db db'"
proof -
  from assms(1) obtain ys where ys: "modify_first (\<lambda>c. co_id c = i) f (rows (db_comments db)) = Inr ys"
    and db': "db' = db\<lparr> db_comments := (db_comments db)\<lparr> rows := ys \<rparr> \<rparr>"
    by (auto simp: modify_comment_def tbl_modify_def bindE_eq_Inr)
  from modify_first_split[OF ys] obtain us v v' vs where "rows (db_comments db) = us @ v # vs" "ys = us @ v' # vs" "f v = Inr v'" by blast
  with assms(2) show ?thesis
    by (simp add: posts_kept_def db' fund_terms_def list_all2_append list.rel_refl)
qed

lemma foldE_kept:
  "foldE f xs db = Inr db' \<Longrightarrow> (\<And>x d d'. f x d = Inr d' \<Longrightarrow> posts_kept d d') \<Longrightarrow> posts_kept db db'"
  by (erule foldE_rel) (fast intro: posts_kept_refl posts_kept_trans)+

lemma edit_comment_kept:
  assumes "edit_comment dmp db o1 parent c = Inr db'"
  shows "posts_kept db db'"
proof -
  from assms obtain db1 where 1: "modify_comment db (co_id c) (\<lambda>com.
       fc_assert (if parent = None then 684 else 689)
         (co_parent_author com = (if parent = None then [] else cm_parent_author o1))
       (fc_assert (if parent = None then 685 else 690) (strcmp_equal (co_parent_permlink com) (cm_parent_permlink o1))
       (Inr (com\<lparr> co_last_update := head_block_time db, co_active := head_block_time db \<rparr>)))) = Inr db1"
    and 2: "\<exists>t. db' = db1\<lparr> db_comment_contents := t \<rparr>"
    unfolding edit_comment_def run_simps by auto
  from 2 have 2: "posts_kept db1 db'" by (auto intro!: posts_kept_frame simp: fund_terms_def)
  from 1 have "posts_kept db db1" by (rule modify_comment_kept) (auto simp: fc_assert_eq_Inr row_kept_def node_of_def)
  from this 2 show ?thesis by (rule posts_kept_trans)
qed

lemma add_beneficiaries_kept:
  assumes "add_beneficiaries i bs db = Inr db'"
  shows "posts_kept db db'"
proof -
  from assms have "modify_comment db i (\<lambda>c. Inr (c\<lparr> co_beneficiaries := co_beneficiaries c @ bs \<rparr>)) = Inr db'"
    by (auto simp: add_beneficiaries_def bindE_eq_Inr fc_assert_eq_Inr)
  then show ?thesis by (rule modify_comment_kept) (auto simp: row_kept_def node_of_def)
qed

lemma comment_options_kept:
  assumes "comment_options_do_apply db o1 = Inr db'"
  shows "posts_kept db db'"
  using assms
proof (rule comment_options_cases)
  fix c db1
  assume 1: "modify_comment db (co_id c) (\<lambda>c. Inr (c\<lparr> co_max_accepted_payout := cop_max_accepted_payout o1,
           co_percent_steem_dollars := cop_percent_steem_dollars o1, co_allow_votes := cop_allow_votes o1,
           co_allow_curation_rewards := cop_allow_curation_rewards o1 \<rparr>)) = Inr db1"
    and 2: "foldE (add_beneficiaries (co_id c)) (cop_extensions o1) db1 = Inr db'"
  have "posts_kept db db1" using 1 by (rule modify_comment_kept) (auto simp: row_kept_def node_of_def)
  moreover have "posts_kept db1 db'" using 2 by (rule foldE_kept) (rule add_beneficiaries_kept)
  ultimately show ?thesis by (rule posts_kept_trans)
qed

text \<open>The payout round.\<close>

lemma pay_curator_kept:
  assumes "foldE (pay_curator m W) vs (db, u) = Inr (db', u')"
  shows "core_frame db db'"
  using assms
proof (induction vs arbitrary: db u)
  case (Cons v vs)
  then obtain db1 u1 where 1: "pay_curator m W v (db, u) = Inr (db1, u1)" and r: "foldE (pay_curator m W) vs (db1, u1) = Inr (db', u')"
    by (auto simp: bindE_eq_Inr)
  from 1 have "core_frame db db1"
    by (auto simp: pay_curator_def bindE_eq_Inr split: if_splits
        dest!: create_vesting_frame balance_frames(1) intro: core_frame_trans)
  from this Cons.IH[OF r] show ?case by (rule core_frame_trans)
qed simp

lemma pay_curators_kept: "pay_curators db c m = Inr (db', p, u) \<Longrightarrow> core_frame db db'"
  by (auto simp: pay_curators_def bindE_eq_Inr split: if_splits dest: pay_curator_kept)

lemma pay_author_kept:
  assumes "pay_author db c a k b r = Inr db'"
  shows "posts_kept db db'"
  using assms
proof (rule pay_author_cases)
  fix n v db1 nv s db2 s1 s2 db3 x y z db4
  assume 1: "create_vesting db n (mk_asset v STEEM_SYMBOL) True = Inr (db1, nv)"
    and 2: "create_sbd db1 n (mk_asset s STEEM_SYMBOL) True = Inr (db2, s1, s2)"
    and 3: "adjust_total_payout db2 (co_id c) x y z = Inr db3"
    and 4: "modify_comment db3 (co_id c) (\<lambda>c. bindE (safe_add (co_author_rewards c) a) (\<lambda>r. Inr (c\<lparr> co_author_rewards := r \<rparr>))) = Inr db4"
    and 5: "modify_account db4 (co_author c) (gain_posting a) = Inr db'"
  have "posts_kept db2 db3"
    using 3 unfolding adjust_total_payout_def by (rule modify_comment_kept) (auto simp: bindE_eq_Inr row_kept_def node_of_def)
  moreover have "posts_kept db3 db4"
    using 4 by (rule modify_comment_kept) (auto simp: bindE_eq_Inr row_kept_def node_of_def)
  ultimately show ?thesis
    using core_frame_kept[OF create_vesting_frame[OF 1]] core_frame_kept[OF create_sbd_frame[OF 2]]
      core_frame_kept[OF balance_frames(1)[OF 5]]
    by (meson posts_kept_trans)
qed

lemma award_comment_kept:
  assumes "award_comment ctx db c = Inr (db', a)"
  shows "posts_kept db db'"
proof -
  have "posts_kept db db'" if "pay_comment db c r = Inr (db', a)" for r
    using that
  proof (rule pay_comment_cases)
    fix percent author db1 curation un db2 total author' db3
    assume "pay_curators db c (to_int64 (to_uint128 (r * percent) div STEEM_100_PERCENT)) = Inr (db1, curation, un)"
      and "foldE (pay_beneficiary author) (co_beneficiaries c) (db1, 0) = Inr (db2, total)"
      and "pay_author db2 c author' curation total a = Inr db3" "db3 = db'"
    then show "posts_kept db db'"
      using core_frame_kept[OF pay_curators_kept] core_frame_kept[OF pay_beneficiary_frame] pay_author_kept
      by (meson posts_kept_trans)
  qed
  with assms show ?thesis by (auto simp: award_comment_def bindE_eq_Inr split: if_splits)
qed

lemma cashout_helper_kept:
  assumes "cashout_comment_helper ctx db i = Inr (db', a)"
  shows "posts_kept db db'"
proof -
  from assms obtain c db1 db2 c2 where
    1: "award_comment ctx db c = Inr (db1, a)"
    and 2: "modify_comment db1 i (\<lambda>c. Inr (close_comment (head_block_time db1) c)) = Inr db2"
    and 3: "get_comment_id db2 i = Inr c2"
    and 4: "foldE (finish_vote c2) (sort_key cv_voter (filter (\<lambda>v. cv_comment v = co_id c2) (rows (db_comment_votes db2)))) db2 = Inr db'"
    by (auto simp: cashout_comment_helper_def bindE_eq_Inr)
  have "posts_kept db1 db2" using 2 by (rule modify_comment_kept) (auto simp: row_kept_def node_of_def close_comment_def)
  moreover have "db' = db2" using 4 finish_votes_closed[OF closed_comment[OF 2 3]] by simp
  ultimately show ?thesis using award_comment_kept[OF 1] by (blast intro: posts_kept_trans)
qed

lemma cashout_comments_kept:
  "foldE (cashout_comment p) is (db, fs) = Inr (db', fs') \<Longrightarrow> posts_kept db db'"
proof (induction "is" arbitrary: db fs)
  case (Cons i "is")
  then obtain d gs where 1: "cashout_comment p i (db, fs) = Inr (d, gs)" and r: "foldE (cashout_comment p) is (d, gs) = Inr (db', fs')"
    by (auto simp: bindE_eq_Inr)
  from 1 have "posts_kept db d" by (auto simp: cashout_comment_def bindE_eq_Inr Let_def dest: cashout_helper_kept)
  from this Cons.IH[OF r] show ?case by (rule posts_kept_trans)
qed simp

lemma write_funds_kept:
  assumes "modify_reward_fund db i (write_fund f) = Inr db'"
  shows "posts_kept db db'"
proof -
  from assms obtain ys where ys: "modify_first (\<lambda>rf. rf_id rf = i) (write_fund f) (rows (db_reward_funds db)) = Inr ys"
    and db': "db' = db\<lparr> db_reward_funds := (db_reward_funds db)\<lparr> rows := ys \<rparr> \<rparr>"
    by (auto simp: modify_reward_fund_def tbl_modify_def bindE_eq_Inr)
  from modify_first_split[OF ys] have "fund_terms db' = fund_terms db"
    by (auto simp: fund_terms_def db' write_fund_def bindE_eq_Inr)
  then show ?thesis by (intro posts_kept_frame) (simp_all add: db')
qed

lemma process_comment_cashout_kept:
  assumes "process_comment_cashout db = Inr db'"
  shows "posts_kept db db'"
proof -
  obtain d fs where d: "decay_funds db = (d, fs)" by fastforce
  with assms obtain gs e hs where
    1: "foldE (cashout_comment (current_median_history d)) (map co_id (due_comments d)) (d, gs) = Inr (e, hs)"
    and 2: "foldE (\<lambda>i db. modify_reward_fund db i (write_fund (hs ! i))) [0..<length hs] e = Inr db'"
    by (auto simp: process_comment_cashout_def bindE_eq_Inr)
  have "posts_kept db d"
    using d by (intro posts_kept_frame) (auto simp: decay_funds_def Let_def fund_terms_def decay_fund_def)
  moreover have "posts_kept e db'" using 2 by (rule foldE_kept) (rule write_funds_kept)
  ultimately show ?thesis using cashout_comments_kept[OF 1] by (blast intro: posts_kept_trans)
qed

section \<open>What posts and votes leave alone\<close>

text \<open>A relation between states that may be crossed by any change of the tables of posts and by any change of an account
  that keeps its holdings is kept by every operation on posts.\<close>

locale post_frame =
  fixes R :: "database \<Rightarrow> database \<Rightarrow> bool"
  assumes same_state [intro]: "R db db"
    and compose: "R a b \<Longrightarrow> R b c \<Longrightarrow> R a c"
    and comments: "R db (db\<lparr> db_comments := t \<rparr>)"
    and contents: "R db (db\<lparr> db_comment_contents := u \<rparr>)"
    and comment_votes: "R db (db\<lparr> db_comment_votes := v \<rparr>)"
    and account_change: "modify_account db n f = Inr db' \<Longrightarrow> (\<And>a a'. f a = Inr a' \<Longrightarrow> same_holdings a a') \<Longrightarrow> R db db'"
begin

lemma modify_comment_keeps: "modify_comment db i f = Inr db' \<Longrightarrow> R db db'"
  by (auto simp: modify_comment_def bindE_eq_Inr intro: comments)

lemma create_vote_keeps: "create_vote db mk = Inr db' \<Longrightarrow> R db db'"
  by (auto simp: create_vote_def bindE_eq_Inr intro: comment_votes)

lemma modify_vote_keeps: "modify_vote db c a f = Inr db' \<Longrightarrow> R db db'"
  by (auto simp: modify_vote_def bindE_eq_Inr intro: comment_votes)

lemma touch_ancestors_keeps: "touch_ancestors fuel now d i db = Inr db' \<Longrightarrow> R db db'"
proof (induction fuel arbitrary: i db)
  case (Suc fuel)
  from Suc.prems obtain db1 and p :: comment_object where
    1: "modify_comment db i (\<lambda>p. Inr (p\<lparr> co_children := to_uint32 (co_children p + d), co_active := now \<rparr>)) = Inr db1"
    and 2: "(if co_parent_author p \<noteq> [] then
       bindE (get_comment db1 (co_parent_author p) (co_parent_permlink p)) (\<lambda>q. touch_ancestors fuel now d (co_id q) db1)
     else Inr db1) = Inr db'" unfolding touch_ancestors.simps bindE_eq_Inr by blast
  from 2 Suc.IH have "R db1 db'" by (auto simp: bindE_eq_Inr split: if_splits)
  with modify_comment_keeps[OF 1] show ?case by (rule compose)
qed simp

lemma spend_power_keeps: "modify_account db n (spend_power now p) = Inr db' \<Longrightarrow> R db db'"
  by (erule account_change) (auto simp: spend_power_def same_holdings_def)

lemma post_comment_keeps:
  assumes "post_comment db o1 auth parent = Inr db'"
  shows "R db db'"
  using assms
proof (rule post_comment_cases)
  fix db1 db2 db3 i
  assume 1: "modify_account db (cm_author o1) (count_post (cm_parent_author o1 = []) (head_block_time db)) = Inr db1"
    and 2: "create_comment db1 o1 parent = Inr (db2, i)" and 3: "create_content db2 o1 i = Inr db3"
    and 4: "(case parent of None \<Rightarrow> Inr db3 | Some p \<Rightarrow> touch_ancestors (ancestor_fuel p) (head_block_time db) 1 (co_id p) db3) = Inr db'"
  have "R db db1" using 1 by (rule account_change) (auto simp: count_post_def same_holdings_def)
  moreover have "R db1 db2" using 2 by (auto simp: create_comment_def bindE_eq_Inr intro: comments)
  moreover have "R db2 db3" using 3 by (auto simp: create_content_def bindE_eq_Inr intro: contents)
  moreover have "R db3 db'" using 4 by (auto split: option.splits dest: touch_ancestors_keeps)
  ultimately show ?thesis by (blast intro: compose)
qed

lemma edit_comment_keeps:
  assumes "edit_comment dmp db o1 parent c = Inr db'"
  shows "R db db'"
proof -
  from assms obtain f db1 t where "modify_comment db (co_id c) f = Inr db1" and "db' = db1\<lparr> db_comment_contents := t \<rparr>"
    unfolding edit_comment_def run_simps by auto
  then show ?thesis using modify_comment_keeps contents by (blast intro: compose)
qed

lemma comment_keeps: "comment_do_apply dmp db o1 = Inr db' \<Longrightarrow> R db db'"
  by (erule comment_cases) (blast intro: post_comment_keeps edit_comment_keeps)+

lemma comment_options_keeps:
  assumes "comment_options_do_apply db o1 = Inr db'"
  shows "R db db'"
  using assms
proof (rule comment_options_cases)
  fix c db1
  assume 1: "modify_comment db (co_id c) (\<lambda>c. Inr (c\<lparr> co_max_accepted_payout := cop_max_accepted_payout o1,
           co_percent_steem_dollars := cop_percent_steem_dollars o1, co_allow_votes := cop_allow_votes o1,
           co_allow_curation_rewards := cop_allow_curation_rewards o1 \<rparr>)) = Inr db1"
    and 2: "foldE (add_beneficiaries (co_id c)) (cop_extensions o1) db1 = Inr db'"
  have one: "R d d'" if "add_beneficiaries (co_id c) x d = Inr d'" for x d d'
    using that by (auto simp: add_beneficiaries_def bindE_eq_Inr fc_assert_eq_Inr dest: modify_comment_keeps)
  have "R db1 db'" using 2 by (rule foldE_rel) (fast intro: one compose)+
  with modify_comment_keeps[OF 1] show ?thesis by (rule compose)
qed

lemma delete_comment_keeps:
  assumes "delete_comment_do_apply db o1 = Inr db'"
  shows "R db db'"
  using assms
proof (rule delete_comment_cases)
  fix db0 db1 c
  assume 0: "db0 = db\<lparr> db_comment_votes := fold tbl_erase (filter (\<lambda>v. cv_comment v = co_id c)
       (sort_key cv_voter (rows (db_comment_votes db)))) (db_comment_votes db) \<rparr>"
    and 1: "(if co_parent_author c \<noteq> [] then
        bindE (get_comment db0 (co_parent_author c) (co_parent_permlink c)) (\<lambda>p.
        touch_ancestors (ancestor_fuel p) (head_block_time db0) (-1) (co_id p) db0)
      else Inr db0) = Inr db1"
    and 2: "db' = db1\<lparr> db_comments := tbl_remove (\<lambda>k. co_id k = co_id c) (db_comments db1) \<rparr>"
  have "R db db0" unfolding 0 by (rule comment_votes)
  moreover have "R db0 db1" using 1 by (auto simp: bindE_eq_Inr split: if_splits dest: touch_ancestors_keeps)
  moreover have "R db1 db'" unfolding 2 by (rule comments)
  ultimately show ?thesis by (blast intro: compose)
qed

lemma first_vote_keeps:
  assumes "first_vote db o1 c a (cur, used, r) = Inr db'"
  shows "R db db'"
  using assms
proof (rule first_vote_cases)
  fix db1 root db2 db3 k w m db4
  assume 1: "modify_account db (ac_name a) (spend_power (head_block_time db) (cur - used)) = Inr db1"
    and 2: "modify_comment db1 (co_id c) (count_vote (vote_rshares o1 r) r) = Inr db2"
    and 3: "modify_comment db2 (co_id root) (count_discussion r) = Inr db3"
    and 4: "create_vote db3 (\<lambda>i. \<lparr> cv_id = i, cv_voter = ac_id a, cv_comment = co_id c, cv_weight = w,
          cv_rshares = vote_rshares o1 r, cv_vote_percent = vo_weight o1, cv_last_update = head_block_time db, cv_num_changes = 0 \<rparr>) = Inr db4"
    and 5: "(if m \<noteq> 0 then modify_comment db4 (co_id c) (\<lambda>c.
            Inr (c\<lparr> co_total_vote_weight := to_uint64 (co_total_vote_weight c + m) \<rparr>)) else Inr db4) = Inr db'"
  have "R db4 db'" using 5 by (auto split: if_splits dest: modify_comment_keeps)
  with spend_power_keeps[OF 1] modify_comment_keeps[OF 2] modify_comment_keeps[OF 3] create_vote_keeps[OF 4]
  show ?thesis by (blast intro: compose)
qed

lemma change_vote_keeps:
  assumes "change_vote db o1 c a v (cur, used, r) = Inr db'"
  shows "R db db'"
  using assms
proof (rule change_vote_cases)
  fix db1 root db2 db3 db4
  assume 1: "modify_account db (ac_name a) (spend_power (head_block_time db) (cur - used)) = Inr db1"
    and 2: "modify_comment db1 (co_id c) (recount_vote (vote_rshares o1 r) r (cv_rshares v)) = Inr db2"
    and 3: "modify_comment db2 (co_id root) (count_discussion r) = Inr db3"
    and 4: "modify_comment db3 (co_id c) (\<lambda>c.
         Inr (c\<lparr> co_total_vote_weight := to_uint64 (co_total_vote_weight c - cv_weight v) \<rparr>)) = Inr db4"
    and 5: "modify_vote db4 c a (\<lambda>cv. cv\<lparr> cv_rshares := vote_rshares o1 r, cv_vote_percent := vo_weight o1,
         cv_last_update := head_block_time db, cv_weight := 0, cv_num_changes := cv_num_changes cv + 1 \<rparr>) = Inr db'"
  from spend_power_keeps[OF 1] modify_comment_keeps[OF 2] modify_comment_keeps[OF 3] modify_comment_keeps[OF 4] modify_vote_keeps[OF 5]
  show ?thesis by (blast intro: compose)
qed

lemma record_late_vote_keeps: "record_late_vote db o1 c a itr = Inr db' \<Longrightarrow> R db db'"
  by (auto simp: record_late_vote_def split: option.splits dest: create_vote_keeps modify_vote_keeps)

lemma vote_keeps: "vote_do_apply db o1 = Inr db' \<Longrightarrow> R db db'"
  by (erule vote_cases) (blast intro: record_late_vote_keeps first_vote_keeps change_vote_keeps)+

end

text \<open>Posts and votes move no funds.\<close>

interpretation post_ledger: post_frame ledger_same
proof unfold_locales
  fix db n f db' assume "modify_account db n f = Inr db'" and "\<And>a a'. f a = Inr a' \<Longrightarrow> same_holdings a a'"
  then show "ledger_same db db'" by (rule modify_account_same)
qed (auto simp: ledger_same_def)

end
