(* ===== verification/Curation.thy ===== *)
theory Curation
  imports Comments
begin

text \<open>
  Curation: the weights of the votes on a post against the total that the payout divides by, and the
  voting power that a vote spends.  The lemmas show that every operation on posts and every payout keeps the
  weights within their totals, and that a vote is worth no more than the stake behind it.
\<close>

section \<open>Curation weights\<close>

definition curation_curve :: "reward_fund_object \<Rightarrow> int \<Rightarrow> int" where
  "curation_curve rf r =
     res_or 0 (evaluate_reward_curve (to_uint128 r) (rf_curation_reward_curve rf) (rf_content_constant rf))"

definition weight_entry :: "comment_object \<Rightarrow> nat \<times> time_point_sec \<times> int \<times> int" where
  "weight_entry c = (co_id c, co_cashout_time c, co_vote_rshares c, co_total_vote_weight c)"

text \<open>The weights of the votes on a post that is not paid yet add up to at most its total, and the total is at
  most the value of the curation curve.\<close>

definition votes_fit :: "comment_vote_object list \<Rightarrow> nat \<Rightarrow> int \<Rightarrow> bool" where
  "votes_fit vs i tot \<longleftrightarrow> (let us = filter (\<lambda>v. cv_comment v = i) vs in
     list_all (\<lambda>v. 0 \<le> cv_weight v) us \<and> sum_list (map cv_weight us) \<le> tot \<and> tot < two64)"

definition entry_ok :: "comment_vote_object list \<Rightarrow> reward_fund_object \<Rightarrow> nat \<times> time_point_sec \<times> int \<times> int \<Rightarrow> bool" where
  "entry_ok vs rf = (\<lambda>(i, cash, r, tot). cash \<noteq> time_maximum \<longrightarrow>
     0 \<le> r \<and> r \<le> int64_max \<and> votes_fit vs i tot \<and> tot \<le> curation_curve rf r)"

definition fund_ok :: "reward_fund_object \<Rightarrow> bool" where
  "fund_ok rf \<longleftrightarrow> 0 < rf_content_constant rf \<and> rf_content_constant rf \<le> int64_max"

definition weights_ok :: "database \<Rightarrow> bool" where
  "weights_ok db \<longleftrightarrow>
     list_all (\<lambda>v. cv_comment v < next_id (db_comments db)) (rows (db_comment_votes db)) \<and>
     (case tbl_find (\<lambda>rf. rf_name rf = STEEM_POST_REWARD_FUND_NAME) (db_reward_funds db) of None \<Rightarrow> False
      | Some rf \<Rightarrow> fund_ok rf \<and> list_all (entry_ok (rows (db_comment_votes db)) rf) (map weight_entry (rows (db_comments db))))"

lemma curation_curve_mono:
  assumes "fund_ok rf" "0 \<le> x" "x \<le> y" "y \<le> int64_max"
  shows "0 \<le> curation_curve rf x" "curation_curve rf x \<le> curation_curve rf y"
    and "curve_weight rf y = fc_assert 97 (curation_curve rf y < two64) (Inr (curation_curve rf y))"
proof -
  have u: "to_uint128 x = x" "to_uint128 y = y" using assms by simp_all
  from assms reward_curve_mono[of x y "rf_content_constant rf" "rf_curation_reward_curve rf"]
  obtain a b where "evaluate_reward_curve x (rf_curation_reward_curve rf) (rf_content_constant rf) = Inr a"
    "evaluate_reward_curve y (rf_curation_reward_curve rf) (rf_content_constant rf) = Inr b" "0 \<le> a" "a \<le> b"
    by (auto simp: fund_ok_def)
  then show "0 \<le> curation_curve rf x" "curation_curve rf x \<le> curation_curve rf y"
    "curve_weight rf y = fc_assert 97 (curation_curve rf y < two64) (Inr (curation_curve rf y))"
    using u by (simp_all add: curation_curve_def res_or_def curve_weight_def)
qed

lemma reverse_auction_bounds:
  assumes "0 \<le> m" "m < two64" "0 \<le> d" "d \<le> STEEM_REVERSE_AUCTION_WINDOW_SECONDS"
  shows "0 \<le> to_uint128 (m * d) div STEEM_REVERSE_AUCTION_WINDOW_SECONDS"
    and "to_uint128 (m * d) div STEEM_REVERSE_AUCTION_WINDOW_SECONDS \<le> m"
proof -
  have md: "0 \<le> m * d" "m * d \<le> m * STEEM_REVERSE_AUCTION_WINDOW_SECONDS" using assms by (auto intro: mult_left_mono)
  then have u: "to_uint128 (m * d) = m * d" using assms(2) by simp
  show "0 \<le> to_uint128 (m * d) div STEEM_REVERSE_AUCTION_WINDOW_SECONDS" using md by (simp add: u pos_imp_zdiv_nonneg_iff)
  show "to_uint128 (m * d) div STEEM_REVERSE_AUCTION_WINDOW_SECONDS \<le> m"
    using zdiv_mono1[OF md(2), of STEEM_REVERSE_AUCTION_WINDOW_SECONDS] by (simp add: u)
qed

lemma vote_weight_value:
  assumes run: "vote_weight db c rs old now = Inr (w, m)"
    and rf: "tbl_find (\<lambda>rf. rf_name rf = STEEM_POST_REWARD_FUND_NAME) (db_reward_funds db) = Some rf" "fund_ok rf"
    and r: "0 \<le> old" "old \<le> co_vote_rshares c" "co_vote_rshares c \<le> int64_max"
  shows "0 \<le> w" "w \<le> m"
    and "m = 0 \<or> m = curation_curve rf (co_vote_rshares c) - curation_curve rf old \<and> curation_curve rf (co_vote_rshares c) < two64"
proof -
  have g: "get_reward_fund db c = Inr rf" using rf(1) by (simp add: get_reward_fund_def tbl_get_Inr)
  have old: "old \<le> int64_max" using r by simp
  note c0 = curation_curve_mono(1)[OF rf(2) r(1) order.refl old] and cm = curation_curve_mono(2)[OF rf(2) r]
  note cw = curation_curve_mono(3)[OF rf(2) r(1) order.refl old] curation_curve_mono(3)[OF rf(2) r]
  let ?m = "curation_curve rf (co_vote_rshares c) - curation_curve rf old"
  let ?d = "min (to_uint64 (now - co_created c)) STEEM_REVERSE_AUCTION_WINDOW_SECONDS"
  have "(w = 0 \<and> m = 0) \<or> (curation_curve rf (co_vote_rshares c) < two64 \<and> m = to_uint64 ?m \<and>
      w = to_uint128 (to_uint64 ?m * ?d) div STEEM_REVERSE_AUCTION_WINDOW_SECONDS)"
    using run by (auto simp: vote_weight_def bindE_eq_Inr g cw fc_assert_eq_Inr Let_def split: if_splits)
  then show "0 \<le> w" "w \<le> m"
    "m = 0 \<or> m = curation_curve rf (co_vote_rshares c) - curation_curve rf old \<and> curation_curve rf (co_vote_rshares c) < two64"
  proof (atomize (full), elim disjE conjE)
    assume b: "curation_curve rf (co_vote_rshares c) < two64" "m = to_uint64 ?m"
      and w: "w = to_uint128 (to_uint64 ?m * ?d) div STEEM_REVERSE_AUCTION_WINDOW_SECONDS"
    have q: "0 \<le> ?m" "?m < two64" using b(1) c0 cm by linarith+
    then have m: "to_uint64 ?m = ?m" by (rule to_uint64_small)
    have d: "0 \<le> ?d" "?d \<le> STEEM_REVERSE_AUCTION_WINDOW_SECONDS" by (simp_all add: to_uint64_def)
    from reverse_auction_bounds[OF q d, folded w[unfolded m]] b m
    show "0 \<le> w \<and> w \<le> m \<and> (m = 0 \<or> m = curation_curve rf (co_vote_rshares c) - curation_curve rf old \<and> curation_curve rf (co_vote_rshares c) < two64)"
      by metis
  qed simp
qed

lemma weights_okD:
  assumes "weights_ok db"
  obtains rf where "tbl_find (\<lambda>rf. rf_name rf = STEEM_POST_REWARD_FUND_NAME) (db_reward_funds db) = Some rf" "fund_ok rf"
    "list_all (entry_ok (rows (db_comment_votes db)) rf) (map weight_entry (rows (db_comments db)))"
  using assms by (auto simp: weights_ok_def split: option.splits)

lemma find_terms:
  assumes "map h ys = map h xs" "List.find P xs = Some x" "\<And>a b. h a = h b \<Longrightarrow> P a = P b"
  shows "\<exists>y. List.find P ys = Some y \<and> h y = h x"
  using assms(1,2)
proof (induction xs arbitrary: ys)
  case (Cons a xs)
  then obtain b zs where "ys = b # zs" "h b = h a" "map h zs = map h xs" by (cases ys) auto
  with Cons assms(3)[of b a] show ?case by (auto split: if_splits)
qed simp

lemma entry_kept:
  assumes "row_kept c c'" "entry_ok vs rf (weight_entry c)"
    and "rf_curation_reward_curve rf' = rf_curation_reward_curve rf" "rf_content_constant rf' = rf_content_constant rf"
  shows "entry_ok vs rf' (weight_entry c')"
  using assms by (auto simp: row_kept_def entry_ok_def weight_entry_def curation_curve_def node_of_def)

lemma posts_kept_weights:
  assumes k: "posts_kept db db'" and ok: "weights_ok db"
  shows "weights_ok db'"
  using ok
proof (rule weights_okD)
  fix rf
  assume rf: "tbl_find (\<lambda>rf. rf_name rf = STEEM_POST_REWARD_FUND_NAME) (db_reward_funds db) = Some rf" "fund_ok rf"
    and e: "list_all (entry_ok (rows (db_comment_votes db)) rf) (map weight_entry (rows (db_comments db)))"
  from k have "map (\<lambda>rf. (rf_name rf, rf_curation_reward_curve rf, rf_content_constant rf)) (rows (db_reward_funds db'))
     = map (\<lambda>rf. (rf_name rf, rf_curation_reward_curve rf, rf_content_constant rf)) (rows (db_reward_funds db))"
    by (simp add: posts_kept_def fund_terms_def)
  from find_terms[OF this rf(1)[unfolded tbl_find_def]] obtain rf' where
    rf': "tbl_find (\<lambda>rf. rf_name rf = STEEM_POST_REWARD_FUND_NAME) (db_reward_funds db') = Some rf'"
      "rf_curation_reward_curve rf' = rf_curation_reward_curve rf" "rf_content_constant rf' = rf_content_constant rf"
    by (auto simp: tbl_find_def)
  from k have "list_all2 row_kept (rows (db_comments db)) (rows (db_comments db'))" by (simp add: posts_kept_def)
  then have "list_all (entry_ok (rows (db_comment_votes db)) rf') (map weight_entry (rows (db_comments db')))"
    using e by (induction rule: list_all2_induct) (auto intro: entry_kept rf'(2,3))
  with k rf' rf(2) ok show ?thesis by (simp add: posts_kept_def weights_ok_def fund_ok_def)
qed

text \<open>New posts have no votes, and a deleted post takes its votes along.\<close>

lemma entry_touch: "map weight_entry (touch_rows I now d cs) = map weight_entry cs"
  by (auto simp: touch_rows_def weight_entry_def)

lemma weights_frame:
  assumes "weights_ok db" "db_reward_funds db' = db_reward_funds db" "next_id (db_comments db) \<le> next_id (db_comments db')"
    and "set (map weight_entry (rows (db_comments db'))) \<subseteq> set (map weight_entry (rows (db_comments db))) \<union> E"
    and "set (rows (db_comment_votes db')) \<subseteq> set (rows (db_comment_votes db))"
    and "\<And>rf e. fund_ok rf \<Longrightarrow> e \<in> set (map weight_entry (rows (db_comments db'))) \<Longrightarrow>
      (e \<notin> E \<Longrightarrow> entry_ok (rows (db_comment_votes db)) rf e) \<Longrightarrow> entry_ok (rows (db_comment_votes db')) rf e"
  shows "weights_ok db'"
  using assms(1)
proof (rule weights_okD)
  fix rf
  assume rf: "tbl_find (\<lambda>rf. rf_name rf = STEEM_POST_REWARD_FUND_NAME) (db_reward_funds db) = Some rf" "fund_ok rf"
    and e: "list_all (entry_ok (rows (db_comment_votes db)) rf) (map weight_entry (rows (db_comments db)))"
  have "entry_ok (rows (db_comment_votes db')) rf x" if x: "x \<in> set (map weight_entry (rows (db_comments db')))" for x
    using assms(6)[OF rf(2) x] assms(4) x e by (auto simp: list_all_iff)
  then have "list_all (entry_ok (rows (db_comment_votes db')) rf) (map weight_entry (rows (db_comments db')))"
    unfolding list_all_iff by blast
  moreover have "list_all (\<lambda>v. cv_comment v < next_id (db_comments db')) (rows (db_comment_votes db'))"
    using assms(1,3,5) by (fastforce simp: weights_ok_def list_all_iff)
  ultimately show ?thesis using rf by (simp add: weights_ok_def assms(2))
qed

lemma new_entry_ok:
  assumes "weights_ok db" "fund_ok rf"
  shows "entry_ok (rows (db_comment_votes db)) rf (next_id (db_comments db), cash, 0, 0)"
proof -
  have "filter (\<lambda>v. cv_comment v = next_id (db_comments db)) (rows (db_comment_votes db)) = []"
    using assms(1) by (auto simp: weights_ok_def list_all_iff filter_empty_conv)
  with curation_curve_mono(1)[OF assms(2), of 0 0] show ?thesis by (simp add: entry_ok_def votes_fit_def)
qed

lemma post_comment_weights:
  assumes run: "post_comment db o1 auth parent = Inr db'" and ok: "comments_ok db" and p: "parent_fits db parent" and w: "weights_ok db"
  shows "weights_ok db'"
  using run ok p
proof (rule post_comment_effect)
  fix c
  assume c: "co_id c = next_id (db_comments db)" "co_vote_rshares c = 0" "co_total_vote_weight c = 0"
    and r: "rows (db_comments db') = touch_rows (set (ancestors (nodes db) (node_of c))) (head_block_time db) 1 (rows (db_comments db) @ [c])"
    and n: "next_id (db_comments db') = Suc (next_id (db_comments db))"
    and v: "db_comment_votes db' = db_comment_votes db" "db_reward_funds db' = db_reward_funds db"
  have e: "weight_entry c = (next_id (db_comments db), co_cashout_time c, 0, 0)" using c by (simp add: weight_entry_def)
  show ?thesis
    by (rule weights_frame[OF w v(2), where E = "{weight_entry c}"])
      (use new_entry_ok[OF w] in \<open>auto simp: n r v(1) entry_touch e\<close>)
qed

lemma comment_weights:
  assumes run: "comment_do_apply dmp db o1 = Inr db'" and ok: "comments_ok db" and w: "weights_ok db"
  shows "weights_ok db'"
  using run
proof (rule comment_cases)
  fix auth parent
  assume "parent_fits db parent" "post_comment db o1 auth parent = Inr db'"
  with post_comment_weights ok w show ?thesis by blast
next
  fix parent c
  assume "edit_comment dmp db o1 parent c = Inr db'"
  from posts_kept_weights[OF edit_comment_kept[OF this] w] show ?thesis .
qed

lemma filter_erase:
  assumes "list_all (\<lambda>v. \<not> P v) us"
  shows "filter P (rows (fold tbl_erase us t)) = filter P (rows t)"
proof -
  have one: "filter P (remove1 v xs) = filter P xs" if "\<not> P v" for v xs using that by (induction xs) auto
  from assms show ?thesis by (induction us arbitrary: t) (auto simp: one)
qed

lemma erase_subset: "set (rows (fold tbl_erase us t)) \<subseteq> set (rows t)"
proof (induction us arbitrary: t)
  case (Cons u us)
  from Cons[of "tbl_erase u t"] set_remove1_subset[of u "rows t"] show ?case by auto
qed simp

lemma delete_comment_weights:
  assumes run: "delete_comment_do_apply db o1 = Inr db'" and ok: "comments_ok db" and w: "weights_ok db"
  shows "weights_ok db'"
  using run ok
proof (rule delete_comment_effect)
  fix c vs now
  assume c: "c \<in> set (rows (db_comments db))"
    and r: "rows (db_comments db') = remove_first (\<lambda>k. co_id k = co_id c)
      (touch_rows (set (ancestors (nodes db) (node_of c))) now (-1) (rows (db_comments db)))"
    and n: "next_id (db_comments db') = next_id (db_comments db)"
    and v: "list_all (\<lambda>v. cv_comment v = co_id c) vs" "db_comment_votes db' = fold tbl_erase vs (db_comment_votes db)"
    and f: "db_reward_funds db' = db_reward_funds db"
  have ids: "distinct (map co_id (rows (db_comments db)))" using ok by (auto simp: comments_ok_def dest: forest_distinct(1))
  have gone: "co_id k \<noteq> co_id c" if "k \<in> set (rows (db_comments db'))" for k
  proof -
    have "distinct (map co_id (touch_rows (set (ancestors (nodes db) (node_of c))) now (-1) (rows (db_comments db))))"
      using ids by (simp add: touch_rows_def o_def if_distrib cong: if_cong)
    then show ?thesis using that unfolding r by (rule remove_first_gone)
  qed
  have sub: "set (map weight_entry (rows (db_comments db'))) \<subseteq> set (map weight_entry (rows (db_comments db)))"
    using remove_first_subset entry_touch[of _ _ _ "rows (db_comments db)"] unfolding r by (metis (no_types, lifting) image_mono set_map)
  have "entry_ok (rows (db_comment_votes db')) rf e"
    if "e \<in> set (map weight_entry (rows (db_comments db')))" "entry_ok (rows (db_comment_votes db)) rf e" for rf e
  proof -
    from that(1) obtain k where k: "k \<in> set (rows (db_comments db'))" "e = weight_entry k" by auto
    have "list_all (\<lambda>v. cv_comment v \<noteq> co_id k) vs" using v(1) gone[OF k(1)] by (auto simp: list_all_iff)
    from filter_erase[OF this] have "filter (\<lambda>v. cv_comment v = co_id k) (rows (db_comment_votes db'))
      = filter (\<lambda>v. cv_comment v = co_id k) (rows (db_comment_votes db))" by (simp add: v(2))
    with that(2) k(2) show ?thesis by (simp add: entry_ok_def weight_entry_def votes_fit_def)
  qed
  moreover have "set (rows (db_comment_votes db')) \<subseteq> set (rows (db_comment_votes db))"
    by (simp add: v(2) erase_subset)
  ultimately show ?thesis using sub by (intro weights_frame[OF w f, where E = "{}"]) (auto simp: n)
qed

text \<open>A vote changes the entry of its post and the votes on it.\<close>

abbreviation entries :: "database \<Rightarrow> (nat \<times> time_point_sec \<times> int \<times> int) list" where
  "entries db \<equiv> map weight_entry (rows (db_comments db))"

lemma entry_of: "weight_entry c = (co_id c, co_cashout_time c, co_vote_rshares c, co_total_vote_weight c)"
  by (simp add: weight_entry_def)

lemma vote_weights_step:
  assumes w: "weights_ok db" and e: "entries db' = map (\<lambda>x. if fst x = i then e else x) (entries db)"
    and f: "db_reward_funds db' = db_reward_funds db" and n: "next_id (db_comments db') = next_id (db_comments db)"
    and b: "list_all (\<lambda>v. cv_comment v < next_id (db_comments db)) (rows (db_comment_votes db'))"
    and o: "\<And>j. j \<noteq> i \<Longrightarrow> filter (\<lambda>v. cv_comment v = j) (rows (db_comment_votes db')) = filter (\<lambda>v. cv_comment v = j) (rows (db_comment_votes db))"
    and k: "\<And>rf. tbl_find (\<lambda>rf. rf_name rf = STEEM_POST_REWARD_FUND_NAME) (db_reward_funds db) = Some rf \<Longrightarrow> fund_ok rf \<Longrightarrow>
       list_all (entry_ok (rows (db_comment_votes db)) rf) (entries db) \<Longrightarrow> entry_ok (rows (db_comment_votes db')) rf e"
  shows "weights_ok db'"
  using w
proof (rule weights_okD)
  fix rf
  assume rf: "tbl_find (\<lambda>rf. rf_name rf = STEEM_POST_REWARD_FUND_NAME) (db_reward_funds db) = Some rf" "fund_ok rf"
    and l: "list_all (entry_ok (rows (db_comment_votes db)) rf) (entries db)"
  have old: "entry_ok (rows (db_comment_votes db')) rf x" if "entry_ok (rows (db_comment_votes db)) rf x" "fst x \<noteq> i" for x
    using that o[of "fst x"] by (cases x) (simp add: entry_ok_def votes_fit_def)
  have "list_all (entry_ok (rows (db_comment_votes db')) rf) (entries db')"
    unfolding e using k[OF rf l] old[of "weight_entry _"] l by (auto simp: list_all_iff simp del: split_paired_All)
  then show ?thesis using rf n b by (simp add: weights_ok_def f)
qed

lemma modify_comment_row:
  assumes "modify_comment db i f = Inr db'" "comments_ok db" "c \<in> set (rows (db_comments db))" "co_id c = i"
  obtains c' where "f c = Inr c'" "rows (db_comments db') = map (\<lambda>x. if co_id x = i then c' else x) (rows (db_comments db))"
proof -
  from assms(1) obtain t where t: "tbl_modify (\<lambda>c. co_id c = i) f (db_comments db) = Inr t" "db' = db\<lparr> db_comments := t \<rparr>"
    by (auto simp: modify_comment_def bindE_eq_Inr)
  have d: "distinct (map co_id (rows (db_comments db)))" using assms(2) by (auto simp: comments_ok_def dest: forest_distinct(1))
  from t(1) d show thesis
  proof (rule tbl_modify_key)
    fix v v'
    assume v: "v \<in> set (rows (db_comments db))" "co_id v = i" "f v = Inr v'"
      and r: "rows t = map (\<lambda>x. if co_id x = i then v' else x) (rows (db_comments db))"
    have "v = c" using d v assms(3,4) by (auto simp: distinct_map dest: inj_onD)
    with that v r t(2) show thesis by simp
  qed
qed

lemma modify_comment_frames:
  "modify_comment db i f = Inr db' \<Longrightarrow> db_comment_votes db' = db_comment_votes db \<and> db_reward_funds db' = db_reward_funds db"
  by (auto simp: modify_comment_def bindE_eq_Inr)

lemma modify_comment_entries:
  assumes "modify_comment db i f = Inr db'" "\<And>c c'. f c = Inr c' \<Longrightarrow> weight_entry c' = weight_entry c"
  shows "entries db' = entries db"
proof -
  from assms(1) obtain ys where ys: "modify_first (\<lambda>c. co_id c = i) f (rows (db_comments db)) = Inr ys"
    and db': "db' = db\<lparr> db_comments := (db_comments db)\<lparr> rows := ys \<rparr> \<rparr>"
    by (auto simp: modify_comment_def tbl_modify_def bindE_eq_Inr)
  from modify_first_split[OF ys] assms(2) show ?thesis by (auto simp: db')
qed

lemma entries_at:
  assumes "comments_ok db" "get_comment_id db i = Inr c" "e \<in> set (entries db)" "fst e = i"
  shows "weight_entry c = e"
proof -
  have c: "c \<in> set (rows (db_comments db))" "co_id c = i"
    using assms(2) by (auto simp: get_comment_id_def tbl_get_Inr dest: tbl_find_Some)
  from assms(3) obtain k where k: "k \<in> set (rows (db_comments db))" "e = weight_entry k" by auto
  have "distinct (map co_id (rows (db_comments db)))" using assms(1) by (auto simp: comments_ok_def dest: forest_distinct(1))
  then have "k = c" using k c assms(4) by (auto simp: distinct_map weight_entry_def dest: inj_onD)
  with k show ?thesis by simp
qed

lemma replace_twice:
  "fst f = i \<Longrightarrow> map (\<lambda>x. if fst x = i then e else x) (map (\<lambda>x. if fst x = i then f else x) xs) = map (\<lambda>x. if fst x = i then e else x) xs"
  by auto

lemma first_vote_effect:
  assumes run: "first_vote db o1 comment a (cur, used, r) = Inr db'" and ok: "comments_ok db"
    and c: "comment \<in> set (rows (db_comments db))"
  obtains vr w m v c3 db3 where "0 < r"
    "co_vote_rshares comment + (if vo_weight o1 < 0 then 0 else r) = vr" "vo_weight o1 < 0 \<or> vr \<le> int64_max" "co_vote_rshares c3 = vr"
    "vote_weight db3 c3 (vote_rshares o1 r) (co_vote_rshares comment) (head_block_time db) = Inr (w, m)"
    "db_reward_funds db3 = db_reward_funds db"
    "entries db' = map (\<lambda>x. if fst x = co_id comment then (co_id comment, co_cashout_time comment, vr,
        (if m = 0 then co_total_vote_weight comment else to_uint64 (co_total_vote_weight comment + m))) else x) (entries db)"
    "db_reward_funds db' = db_reward_funds db" "next_id (db_comments db') = next_id (db_comments db)"
    "rows (db_comment_votes db') = rows (db_comment_votes db) @ [v]" "cv_comment v = co_id comment" "cv_weight v = w"
  using run
proof (rule first_vote_cases)
  fix db1 root db2 db3 c3 w m db4
  let ?i = "co_id comment"
  assume 1: "modify_account db (ac_name a) (spend_power (head_block_time db) (cur - used)) = Inr db1" and r: "0 < r"
    and 2: "modify_comment db1 ?i (count_vote (vote_rshares o1 r) r) = Inr db2"
    and 3: "modify_comment db2 (co_id root) (count_discussion r) = Inr db3"
    and g: "get_comment_id db3 ?i = Inr c3"
    and w: "vote_weight db3 c3 (vote_rshares o1 r) (co_vote_rshares comment) (head_block_time db) = Inr (w, m)"
    and 4: "create_vote db3 (\<lambda>i. \<lparr> cv_id = i, cv_voter = ac_id a, cv_comment = ?i, cv_weight = w,
          cv_rshares = vote_rshares o1 r, cv_vote_percent = vo_weight o1, cv_last_update = head_block_time db, cv_num_changes = 0 \<rparr>) = Inr db4"
    and 5: "(if m \<noteq> 0 then modify_comment db4 ?i (\<lambda>c.
            Inr (c\<lparr> co_total_vote_weight := to_uint64 (co_total_vote_weight c + m) \<rparr>)) else Inr db4) = Inr db'"
  have ok1: "comments_ok db1" and ok3: "comments_ok db3" and ok4: "comments_ok db4"
    using same_forest_ok[OF comment_same(1)[OF 1] ok] same_forest_ok[OF comment_same(4)[OF 2]]
      same_forest_ok[OF comment_same(6)[OF 3]] same_forest_ok[OF comment_same(2)[OF 4]] by blast+
  have c1: "comment \<in> set (rows (db_comments db1))" using c modify_account_comments(1)[OF 1] by simp
  obtain c2 where c2: "count_vote (vote_rshares o1 r) r comment = Inr c2"
    and r2: "rows (db_comments db2) = map (\<lambda>x. if co_id x = ?i then c2 else x) (rows (db_comments db1))"
    using modify_comment_row[OF 2 ok1 c1 refl] by blast
  define vr where "vr = co_vote_rshares comment + (if vo_weight o1 < 0 then 0 else r)"
  have e2: "weight_entry c2 = (?i, co_cashout_time comment, vr, co_total_vote_weight comment)"
    using c2 r by (auto simp: count_vote_def bindE_eq_Inr weight_entry_def vr_def split: if_splits dest!: safe_add_value)
  have vr: "vo_weight o1 < 0 \<or> vr \<le> int64_max"
    using c2 r by (auto simp: count_vote_def bindE_eq_Inr vr_def split: if_splits dest: safe_add_le)
  have n2: "entries db2 = map (\<lambda>x. if fst x = ?i then weight_entry c2 else x) (entries db)"
    by (auto simp: r2 modify_account_comments(1)[OF 1] weight_entry_def)
  have n3: "entries db3 = entries db2"
    using 3 by (rule modify_comment_entries) (auto simp: count_discussion_def bindE_eq_Inr weight_entry_def)
  have m2: "weight_entry c2 \<in> set (entries db3)" using c unfolding n3 n2 by (force simp: weight_entry_def)
  have e3: "weight_entry c3 = weight_entry c2" by (rule entries_at[OF ok3 g m2]) (simp add: e2)
  have c3: "c3 \<in> set (rows (db_comments db4))" "co_id c3 = ?i"
    using g create_vote_comments[OF 4] by (auto simp: get_comment_id_def tbl_get_Inr dest: tbl_find_Some)
  let ?e = "(?i, co_cashout_time comment, vr, (if m = 0 then co_total_vote_weight comment else to_uint64 (co_total_vote_weight comment + m)))"
  have n5: "entries db' = map (\<lambda>x. if fst x = ?i then ?e else x) (entries db) \<and> db_comment_votes db' = db_comment_votes db4
    \<and> db_reward_funds db' = db_reward_funds db4"
  proof (cases "m = 0")
    case True
    with 5 n2 n3 e2 create_vote_comments[OF 4] show ?thesis by auto
  next
    case False
    with 5 have m5: "modify_comment db4 ?i (\<lambda>c. Inr (c\<lparr> co_total_vote_weight := to_uint64 (co_total_vote_weight c + m) \<rparr>)) = Inr db'" by simp
    from modify_comment_row[OF m5 ok4 c3] have "rows (db_comments db') =
      map (\<lambda>x. if co_id x = ?i then c3\<lparr> co_total_vote_weight := to_uint64 (co_total_vote_weight c3 + m) \<rparr> else x) (rows (db_comments db4))" by auto
    then have "entries db' = map (\<lambda>x. if fst x = ?i then ?e else x) (entries db4)"
      using e2 e3 False by (auto simp: weight_entry_def)
    also have "entries db4 = map (\<lambda>x. if fst x = ?i then weight_entry c2 else x) (entries db)" using n2 n3 create_vote_comments[OF 4] by simp
    finally show ?thesis using modify_comment_frames[OF m5] replace_twice[of "weight_entry c2" ?i ?e "entries db"] by (simp add: e2 del: map_map)
  qed
  have v4: "db_reward_funds db4 = db_reward_funds db3" "\<exists>v. rows (db_comment_votes db4) = rows (db_comment_votes db3) @ [v] \<and> cv_comment v = ?i \<and> cv_weight v = w"
    using 4 by (auto simp: create_vote_def bindE_eq_Inr dest!: tbl_create_rows)
  have v3: "db_comment_votes db3 = db_comment_votes db" "db_reward_funds db3 = db_reward_funds db"
    using modify_account_comments(2)[OF 1] modify_comment_frames[OF 2] modify_comment_frames[OF 3] by simp_all
  have nx: "next_id (db_comments db') = next_id (db_comments db)" using first_vote_forest[OF run] by (simp add: same_forest_def)
  from v4(2) obtain v where "rows (db_comment_votes db4) = rows (db_comment_votes db3) @ [v]" "cv_comment v = ?i" "cv_weight v = w" by blast
  with that[OF r vr_def[symmetric] vr _ w v3(2) conjunct1[OF n5] _ nx] n5 v3 v4(1) e2 e3 show thesis
    by (simp add: weight_entry_def)
qed

lemma comment_id_bound:
  "comments_ok db \<Longrightarrow> c \<in> set (rows (db_comments db)) \<Longrightarrow> co_id c < next_id (db_comments db)"
  by (auto simp: comments_ok_def nodes_def list_all_iff)

lemma first_vote_weights:
  assumes run: "first_vote db o1 c a (cur, used, r) = Inr db'" and ok: "comments_ok db" and w: "weights_ok db"
    and c: "c \<in> set (rows (db_comments db))" "co_cashout_time c \<noteq> time_maximum"
  shows "weights_ok db'"
  using run ok c(1)
proof (rule first_vote_effect)
  fix vr wt m v c3 db3
  assume r: "0 < r" and vr: "co_vote_rshares c + (if vo_weight o1 < 0 then 0 else r) = vr" "vo_weight o1 < 0 \<or> vr \<le> int64_max" "co_vote_rshares c3 = vr"
    and vw: "vote_weight db3 c3 (vote_rshares o1 r) (co_vote_rshares c) (head_block_time db) = Inr (wt, m)" "db_reward_funds db3 = db_reward_funds db"
    and e: "entries db' = map (\<lambda>x. if fst x = co_id c then (co_id c, co_cashout_time c, vr,
        (if m = 0 then co_total_vote_weight c else to_uint64 (co_total_vote_weight c + m))) else x) (entries db)"
    and f: "db_reward_funds db' = db_reward_funds db" "next_id (db_comments db') = next_id (db_comments db)"
    and v: "rows (db_comment_votes db') = rows (db_comment_votes db) @ [v]" "cv_comment v = co_id c" "cv_weight v = wt"
  let ?tot = "co_total_vote_weight c" and ?us = "filter (\<lambda>v. cv_comment v = co_id c) (rows (db_comment_votes db))"
  show ?thesis
  proof (rule vote_weights_step[OF w e f])
    show "list_all (\<lambda>v. cv_comment v < next_id (db_comments db)) (rows (db_comment_votes db'))"
      using w comment_id_bound[OF ok c(1)] v by (simp add: weights_ok_def)
    show "filter (\<lambda>v. cv_comment v = j) (rows (db_comment_votes db')) = filter (\<lambda>v. cv_comment v = j) (rows (db_comment_votes db))"
      if "j \<noteq> co_id c" for j using that v by auto
  next
    fix rf
    assume rf: "tbl_find (\<lambda>rf. rf_name rf = STEEM_POST_REWARD_FUND_NAME) (db_reward_funds db) = Some rf" "fund_ok rf"
      and l: "list_all (entry_ok (rows (db_comment_votes db)) rf) (entries db)"
    have "entry_ok (rows (db_comment_votes db)) rf (weight_entry c)" using l c(1) by (auto simp: list_all_iff)
    with c(2) have o: "0 \<le> co_vote_rshares c" "co_vote_rshares c \<le> int64_max" "list_all (\<lambda>v. 0 \<le> cv_weight v) ?us"
      "sum_list (map cv_weight ?us) \<le> ?tot" "?tot < two64" "?tot \<le> curation_curve rf (co_vote_rshares c)"
      by (auto simp: entry_ok_def weight_entry_def votes_fit_def Let_def)
    have b: "co_vote_rshares c \<le> vr" "vr \<le> int64_max" using vr r o by auto
    have b3: "co_vote_rshares c \<le> co_vote_rshares c3" "co_vote_rshares c3 \<le> int64_max" using b vr(3) by auto
    note q = vote_weight_value[OF vw(1) _ rf(2) o(1) b3, unfolded vw(2), OF rf(1), unfolded vr(3)]
    note mono = curation_curve_mono(2)[OF rf(2) o(1) b]
    have s: "0 \<le> sum_list (map cv_weight ?us)" using o(3) by (intro sum_list_nonneg) (auto simp: list_all_iff)
    define tot where "tot = (if m = 0 then ?tot else to_uint64 (?tot + m))"
    have tot: "tot = ?tot + m \<and> tot < two64 \<and> tot \<le> curation_curve rf vr"
    proof (cases "m = 0")
      case True
      with o mono show ?thesis by (simp add: tot_def)
    next
      case False
      with q(3) have "m = curation_curve rf vr - curation_curve rf (co_vote_rshares c)" "curation_curve rf vr < two64" by auto
      with o s q(1,2) have "0 \<le> ?tot + m" "?tot + m < two64" "?tot + m \<le> curation_curve rf vr" by linarith+
      with False show ?thesis by (simp add: tot_def)
    qed
    have "votes_fit (rows (db_comment_votes db')) (co_id c) tot"
      using o v q(1,2) tot by (auto simp: votes_fit_def Let_def)
    with tot b o(1) show "entry_ok (rows (db_comment_votes db')) rf (co_id c, co_cashout_time c, vr,
        (if m = 0 then co_total_vote_weight c else to_uint64 (co_total_vote_weight c + m)))"
      by (simp add: entry_ok_def flip: tot_def)
  qed
qed

lemma modify_vote_split:
  assumes "modify_vote db c a f = Inr db'" "tbl_find (is_vote c a) (db_comment_votes db) = Some v"
  obtains us vs where "rows (db_comment_votes db) = us @ v # vs" "rows (db_comment_votes db') = us @ f v # vs" "cv_comment v = co_id c"
    "db_reward_funds db' = db_reward_funds db" "db_comments db' = db_comments db"
proof -
  from assms(1) obtain ys where ys: "modify_first (is_vote c a) (\<lambda>v. Inr (f v)) (rows (db_comment_votes db)) = Inr ys"
    and db': "db' = db\<lparr> db_comment_votes := (db_comment_votes db)\<lparr> rows := ys \<rparr> \<rparr>"
    by (auto simp: modify_vote_def tbl_modify_def bindE_eq_Inr)
  from modify_first_split[OF ys] obtain us u vs where
    s: "rows (db_comment_votes db) = us @ u # vs" "ys = us @ f u # vs" "is_vote c a u" "\<forall>x\<in>set us. \<not> is_vote c a x" by auto
  with assms(2) have "u = v" by (simp add: tbl_find_def find_append_first)
  with s db' that show thesis by (simp add: is_vote_def)
qed

lemma change_vote_weights:
  assumes run: "change_vote db o1 c a v (cur, used, r) = Inr db'" and ok: "comments_ok db" and w: "weights_ok db"
    and c: "c \<in> set (rows (db_comments db))" "co_cashout_time c \<noteq> time_maximum"
    and v: "tbl_find (is_vote c a) (db_comment_votes db) = Some v"
  shows "weights_ok db'"
  using run
proof (rule change_vote_cases)
  fix db1 root db2 db3 db4
  let ?f = "\<lambda>cv. cv\<lparr> cv_rshares := vote_rshares o1 r, cv_vote_percent := vo_weight o1,
         cv_last_update := head_block_time db, cv_weight := 0, cv_num_changes := cv_num_changes cv + 1 \<rparr>"
  assume 1: "modify_account db (ac_name a) (spend_power (head_block_time db) (cur - used)) = Inr db1"
    and 2: "modify_comment db1 (co_id c) (recount_vote (vote_rshares o1 r) r (cv_rshares v)) = Inr db2"
    and 3: "modify_comment db2 (co_id root) (count_discussion r) = Inr db3"
    and 4: "modify_comment db3 (co_id c) (\<lambda>c.
         Inr (c\<lparr> co_total_vote_weight := to_uint64 (co_total_vote_weight c - cv_weight v) \<rparr>)) = Inr db4"
    and 5: "modify_vote db4 c a ?f = Inr db'"
  have ok3: "comments_ok db3"
    using same_forest_ok[OF comment_same(1)[OF 1] ok] same_forest_ok[OF comment_same(5)[OF 2]] same_forest_ok[OF comment_same(6)[OF 3]] by blast
  have "entries db2 = entries db1"
    using 2 by (rule modify_comment_entries) (auto simp: recount_vote_def bindE_eq_Inr weight_entry_def)
  moreover have "entries db3 = entries db2"
    using 3 by (rule modify_comment_entries) (auto simp: count_discussion_def bindE_eq_Inr weight_entry_def)
  ultimately have n3: "entries db3 = entries db" using modify_account_comments(1)[OF 1] by simp
  then have "weight_entry c \<in> set (entries db3)" using c(1) by simp
  then obtain c3 where c3: "c3 \<in> set (rows (db_comments db3))" "weight_entry c3 = weight_entry c" by auto
  then have i3: "co_id c3 = co_id c" by (simp add: weight_entry_def)
  let ?e = "(co_id c, co_cashout_time c, co_vote_rshares c, to_uint64 (co_total_vote_weight c - cv_weight v))"
  from 4 ok3 c3(1) i3 have "rows (db_comments db4) = map (\<lambda>x. if co_id x = co_id c then
      c3\<lparr> co_total_vote_weight := to_uint64 (co_total_vote_weight c3 - cv_weight v) \<rparr> else x) (rows (db_comments db3))"
    by (rule modify_comment_row) (simp only: sum.inject)
  then have "entries db4 = map (\<lambda>x. if fst x = co_id c then ?e else x) (entries db3)"
    using c3(2) by (simp add: weight_entry_def)
  then have e: "entries db' = map (\<lambda>x. if fst x = co_id c then ?e else x) (entries db)" using n3 modify_vote_comments[OF 5] by simp
  have fr: "db_comment_votes db4 = db_comment_votes db" "db_reward_funds db4 = db_reward_funds db"
    using modify_account_comments(2)[OF 1] modify_comment_frames[OF 2] modify_comment_frames[OF 3] modify_comment_frames[OF 4] by simp_all
  from 5 v[folded fr(1)] obtain us vs where s: "rows (db_comment_votes db) = us @ v # vs" "rows (db_comment_votes db') = us @ ?f v # vs"
    "cv_comment v = co_id c" "db_reward_funds db' = db_reward_funds db" by (rule modify_vote_split) (simp add: fr)
  have nx: "next_id (db_comments db') = next_id (db_comments db)" using change_vote_forest[OF run] by (simp add: same_forest_def)
  show ?thesis
  proof (rule vote_weights_step[OF w e s(4) nx])
    show "list_all (\<lambda>v. cv_comment v < next_id (db_comments db)) (rows (db_comment_votes db'))"
      using w s by (simp add: weights_ok_def)
    show "filter (\<lambda>v. cv_comment v = j) (rows (db_comment_votes db')) = filter (\<lambda>v. cv_comment v = j) (rows (db_comment_votes db))"
      if "j \<noteq> co_id c" for j using that s by auto
  next
    fix rf
    assume rf: "fund_ok rf" and l: "list_all (entry_ok (rows (db_comment_votes db)) rf) (entries db)"
    have "entry_ok (rows (db_comment_votes db)) rf (weight_entry c)" using l c(1) by (auto simp: list_all_iff)
    with c(2) s have o: "0 \<le> co_vote_rshares c" "co_vote_rshares c \<le> int64_max"
      "list_all (\<lambda>v. 0 \<le> cv_weight v) (filter (\<lambda>v. cv_comment v = co_id c) (us @ vs))" "0 \<le> cv_weight v"
      "sum_list (map cv_weight (filter (\<lambda>v. cv_comment v = co_id c) (us @ vs))) + cv_weight v \<le> co_total_vote_weight c"
      "co_total_vote_weight c < two64" "co_total_vote_weight c \<le> curation_curve rf (co_vote_rshares c)"
      by (auto simp: entry_ok_def weight_entry_def votes_fit_def Let_def)
    have "0 \<le> sum_list (map cv_weight (filter (\<lambda>v. cv_comment v = co_id c) (us @ vs)))"
      using o(3) by (intro sum_list_nonneg) (auto simp: list_all_iff)
    with o have "to_uint64 (co_total_vote_weight c - cv_weight v) = co_total_vote_weight c - cv_weight v" by (intro to_uint64_small) linarith+
    then show "entry_ok (rows (db_comment_votes db')) rf ?e"
      using o s(2,3) by (simp add: entry_ok_def votes_fit_def Let_def)
  qed
qed

lemma late_vote_weights:
  assumes run: "record_late_vote db o1 c a (tbl_find (is_vote c a) (db_comment_votes db)) = Inr db'" and ok: "comments_ok db" and w: "weights_ok db"
    and c: "c \<in> set (rows (db_comments db))" "co_cashout_time c = time_maximum"
  shows "weights_ok db'"
proof -
  have cs: "db_comments db' = db_comments db" using record_late_vote_comments[OF run] .
  have "\<exists>us old v vs. rows (db_comment_votes db) = us @ old @ vs \<and> rows (db_comment_votes db') = us @ v # vs \<and> cv_comment v = co_id c \<and>
      list_all (\<lambda>u. cv_comment u = co_id c) old \<and> db_reward_funds db' = db_reward_funds db"
  proof (cases "tbl_find (is_vote c a) (db_comment_votes db)")
    case None
    with run show ?thesis
      by (intro exI[of _ "rows (db_comment_votes db)"] exI[of _ "[]"])
        (auto simp: record_late_vote_def create_vote_def bindE_eq_Inr dest!: tbl_create_rows)
  next
    case (Some v)
    with run have "modify_vote db c a (\<lambda>cv. cv\<lparr> cv_vote_percent := vo_weight o1, cv_last_update := head_block_time db \<rparr>) = Inr db'"
      by (simp add: record_late_vote_def)
    from this Some obtain us vs where "rows (db_comment_votes db) = us @ v # vs"
      "rows (db_comment_votes db') = us @ v\<lparr> cv_vote_percent := vo_weight o1, cv_last_update := head_block_time db \<rparr> # vs"
      "cv_comment v = co_id c" "db_reward_funds db' = db_reward_funds db" by (rule modify_vote_split)
    then show ?thesis by (intro exI[of _ us] exI[of _ "[v]"]) auto
  qed
  then obtain us old v vs where s: "rows (db_comment_votes db) = us @ old @ vs" "rows (db_comment_votes db') = us @ v # vs"
    "cv_comment v = co_id c" "list_all (\<lambda>u. cv_comment u = co_id c) old" "db_reward_funds db' = db_reward_funds db" by blast
  have ids: "distinct (map co_id (rows (db_comments db)))" using ok by (auto simp: comments_ok_def dest: forest_distinct(1))
  have e: "entries db' = map (\<lambda>x. if fst x = co_id c then weight_entry c else x) (entries db)"
    using ids c(1) by (auto simp: cs distinct_map weight_entry_def dest: inj_onD)
  show ?thesis
  proof (rule vote_weights_step[OF w e s(5)])
    show "list_all (\<lambda>v. cv_comment v < next_id (db_comments db)) (rows (db_comment_votes db'))"
      using w s comment_id_bound[OF ok c(1)] by (simp add: weights_ok_def)
    show "filter (\<lambda>v. cv_comment v = j) (rows (db_comment_votes db')) = filter (\<lambda>v. cv_comment v = j) (rows (db_comment_votes db))"
      if "j \<noteq> co_id c" for j
    proof -
      have "filter (\<lambda>v. cv_comment v = j) old = []" using s(4) that by (auto simp: filter_empty_conv list_all_iff)
      then show ?thesis using s(1-3) that by simp
    qed
  qed (use c(2) in \<open>simp_all add: cs entry_ok_def weight_entry_def\<close>)
qed

lemma vote_weights_ok:
  assumes run: "vote_do_apply db o1 = Inr db'" and ok: "comments_ok db" and w: "weights_ok db"
  shows "weights_ok db'"
  using run
proof (cases rule: vote_cases)
  case (late c a)
  from late_vote_weights[OF late(4) ok w conjunct1[OF get_comment_mem[OF late(1)]] late(3)] show ?thesis .
next
  case (first c a cur used r)
  from first_vote_weights[OF first(6) ok w conjunct1[OF get_comment_mem[OF first(1)]] first(3)] show ?thesis .
next
  case (change c a cur used r v)
  from change_vote_weights[OF change(6) ok w conjunct1[OF get_comment_mem[OF change(1)]] change(3,5)] show ?thesis .
qed

section \<open>Runs of posting, voting and payout\<close>

inductive comment_step :: "(string \<Rightarrow> string \<Rightarrow> string option) \<Rightarrow> database \<Rightarrow> database \<Rightarrow> bool" for dmp where
  comment: "comment_do_apply dmp db o1 = Inr db' \<Longrightarrow> comment_step dmp db db'"
| options: "comment_options_do_apply db o2 = Inr db' \<Longrightarrow> comment_step dmp db db'"
| delete: "delete_comment_do_apply db o3 = Inr db' \<Longrightarrow> comment_step dmp db db'"
| vote: "vote_do_apply db o4 = Inr db' \<Longrightarrow> comment_step dmp db db'"
| payout: "process_comment_cashout db = Inr db' \<Longrightarrow> comment_step dmp db db'"

text \<open>Ids only grow; no invariant is needed for this, because the table hands them out.\<close>

lemma touch_ancestors_next: "touch_ancestors fuel now d i db = Inr db' \<Longrightarrow> next_id (db_comments db') = next_id (db_comments db)"
proof (induction fuel arbitrary: i db)
  case (Suc fuel)
  from Suc.prems obtain db1 and p :: comment_object where 1: "modify_comment db i (\<lambda>p. Inr (p\<lparr> co_children := to_uint32 (co_children p + d), co_active := now \<rparr>)) = Inr db1"
    and 2: "(if co_parent_author p \<noteq> [] then
       bindE (get_comment db1 (co_parent_author p) (co_parent_permlink p)) (\<lambda>q. touch_ancestors fuel now d (co_id q) db1)
     else Inr db1) = Inr db'" unfolding touch_ancestors.simps bindE_eq_Inr by blast
  have "next_id (db_comments db1) = next_id (db_comments db)"
    using 1 by (auto simp: modify_comment_def bindE_eq_Inr dest: tbl_modify_next_id)
  with 2 Suc.IH show ?case by (auto simp: bindE_eq_Inr split: if_splits)
qed simp

lemma comment_step_next:
  assumes "comment_step dmp db db'"
  shows "next_id (db_comments db) \<le> next_id (db_comments db')"
  using assms
proof cases
  case (comment o1)
  from this show ?thesis
  proof (cases rule: comment_cases)
    case (post auth parent)
    from post(2) show ?thesis
    proof (rule post_comment_cases)
      fix db1 db2 db3 i
      assume 1: "modify_account db (cm_author o1) (count_post (cm_parent_author o1 = []) (head_block_time db)) = Inr db1"
        and 2: "create_comment db1 o1 parent = Inr (db2, i)" and 3: "create_content db2 o1 i = Inr db3"
        and 4: "(case parent of None \<Rightarrow> Inr db3 | Some p \<Rightarrow> touch_ancestors (ancestor_fuel p) (head_block_time db) 1 (co_id p) db3) = Inr db'"
      from 4 have "next_id (db_comments db') = next_id (db_comments db3)" by (auto split: option.splits dest: touch_ancestors_next)
      with modify_account_comments(1)[OF 1] create_comment_rows(2)[OF 2] create_content_comments(1)[OF 3] show ?thesis by simp
    qed
  next
    case (edit parent c)
    from edit_comment_kept[OF edit] show ?thesis by (simp add: posts_kept_def)
  qed
next
  case (options o2)
  from comment_options_kept[OF options] show ?thesis by (simp add: posts_kept_def)
next
  case (delete o3)
  then show ?thesis
    by (rule delete_comment_cases)
      (auto simp: tbl_remove_def bindE_eq_Inr split: if_splits dest!: touch_ancestors_next)
next
  case (vote o4)
  from vote_forest[OF vote] show ?thesis by (simp add: same_forest_def)
next
  case payout
  from process_comment_cashout_kept[OF payout] show ?thesis by (simp add: posts_kept_def)
qed

lemma comment_step_ok:
  assumes "comment_step dmp db db'" "comments_ok db" "next_id (db_comments db') < 2 ^ 32"
  shows "comments_ok db'"
  using assms(1)
proof cases
  case (comment o1)
  from this show ?thesis
  proof (cases rule: comment_cases)
    case (post auth parent)
    from post_comment_ok[OF post(2) assms(2) post(1) assms(3)] show ?thesis by simp
  next
    case (edit parent c)
    from same_forest_ok[OF posts_kept_forest[OF edit_comment_kept[OF edit]] assms(2)] show ?thesis .
  qed
next
  case (options o2)
  from same_forest_ok[OF posts_kept_forest[OF comment_options_kept[OF options]] assms(2)] show ?thesis .
next
  case (delete o3)
  from delete_comment_ok[OF delete assms(2,3)] show ?thesis by simp
next
  case (vote o4)
  from same_forest_ok[OF vote_forest[OF vote] assms(2)] show ?thesis .
next
  case payout
  from same_forest_ok[OF posts_kept_forest[OF process_comment_cashout_kept[OF payout]] assms(2)] show ?thesis .
qed

lemma comment_step_weights:
  assumes "comment_step dmp db db'" "comments_ok db" "weights_ok db"
  shows "weights_ok db'"
  using assms(1)
proof cases
  case (comment o1)
  from comment_weights[OF comment assms(2,3)] show ?thesis .
next
  case (options o2)
  from posts_kept_weights[OF comment_options_kept[OF options] assms(3)] show ?thesis .
next
  case (delete o3)
  from delete_comment_weights[OF delete assms(2,3)] show ?thesis .
next
  case (vote o4)
  from vote_weights_ok[OF vote assms(2,3)] show ?thesis .
next
  case payout
  from posts_kept_weights[OF process_comment_cashout_kept[OF payout] assms(3)] show ?thesis .
qed

lemma comment_steps_inv:
  assumes "(comment_step dmp)\<^sup>*\<^sup>* db db'" "comments_ok db" "next_id (db_comments db') < 2 ^ 32"
  shows "comments_ok db' \<and> (weights_ok db \<longrightarrow> weights_ok db')"
  using assms
proof (induction rule: rtranclp_induct)
  case (step a b)
  have "next_id (db_comments a) < 2 ^ 32" using comment_step_next[OF step(2)] step.prems(2) by simp
  with step comment_step_ok[OF step(2)] comment_step_weights[OF step(2)] show ?case by blast
qed simp

text \<open>C3. The posts of the chain always form a forest in which every post knows the number of its descendants.
  Along every run of posts, edits, options, deletions, votes and payouts, from a state in which the posts
  have unique ids and permlinks, every reply lies one level below its parent and every post counts its
  descendants, the same holds at the end, as long as fewer than \<open>2 ^ 32\<close> posts were ever made.  In such a
  state the walk from any post to the root of its discussion returns.\<close>

theorem posts_form_a_forest:
  assumes "(comment_step dmp)\<^sup>*\<^sup>* db db'" "comments_ok db" "next_id (db_comments db') < 2 ^ 32"
  shows "comments_ok db' \<and> list_all (\<lambda>p. isOK (touch_ancestors (ancestor_fuel p) now d (co_id p) db')) (rows (db_comments db'))"
proof -
  from comment_steps_inv[OF assms] have ok: "comments_ok db'" by simp
  then have "forest (nodes db')" by (simp add: comments_ok_def)
  from touch_ancestors_run[OF this] ok show ?thesis by (simp add: list_all_iff)
qed

text \<open>C4. Curation weights stay within the totals that the payout divides by.  Along every run of posts, edits,
  options, deletions, votes, vote changes and payouts, the weights of the votes on a post that is not paid yet are
  non-negative and add up to at most the total weight of the post, and that total is at most the value of
  the curation curve at the post's rshares, so the unsigned 64-bit arithmetic of the vote never wraps.\<close>

theorem curation_weights_add_up:
  assumes "(comment_step dmp)\<^sup>*\<^sup>* db db'" "comments_ok db" "weights_ok db" "next_id (db_comments db') < 2 ^ 32"
  shows "weights_ok db' \<and> list_all (votes_within db') (filter (\<lambda>c. co_cashout_time c \<noteq> time_maximum) (rows (db_comments db')))"
proof -
  from comment_steps_inv[OF assms(1,2,4)] assms(3) have w: "weights_ok db'" by simp
  then have "list_all (votes_within db') (filter (\<lambda>c. co_cashout_time c \<noteq> time_maximum) (rows (db_comments db')))"
    by (rule weights_okD) (auto simp: list_all_iff entry_ok_def weight_entry_def votes_fit_def votes_within_def)
  with w show ?thesis by simp
qed

section \<open>Voting power\<close>

definition power_ok :: "account_object \<Rightarrow> bool" where
  "power_ok a \<longleftrightarrow> 0 \<le> ac_voting_power a \<and> ac_voting_power a \<le> STEEM_100_PERCENT"

text \<open>The power an account has at a time, after regeneration.\<close>

definition regenerated :: "time_point_sec \<Rightarrow> account_object \<Rightarrow> int" where
  "regenerated now a = min (ac_voting_power a + STEEM_100_PERCENT * (now - ac_last_vote_time a) div STEEM_VOTE_REGENERATION_SECONDS)
     STEEM_100_PERCENT"

lemma vote_power_bounds:
  assumes "vote_power db a wt = Inr (cur, used, r)" "get_effective_vesting_shares a VESTS_SYMBOL = Inr ev"
  shows "cur = regenerated (head_block_time db) a" "0 \<le> used" "used \<le> cur" "0 \<le> r" "r \<le> amount ev" "0 \<le> amount ev"
proof -
  define E where "E = amount ev"
  define D where "D = to_uint32 (dgp_vote_power_reserve_rate (db_dgp db) * STEEM_VOTE_REGENERATION_SECONDS)"
  define X where "X = cur * \<bar>wt\<bar> div STEEM_100_PERCENT * 86400"
  define q where "q = to_uint128 (to_uint128 E * used) div STEEM_100_PERCENT"
  have "E > STEEM_MIN_VOTE_VESTING_SHARES \<and> cur = regenerated (head_block_time db) a \<and> 0 < cur \<and>
    0 < D \<and> used = (X + D - 1) div D \<and> used \<le> cur \<and> q < two64 \<and> r = max 0 (to_int64 q - STEEM_VOTE_DUST_THRESHOLD)"
    using assms(1) unfolding vote_power_def assms(2) bindE_Inr Let_def fc_assert_eq_Inr sum.inject prod.inject
      E_def D_def X_def q_def regenerated_def
    by (elim conjE, hypsubst) (intro conjI refl, assumption+)
  then have run: "E > STEEM_MIN_VOTE_VESTING_SHARES" "cur = regenerated (head_block_time db) a" "0 < cur"
    "0 < D" "used = (X + D - 1) div D" "used \<le> cur" "q < two64" "r = max 0 (to_int64 q - STEEM_VOTE_DUST_THRESHOLD)"
    by blast+
  have "0 \<le> X" using run(3) by (simp add: X_def pos_imp_zdiv_nonneg_iff)
  then have used: "0 \<le> used" using run(4) by (simp add: run(5) pos_imp_zdiv_nonneg_iff)
  have cur: "cur \<le> 10000" using run(2) by (simp add: regenerated_def)
  have "0 \<le> to_uint128 E" "to_uint128 E \<le> E" using run(1) to_uint128_le[of E] by (simp_all add: to_uint128_def)
  then have "0 \<le> to_uint128 E * used" "to_uint128 E * used \<le> E * 10000"
    using used cur run(6) by (auto intro: mult_mono)
  then have "to_uint128 (to_uint128 E * used) \<le> E * 10000" using to_uint128_le by (meson order_trans)
  from zdiv_mono1[OF this, of 10000] have q: "q \<le> E" by (simp add: q_def)
  have q0: "0 \<le> q" by (simp add: q_def pos_imp_zdiv_nonneg_iff to_uint128_def)
  show "cur = regenerated (head_block_time db) a" "0 \<le> used" "used \<le> cur" "0 \<le> r" "r \<le> amount ev" "0 \<le> amount ev"
    using run used to_int64_le[OF q0 run(7)] q by (simp_all add: E_def)
qed


lemma modify_comment_accounts: "modify_comment db i f = Inr db' \<Longrightarrow> db_accounts db' = db_accounts db"
  by (auto simp: modify_comment_def bindE_eq_Inr)

lemma create_vote_accounts: "create_vote db mk = Inr db' \<Longrightarrow> db_accounts db' = db_accounts db"
  by (auto simp: create_vote_def bindE_eq_Inr)

lemma modify_vote_accounts: "modify_vote db c a f = Inr db' \<Longrightarrow> db_accounts db' = db_accounts db"
  by (auto simp: modify_vote_def bindE_eq_Inr)

lemma modify_vote_rshares:
  assumes "modify_vote db c a f = Inr db'" "\<And>v. P (cv_rshares v) \<Longrightarrow> P (cv_rshares (f v))"
    "list_all P (map cv_rshares (rows (db_comment_votes db)))"
  shows "list_all P (map cv_rshares (rows (db_comment_votes db')))"
proof -
  from assms(1) obtain ys where ys: "modify_first (is_vote c a) (\<lambda>v. Inr (f v)) (rows (db_comment_votes db)) = Inr ys"
    and db': "db' = db\<lparr> db_comment_votes := (db_comment_votes db)\<lparr> rows := ys \<rparr> \<rparr>"
    by (auto simp: modify_vote_def tbl_modify_def bindE_eq_Inr)
  from modify_first_split[OF ys] assms(2,3) show ?thesis by (auto simp: db')
qed

lemma create_vote_rshares:
  assumes "create_vote db mk = Inr db'" "\<And>i. P (cv_rshares (mk i))" "list_all P (map cv_rshares (rows (db_comment_votes db)))"
  shows "list_all P (map cv_rshares (rows (db_comment_votes db')))"
  using assms by (auto simp: create_vote_def bindE_eq_Inr dest!: tbl_create_rows)

text \<open>What a counted vote does: it spends power of the voter and writes one vote.\<close>

lemma counted_vote:
  assumes "first_vote db o1 c a (cur, used, r) = Inr db' \<or> change_vote db o1 c a v (cur, used, r) = Inr db'"
    and P: "list_all P (map cv_rshares (rows (db_comment_votes db)))" "P r" "P (- r)"
  obtains db1 where "modify_account db (ac_name a) (spend_power (head_block_time db) (cur - used)) = Inr db1"
    "db_accounts db' = db_accounts db1" "list_all P (map cv_rshares (rows (db_comment_votes db')))"
  using assms(1)
proof
  assume "first_vote db o1 c a (cur, used, r) = Inr db'"
  then show thesis
  proof (rule first_vote_cases)
    fix db1 root db2 db3 k w m db4
    assume 1: "modify_account db (ac_name a) (spend_power (head_block_time db) (cur - used)) = Inr db1"
      and 2: "modify_comment db1 (co_id c) (count_vote (vote_rshares o1 r) r) = Inr db2"
      and 3: "modify_comment db2 (co_id root) (count_discussion r) = Inr db3"
      and 4: "create_vote db3 (\<lambda>i. \<lparr> cv_id = i, cv_voter = ac_id a, cv_comment = co_id c, cv_weight = w,
          cv_rshares = vote_rshares o1 r, cv_vote_percent = vo_weight o1, cv_last_update = head_block_time db, cv_num_changes = 0 \<rparr>) = Inr db4"
      and 5: "(if m \<noteq> 0 then modify_comment db4 (co_id c) (\<lambda>c.
            Inr (c\<lparr> co_total_vote_weight := to_uint64 (co_total_vote_weight c + m) \<rparr>)) else Inr db4) = Inr db'"
    have 6: "db_accounts db' = db_accounts db4" "db_comment_votes db' = db_comment_votes db4"
      using 5 by (auto split: if_splits dest: modify_comment_accounts modify_comment_frames)
    have "list_all P (map cv_rshares (rows (db_comment_votes db3)))"
      using P modify_account_comments(2)[OF 1] modify_comment_frames[OF 2] modify_comment_frames[OF 3] by simp
    from create_vote_rshares[OF 4 _ this] P have "list_all P (map cv_rshares (rows (db_comment_votes db')))" by (simp add: 6)
    with that[OF 1] modify_comment_accounts[OF 2] modify_comment_accounts[OF 3] create_vote_accounts[OF 4] 6(1) show thesis by simp
  qed
next
  assume "change_vote db o1 c a v (cur, used, r) = Inr db'"
  then show thesis
  proof (rule change_vote_cases)
    fix db1 root db2 db3 db4
    assume 1: "modify_account db (ac_name a) (spend_power (head_block_time db) (cur - used)) = Inr db1"
      and 2: "modify_comment db1 (co_id c) (recount_vote (vote_rshares o1 r) r (cv_rshares v)) = Inr db2"
      and 3: "modify_comment db2 (co_id root) (count_discussion r) = Inr db3"
      and 4: "modify_comment db3 (co_id c) (\<lambda>c.
         Inr (c\<lparr> co_total_vote_weight := to_uint64 (co_total_vote_weight c - cv_weight v) \<rparr>)) = Inr db4"
      and 5: "modify_vote db4 c a (\<lambda>cv. cv\<lparr> cv_rshares := vote_rshares o1 r, cv_vote_percent := vo_weight o1,
         cv_last_update := head_block_time db, cv_weight := 0, cv_num_changes := cv_num_changes cv + 1 \<rparr>) = Inr db'"
    have "list_all P (map cv_rshares (rows (db_comment_votes db4)))"
      using P modify_account_comments(2)[OF 1] modify_comment_frames[OF 2] modify_comment_frames[OF 3] modify_comment_frames[OF 4] by simp
    from modify_vote_rshares[OF 5 _ this] P have "list_all P (map cv_rshares (rows (db_comment_votes db')))" by simp
    with that[OF 1] modify_comment_accounts[OF 2] modify_comment_accounts[OF 3] modify_comment_accounts[OF 4] modify_vote_accounts[OF 5]
    show thesis by simp
  qed
qed

lemma late_vote_rshares:
  assumes "record_late_vote db o1 c a itr = Inr db'" "list_all P (map cv_rshares (rows (db_comment_votes db)))" "P 0"
  shows "list_all P (map cv_rshares (rows (db_comment_votes db'))) \<and> db_accounts db' = db_accounts db"
proof (cases itr)
  case None
  with assms(1) have 1: "create_vote db (\<lambda>i. \<lparr> cv_id = i, cv_voter = ac_id a, cv_comment = co_id c, cv_weight = 0,
          cv_rshares = 0, cv_vote_percent = vo_weight o1, cv_last_update = head_block_time db, cv_num_changes = 0 \<rparr>) = Inr db'"
    by (simp add: record_late_vote_def)
  from create_vote_rshares[OF 1 _ assms(2)] create_vote_accounts[OF 1] assms(3) show ?thesis by simp
next
  case (Some v)
  with assms(1) have 1: "modify_vote db c a (\<lambda>cv. cv\<lparr> cv_vote_percent := vo_weight o1, cv_last_update := head_block_time db \<rparr>) = Inr db'"
    by (simp add: record_late_vote_def)
  from modify_vote_rshares[OF 1 _ assms(2)] modify_vote_accounts[OF 1] show ?thesis by simp
qed

text \<open>C16. A vote spends voting power and is worth no more than the voter's stake.  When every account has between
  0 and 100 per cent of voting power, the same holds after any accepted vote; the voter is left with at
  most the power they had regenerated, never with more; and every rshares value recorded by the vote is, in absolute
  value, at most the voter's effective vesting shares.\<close>

theorem vote_spends_power:
  assumes run: "vote_do_apply db o1 = Inr db'" and a: "get_account db (vo_voter o1) = Inr a"
    and ev: "get_effective_vesting_shares a VESTS_SYMBOL = Inr ev" and ok: "list_all power_ok (rows (db_accounts db))"
    and a': "get_account db' (vo_voter o1) = Inr a'"
  shows "list_all power_ok (rows (db_accounts db')) \<and>
    (a' = a \<or> ac_voting_power a' \<le> regenerated (head_block_time db) a \<and> ac_last_vote_time a' = head_block_time db) \<and>
    list_all (\<lambda>r. r \<in> set (map cv_rshares (rows (db_comment_votes db))) \<or> \<bar>r\<bar> \<le> max 0 (amount ev))
      (map cv_rshares (rows (db_comment_votes db')))"
proof -
  define P where "P = (\<lambda>r. r \<in> set (map cv_rshares (rows (db_comment_votes db))) \<or> \<bar>r\<bar> \<le> max 0 (amount ev))"
  have P0: "list_all P (map cv_rshares (rows (db_comment_votes db)))" "P 0" unfolding list_all_iff P_def by auto
  have counted: ?thesis if p: "vote_power db a (vo_weight o1) = Inr (cur, used, r)"
    and v: "first_vote db o1 c a (cur, used, r) = Inr db' \<or> change_vote db o1 c a v (cur, used, r) = Inr db'" for cur used r c v
  proof -
    note b = vote_power_bounds[OF p ev]
    have "P r" "P (- r)" using b by (auto simp: P_def)
    with v P0(1) obtain db1 where 1: "modify_account db (ac_name a) (spend_power (head_block_time db) (cur - used)) = Inr db1"
      and 2: "db_accounts db' = db_accounts db1" "list_all P (map cv_rshares (rows (db_comment_votes db')))"
      by (rule counted_vote)
    have n: "ac_name a = vo_voter o1" using a by (auto simp: get_account_def tbl_get_Inr dest: tbl_find_Some)
    from 1 obtain t where t: "tbl_modify (\<lambda>x. ac_name x = vo_voter o1) (spend_power (head_block_time db) (cur - used)) (db_accounts db) = Inr t"
      "db_accounts db' = t" using 2(1) by (auto simp: modify_account_def bindE_eq_Inr n)
    have cu: "to_uint16 (cur - used) = cur - used" "0 \<le> cur - used" "cur - used \<le> 10000" "cur - used \<le> regenerated (head_block_time db) a"
      using b by (auto simp: regenerated_def)
    have pw: "list_all power_ok (rows t)"
      using tbl_modify_rows[OF t(1)] ok cu by (fastforce simp: list_all_iff spend_power_def power_ok_def)
    have s: "a' = a\<lparr> ac_voting_power := cur - used, ac_last_vote_time := head_block_time db \<rparr>"
      using tbl_modify_find_after[OF t(1), of a] a a' t(2) cu(1) n
      by (simp add: get_account_def tbl_get_Inr spend_power_def)
    have "ac_voting_power a' \<le> regenerated (head_block_time db) a" "ac_last_vote_time a' = head_block_time db"
      using cu(4) by (simp_all add: s)
    with pw t(2) 2(2) show ?thesis unfolding P_def by blast
  qed
  from run show ?thesis
  proof (cases rule: vote_cases)
    case (late c b)
    note l = late_vote_rshares[OF late(4) P0]
    have "a' = a" using a a' by (simp add: get_account_def l)
    with l ok show ?thesis unfolding P_def by metis
  next
    case (first c b cur used r)
    from first(2) a have "b = a" by simp
    with counted[of cur used r c] first show ?thesis by blast
  next
    case (change c b cur used r v)
    from change(2) a have "b = a" by simp
    with counted[of cur used r c v] change show ?thesis by blast
  qed
qed

section \<open>Examples\<close>

text \<open>Alice has posted; Bob replies, and Carol votes for the post.\<close>

definition alice_db :: database where
  "alice_db = sample_db\<lparr> db_comments := \<lparr> rows = [(sample_comment 0 ''alice'' ''hello'')\<lparr> co_cashout_time := 1500500000 \<rparr>],
     next_id = 1 \<rparr> \<rparr>"

definition no_patch :: "string \<Rightarrow> string \<Rightarrow> string option" where
  "no_patch a b = None"

definition bob_reply :: comment_operation where
  "bob_reply = \<lparr> cm_parent_author = ''alice'', cm_parent_permlink = ''hello'', cm_author = ''bob'', cm_permlink = ''re-hello'',
     cm_title = [], cm_body = ''text'', cm_json_metadata = [] \<rparr>"

definition replied_db :: database where
  "replied_db = res_or sample_db (comment_do_apply no_patch alice_db bob_reply)"

definition carol_vote :: vote_operation where
  "carol_vote = \<lparr> vo_voter = ''carol'', vo_author = ''alice'', vo_permlink = ''hello'', vo_weight = 10000 \<rparr>"

definition voted_db :: database where
  "voted_db = res_or sample_db (vote_do_apply alice_db carol_vote)"

lemma carol_votes:
  "vote_do_apply alice_db carol_vote = Inr voted_db"
  "next_id (db_comments voted_db) = 1 \<and> map co_total_vote_weight (rows (db_comments voted_db)) = [2015] \<and>
   tbl_find (\<lambda>a. ac_name a = ''carol'') (db_accounts voted_db) =
     map_option (\<lambda>a. a\<lparr> ac_voting_power := 9800, ac_last_vote_time := 1500000000 \<rparr>) (tbl_find (\<lambda>a. ac_name a = ''carol'') (db_accounts alice_db))"
proof -
  have "case vote_do_apply alice_db carol_vote of Inr d \<Rightarrow>
     next_id (db_comments d) = 1 \<and> map co_total_vote_weight (rows (db_comments d)) = [2015] \<and>
     tbl_find (\<lambda>a. ac_name a = ''carol'') (db_accounts d) =
       map_option (\<lambda>a. a\<lparr> ac_voting_power := 9800, ac_last_vote_time := 1500000000 \<rparr>) (tbl_find (\<lambda>a. ac_name a = ''carol'') (db_accounts alice_db))
    | Inl e \<Rightarrow> False" by code_simp
  then show "vote_do_apply alice_db carol_vote = Inr voted_db"
    "next_id (db_comments voted_db) = 1 \<and> map co_total_vote_weight (rows (db_comments voted_db)) = [2015] \<and>
     tbl_find (\<lambda>a. ac_name a = ''carol'') (db_accounts voted_db) =
       map_option (\<lambda>a. a\<lparr> ac_voting_power := 9800, ac_last_vote_time := 1500000000 \<rparr>) (tbl_find (\<lambda>a. ac_name a = ''carol'') (db_accounts alice_db))"
    unfolding voted_db_def by (rule res_or_run)+
qed

theorem posts_form_a_forest_witness:
  "comments_ok replied_db \<and> list_all (\<lambda>p. isOK (touch_ancestors (ancestor_fuel p) 1500000003 1 (co_id p) replied_db)) (rows (db_comments replied_db)) \<and>
   map co_children (rows (db_comments replied_db)) = [1, 0]"
proof -
  have "case comment_do_apply no_patch alice_db bob_reply of Inr d \<Rightarrow> next_id (db_comments d) = 2 \<and> map co_children (rows (db_comments d)) = [1, 0]
    | Inl e \<Rightarrow> False" by code_simp
  then have r: "comment_do_apply no_patch alice_db bob_reply = Inr replied_db"
    and v: "next_id (db_comments replied_db) = 2 \<and> map co_children (rows (db_comments replied_db)) = [1, 0]"
    unfolding replied_db_def by (rule res_or_run)+
  have "comments_ok alice_db" by code_simp
  with posts_form_a_forest[OF r_into_rtranclp[of "comment_step no_patch", OF comment_step.comment[OF r]], of 1500000003 1] v
  show ?thesis by simp
qed

theorem curation_weights_add_up_witness:
  "weights_ok voted_db \<and> list_all (votes_within voted_db) (filter (\<lambda>c. co_cashout_time c \<noteq> time_maximum) (rows (db_comments voted_db))) \<and>
   map co_total_vote_weight (rows (db_comments voted_db)) = [2015]"
proof -
  have "comments_ok alice_db" "weights_ok alice_db" by code_simp+
  with curation_weights_add_up[OF r_into_rtranclp[of "comment_step no_patch", OF comment_step.vote[OF carol_votes(1)]]] carol_votes(2)
  show ?thesis by simp
qed

theorem vote_spends_power_witness:
  "\<exists>a a' ev. get_account alice_db ''carol'' = Inr a \<and> get_effective_vesting_shares a VESTS_SYMBOL = Inr ev \<and>
     get_account voted_db ''carol'' = Inr a' \<and> list_all power_ok (rows (db_accounts voted_db)) \<and> ac_voting_power a' = 9800 \<and>
    (a' = a \<or> ac_voting_power a' \<le> regenerated (head_block_time alice_db) a \<and> ac_last_vote_time a' = head_block_time alice_db) \<and>
    list_all (\<lambda>r. r \<in> set (map cv_rshares (rows (db_comment_votes alice_db))) \<or> \<bar>r\<bar> \<le> max 0 (amount ev))
      (map cv_rshares (rows (db_comment_votes voted_db)))"
proof -
  define a where "a = sample_account 2 ''carol'' 5000 0 3000000"
  have a: "get_account alice_db ''carol'' = Inr a" unfolding a_def by code_simp
  have ev: "get_effective_vesting_shares a VESTS_SYMBOL = Inr (mk_asset 3000000 VESTS_SYMBOL)" unfolding a_def by code_simp
  have ok: "list_all power_ok (rows (db_accounts alice_db))" by code_simp
  define b where "b = a\<lparr> ac_voting_power := 9800, ac_last_vote_time := 1500000000 \<rparr>"
  have b: "get_account voted_db ''carol'' = Inr b" "ac_voting_power b = 9800"
    using carol_votes(2) a by (simp_all add: b_def get_account_def tbl_get_Inr)
  have v: "vo_voter carol_vote = ''carol''" by (simp add: carol_vote_def)
  from vote_spends_power[OF carol_votes(1), unfolded v, OF a ev ok b(1)] a ev b show ?thesis by blast
qed


end
