(* ===== verification/Frames.thy ===== *)
theory Frames
  imports Comments Accounts Market Witnesses
begin

text \<open>
  What the evaluators leave alone: a part of the database that no table of accounts, witnesses, orders, savings, posts
  and so on belongs to, and that a change of the global properties which keeps the clock does not touch, is the same
  after every operation.  The locale is interpreted for the clock (the number and time of the head block) and for the
  escrows.
\<close>

definition clock :: "database \<Rightarrow> int \<times> time_point_sec" where
  "clock db = (head_block_num db, head_block_time db)"

locale state_part =
  fixes part :: "database \<Rightarrow> 'p"
  assumes tables [simp]:
    "part (db\<lparr> db_accounts := t1 \<rparr>) = part db" "part (db\<lparr> db_authorities := t2 \<rparr>) = part db"
    "part (db\<lparr> db_witnesses := t3 \<rparr>) = part db" "part (db\<lparr> db_witness_votes := t4 \<rparr>) = part db"
    "part (db\<lparr> db_comments := t5 \<rparr>) = part db" "part (db\<lparr> db_comment_contents := t6 \<rparr>) = part db"
    "part (db\<lparr> db_comment_votes := t7 \<rparr>) = part db" "part (db\<lparr> db_orders := t8 \<rparr>) = part db"
    "part (db\<lparr> db_savings_withdraws := t9 \<rparr>) = part db" "part (db\<lparr> db_converts := t10 \<rparr>) = part db"
    "part (db\<lparr> db_routes := t11 \<rparr>) = part db" "part (db\<lparr> db_delegations := t12 \<rparr>) = part db"
    "part (db\<lparr> db_delegation_expirations := t13 \<rparr>) = part db" "part (db\<lparr> db_decline_requests := t14 \<rparr>) = part db"
    "part (db\<lparr> db_owner_history := t15 \<rparr>) = part db" "part (db\<lparr> db_recovery_requests := t16 \<rparr>) = part db"
    "part (db\<lparr> db_change_recovery := t17 \<rparr>) = part db"
    and properties: "clock (db\<lparr> db_dgp := g \<rparr>) = clock db \<Longrightarrow> part (db\<lparr> db_dgp := g \<rparr>) = part db"
begin

lemma modify_account_part: "modify_account db n f = Inr db' \<Longrightarrow> part db' = part db"
  and modify_witness_part: "modify_witness db n w = Inr db' \<Longrightarrow> part db' = part db"
  by (auto simp: modify_account_def modify_witness_def bindE_eq_Inr)

lemma modify_dgp_part:
  assumes "modify_dgp db f = Inr db'"
    and "\<And>g g'. f g = Inr g' \<Longrightarrow> dgp_time g' = dgp_time g \<and> dgp_head_block_number g' = dgp_head_block_number g"
  shows "part db' = part db"
  using assms by (auto simp: modify_dgp_def bindE_eq_Inr clock_def head_block_num_def head_block_time_def intro!: properties)

lemma interest_part:
  "add_interest_to_supply db x = Inr db' \<Longrightarrow> part db' = part db"
  by (auto simp: add_interest_to_supply_def bindE_eq_Inr elim!: modify_dgp_part)

lemma accrue_part:
  "accrue_sbd_interest db n = Inr db' \<Longrightarrow> part db' = part db"
  "accrue_savings_interest db n = Inr db' \<Longrightarrow> part db' = part db"
  by (auto simp: accrue_sbd_interest_def accrue_savings_interest_def Let_def bindE_eq_Inr split: if_splits
      dest!: modify_account_part interest_part)

lemma balance_parts:
  "adjust_balance db n x = Inr db' \<Longrightarrow> part db' = part db"
  "adjust_savings_balance db n x = Inr db' \<Longrightarrow> part db' = part db"
  "adjust_reward_balance db n x y = Inr db' \<Longrightarrow> part db' = part db"
  by (auto simp: adjust_balance_def modify_balance_def adjust_savings_balance_def adjust_reward_balance_def
      modify_reward_balance_def bindE_eq_Inr fc_assert_eq_Inr split: if_splits dest!: modify_account_part accrue_part)

end

sublocale state_part \<subseteq> vote_part: vote_frame "\<lambda>db db'. part db' = part db"
  by unfold_locales (auto dest: modify_account_part modify_witness_part)

sublocale state_part \<subseteq> post_part: post_frame "\<lambda>db db'. part db' = part db"
  by unfold_locales (auto dest: modify_account_part)

context state_part
begin

lemma vesting_clock:
  assumes "(if tr then
          bindE (asset_add (dgp_pending_rewarded_vesting_shares g) nv) (\<lambda>v.
          bindE (asset_add (dgp_pending_rewarded_vesting_steem g) x) (\<lambda>f.
          Inr (g\<lparr> dgp_pending_rewarded_vesting_shares := v, dgp_pending_rewarded_vesting_steem := f \<rparr>)))
        else
          bindE (asset_add (dgp_total_vesting_fund_steem g) x) (\<lambda>f.
          bindE (asset_add (dgp_total_vesting_shares g) nv) (\<lambda>v.
          Inr (g\<lparr> dgp_total_vesting_fund_steem := f, dgp_total_vesting_shares := v \<rparr>)))) = Inr g'"
  shows "dgp_time g' = dgp_time g \<and> dgp_head_block_number g' = dgp_head_block_number g"
  using assms by (auto simp: bindE_eq_Inr split: if_splits)

lemma create_vesting_part:
  assumes "create_vesting db n x tr = Inr (db', v)"
  shows "part db' = part db"
proof -
  obtain db1 db2 f where
    1: "(if tr then adjust_reward_balance db n x v else adjust_balance db n v) = Inr db1" and 2: "modify_dgp db1 f = Inr db2"
    and f: "\<And>g g'. f g = Inr g' \<Longrightarrow> dgp_time g' = dgp_time g \<and> dgp_head_block_number g' = dgp_head_block_number g"
    and 3: "(if \<not> tr then adjust_proxied_witness_votes db2 n (amount v) 0 else Inr db2) = Inr db'"
    using assms unfolding create_vesting_def run_simps sum.inject prod.inject
    by (elim exE conjE, hypsubst) (rule that, assumption, assumption, rule vesting_clock, assumption, assumption)
  have "part db1 = part db" using 1 by (cases tr) (simp_all only: if_True if_False balance_parts)
  moreover have "part db2 = part db1" using 2 f by (rule modify_dgp_part)
  moreover have "part db' = part db2"
    using 3 by (cases tr) (simp_all only: simp_thms if_True if_False sum.inject vote_part.adjust_proxied_frame)
  ultimately show ?thesis by simp
qed

lemma claim_pending_part: "modify_dgp db (claim_pending x y) = Inr db' \<Longrightarrow> part db' = part db"
  by (erule modify_dgp_part) (auto simp: claim_pending_def bindE_eq_Inr)

lemmas frame_parts = modify_account_part modify_witness_part balance_parts create_vesting_part claim_pending_part
  vote_part.adjust_proxied_frame vote_part.adjust_proxied_array_frame

lemma transfer_part:
  "transfer_do_apply db o1 = Inr db' \<Longrightarrow> part db' = part db"
  "transfer_to_vesting_do_apply db o2 = Inr db' \<Longrightarrow> part db' = part db"
  "transfer_to_savings_do_apply db o3 = Inr db' \<Longrightarrow> part db' = part db"
  "transfer_from_savings_do_apply db o4 = Inr db' \<Longrightarrow> part db' = part db"
  "cancel_transfer_from_savings_do_apply db o5 = Inr db' \<Longrightarrow> part db' = part db"
  "convert_do_apply db o6 = Inr db' \<Longrightarrow> part db' = part db"
  by (auto simp: transfer_do_apply_def transfer_to_vesting_do_apply_def transfer_to_savings_do_apply_def
      transfer_from_savings_do_apply_def cancel_transfer_from_savings_do_apply_def convert_do_apply_def dec_savings_requests_def
      remove_savings_withdraw_def
      Let_def bindE_eq_Inr fc_assert_eq_Inr split: if_splits prod.splits dest!: frame_parts)

lemma fill_order_part: "fill_order db x p r = Inr (db', b) \<Longrightarrow> part db' = part db"
  by (auto simp: fill_order_def cancel_order_def modify_order_def remove_order_def bindE_eq_Inr fc_assert_eq_Inr
      split: if_splits dest!: frame_parts)

lemma match_loop_part: "match_loop i book db = Inr db' \<Longrightarrow> part db' = part db"
proof (induction i book db rule: match_loop.induct)
  case (2 i j book db)
  from "2.prems" obtain db1 n u where m: "match_orders db i j = Inr (db1, n, u)"
    and r: "if n then Inr db1 = Inr db' else match_loop i book db1 = Inr db'"
    by (auto simp: bindE_eq_Inr split: if_splits)
  have "part db1 = part db" using m
    by (auto simp: match_orders_def Let_def bindE_eq_Inr fc_assert_eq_Inr dest!: fill_order_part)
  with r "2.IH"[OF m refl refl] show ?case by (cases n) auto
qed simp

lemma market_part:
  "limit_order_create_do_apply db o1 = Inr db' \<Longrightarrow> part db' = part db"
  "limit_order_create2_do_apply db o2 = Inr db' \<Longrightarrow> part db' = part db"
  "limit_order_cancel_do_apply db o3 = Inr db' \<Longrightarrow> part db' = part db"
  by (auto simp: limit_order_create_do_apply_def limit_order_create2_do_apply_def limit_order_cancel_do_apply_def
      place_order_def apply_order_def cancel_order_def remove_order_def bindE_eq_Inr fc_assert_eq_Inr
      split: if_splits dest!: frame_parts match_loop_part)

lemma withdraw_vesting_part: "withdraw_vesting_do_apply db o1 = Inr db' \<Longrightarrow> part db' = part db"
  unfolding withdraw_vesting_do_apply_def bindE_eq_Inr
  by (auto simp: bindE_eq_Inr fc_assert_eq_Inr split: if_splits dest!: frame_parts)

lemma change_route_part: "change_route db o1 f t = Inr db' \<Longrightarrow> part db' = part db"
  by (auto simp: change_route_def Let_def bindE_eq_Inr fc_assert_eq_Inr split: if_splits option.splits dest!: frame_parts)

lemma delegation_part:
  "add_delegated db n x = Inr db' \<Longrightarrow> part db' = part db"
  "add_received db n x = Inr db' \<Longrightarrow> part db' = part db"
  "sub_received db n x = Inr db' \<Longrightarrow> part db' = part db"
  "set_delegation db o1 = Inr db' \<Longrightarrow> part db' = part db"
  "create_delegation db r e x t = Inr db' \<Longrightarrow> part db' = part db"
  by (auto simp: add_delegated_def add_received_def sub_received_def set_delegation_def create_delegation_def bindE_eq_Inr
      dest!: modify_account_part)

lemma delegate_part:
  "delegate_new db o1 a m = Inr db' \<Longrightarrow> part db' = part db"
  "delegate_more db o1 d a m = Inr db' \<Longrightarrow> part db' = part db"
  unfolding delegate_new_def delegate_more_def
  by (auto simp: bindE_eq_Inr fc_assert_eq_Inr dest!: delegation_part)

lemma delegate_less_part: "delegate_less db o1 d m k = Inr db' \<Longrightarrow> part db' = part db"
  unfolding delegate_less_def bindE_eq_Inr
  by (elim exE conjE, drule delegation_part(3), simp) (auto split: if_splits dest: delegation_part(4))

lemma vesting_part:
  "set_withdraw_vesting_route_do_apply db o2 = Inr db' \<Longrightarrow> part db' = part db"
  "delegate_vesting_shares_do_apply db o3 = Inr db' \<Longrightarrow> part db' = part db"
  by (auto simp: set_withdraw_vesting_route_do_apply_def delegate_vesting_shares_do_apply_def bindE_eq_Inr fc_assert_eq_Inr
      split: if_splits option.splits dest: change_route_part delegate_part delegate_less_part)

lemma clear_votes_part: "clear_witness_votes db n = Inr db' \<Longrightarrow> part db' = part db"
  by (auto simp: clear_witness_votes_def Let_def bindE_eq_Inr fc_assert_eq_Inr split: if_splits dest!: frame_parts)

lemma witness_part:
  "witness_update_do_apply p db o1 = Inr db' \<Longrightarrow> part db' = part db"
  "witness_set_properties_do_apply db o2 = Inr db' \<Longrightarrow> part db' = part db"
  "feed_publish_do_apply db o3 = Inr db' \<Longrightarrow> part db' = part db"
  "account_witness_vote_do_apply db o4 = Inr db' \<Longrightarrow> part db' = part db"
  "account_witness_proxy_do_apply db o5 = Inr db' \<Longrightarrow> part db' = part db"
  "decline_voting_rights_do_apply db o6 = Inr db' \<Longrightarrow> part db' = part db"
  by (auto simp: witness_update_do_apply_def witness_set_properties_do_apply_def feed_publish_do_apply_def
      account_witness_vote_do_apply_def account_witness_proxy_do_apply_def decline_voting_rights_do_apply_def adjust_witness_vote_def
      Let_def bindE_eq_Inr fc_assert_eq_Inr split: if_splits option.splits dest!: frame_parts clear_votes_part)

lemma new_account_part:
  "create_account db n k c r j = Inr db' \<Longrightarrow> part db' = part db"
  "create_account_authority db n x y z = Inr db' \<Longrightarrow> part db' = part db"
  by (auto simp: create_account_def create_account_authority_def bindE_eq_Inr)

lemma account_part:
  "account_create_do_apply p db o1 = Inr db' \<Longrightarrow> part db' = part db"
  "account_create_with_delegation_do_apply p db o2 = Inr db' \<Longrightarrow> part db' = part db"
  "claim_account_do_apply db o3 = Inr db' \<Longrightarrow> part db' = part db"
  "create_claimed_account_do_apply db o4 = Inr db' \<Longrightarrow> part db' = part db"
  unfolding account_create_do_apply_def account_create_with_delegation_do_apply_def claim_account_do_apply_def
    create_claimed_account_do_apply_def bindE_eq_Inr fc_assert_eq_Inr
  by (elim exE conjE, drule frame_parts new_account_part, drule frame_parts new_account_part,
      (drule new_account_part)?, force simp: bindE_eq_Inr split: if_splits dest: create_vesting_part)+

lemma modify_authority_part: "modify_authority db n f = Inr db' \<Longrightarrow> part db' = part db"
  by (auto simp: modify_authority_def bindE_eq_Inr)

lemma update_owner_part: "update_owner_authority db n a = Inr db' \<Longrightarrow> part db' = part db"
  by (auto simp: update_owner_authority_def bindE_eq_Inr split: if_splits dest!: modify_authority_part)

lemma account_update_part:
  assumes "account_update_do_apply db o1 = Inr db'"
  shows "part db' = part db"
  using assms
proof (rule account_update_cases)
  fix a db1 db2
  assume 1: "(case au_owner o1 of None \<Rightarrow> Inr db
             | Some owner \<Rightarrow>
                 fc_assert 419 (head_block_time db - aa_last_owner_update (a :: account_authority_object) > STEEM_OWNER_UPDATE_LIMIT)
                 (bindE (verify_authority_accounts_exist db owner) (\<lambda>_.
                  update_owner_authority db (au_account o1) owner))) = Inr db1"
    and 2: "modify_account db1 (au_account o1) (touch_account (head_block_time db1) o1) = Inr db2"
    and 3: "(if au_active o1 \<noteq> None \<or> au_posting o1 \<noteq> None then
        modify_authority db2 (au_account o1) (\<lambda>auth.
          auth\<lparr> aa_active := (case au_active o1 of Some a \<Rightarrow> a | None \<Rightarrow> aa_active auth),
                aa_posting := (case au_posting o1 of Some a \<Rightarrow> a | None \<Rightarrow> aa_posting auth) \<rparr>)
      else Inr db2) = Inr db'"
  from 1 have "part db1 = part db"
    by (auto simp: bindE_eq_Inr fc_assert_eq_Inr split: option.splits dest: update_owner_part)
  moreover have "part db' = part db2" using 3 by (auto split: if_splits dest: modify_authority_part)
  ultimately show ?thesis using modify_account_part[OF 2] by simp
qed

lemma recovery_part:
  "request_account_recovery_do_apply db o2 = Inr db' \<Longrightarrow> part db' = part db"
  "recover_account_do_apply db o3 = Inr db' \<Longrightarrow> part db' = part db"
  "change_recovery_account_do_apply db o4 = Inr db' \<Longrightarrow> part db' = part db"
  by (auto elim!: request_recovery_cases recover_account_cases change_recovery_cases
      dest!: modify_account_part update_owner_part)

lemma claim_reward_part: "claim_reward_balance_do_apply db o1 = Inr db' \<Longrightarrow> part db' = part db"
  by (auto simp: claim_reward_balance_do_apply_def Let_def bindE_eq_Inr fc_assert_eq_Inr split: if_splits dest!: frame_parts)

end

interpretation escrow_part: state_part db_escrows
  by unfold_locales auto

text \<open>A part that the escrows do not belong to either.\<close>

locale escrow_free_part = state_part +
  assumes escrow_table [simp]: "part (db\<lparr> db_escrows := t \<rparr>) = part db"
begin

lemma modify_escrow_part: "modify_escrow db n i f = Inr db' \<Longrightarrow> part db' = part db"
  by (auto simp: modify_escrow_def bindE_eq_Inr)

lemma escrow_refund_part: "escrow_refund db n e = Inr db' \<Longrightarrow> part db' = part db"
  by (auto simp: escrow_refund_def remove_escrow_def bindE_eq_Inr dest!: balance_parts)

lemma escrow_ops_part:
  "escrow_transfer_do_apply db o1 = Inr db' \<Longrightarrow> part db' = part db"
  "escrow_dispute_do_apply db o2 = Inr db' \<Longrightarrow> part db' = part db"
  unfolding escrow_transfer_do_apply_def escrow_dispute_do_apply_def run_simps
  by (auto dest!: balance_parts modify_escrow_part)

lemma escrow_flag_part:
  "(if p then fc_assert l q (if r then modify_escrow db n i f else Inr db) else Inr db) = Inr db' \<Longrightarrow> part db' = part db"
  by (auto simp: fc_assert_eq_Inr split: if_splits dest: modify_escrow_part)

lemma escrow_settle_part:
  "(if r then escrow_refund db n e else if c then bindE (adjust_balance db m x) (\<lambda>db. modify_escrow db n i f) else Inr db) = Inr db' \<Longrightarrow>
   part db' = part db"
  by (auto simp: bindE_eq_Inr split: if_splits dest!: balance_parts modify_escrow_part escrow_refund_part)

lemma escrow_approve_part: "escrow_approve_do_apply db o1 = Inr db' \<Longrightarrow> part db' = part db"
  unfolding escrow_approve_do_apply_def run_simps
  by (elim exE conjE, drule escrow_flag_part, drule escrow_flag_part, drule escrow_settle_part) simp

lemma escrow_release_part: "escrow_release_do_apply db o1 = Inr db' \<Longrightarrow> part db' = part db"
  unfolding escrow_release_do_apply_def run_simps
  by (elim exE conjE, drule balance_parts(1), drule balance_parts(1), drule modify_escrow_part)
    (simp add: remove_escrow_def split: if_splits, metis escrow_table)

end

interpretation clock_part: escrow_free_part clock
  by unfold_locales (auto simp: clock_def head_block_num_def head_block_time_def)

end
