(* ===== verification/Apply.thy ===== *)
theory Apply
  imports Frames
begin

text \<open>
  The dispatcher of src/src/core/chain/database.cpp: \<open>apply_operation\<close> calls the evaluator that
  \<open>initialize_evaluators\<close> registers for the operation.  The lemmas show that every operation that passes its
  stateless checks conserves STEEM, SBD, VESTS and the pending vesting rewards, and that none moves the clock.

  What the node is doing and the code that is not part of the chain enter as one record: whether the node is
  producing a block, the patch library for edited posts, and the interpreters that plugins register for custom
  operations.
\<close>

record apply_env =
  ae_producing :: bool
  ae_dmp :: "string \<Rightarrow> string \<Rightarrow> string option"
  ae_json :: "string \<Rightarrow> (custom_json_operation \<Rightarrow> database \<Rightarrow> database res) option"
  ae_binary :: "string \<Rightarrow> (custom_binary_operation \<Rightarrow> database \<Rightarrow> database res) option"

definition reset_account_do_apply :: "database \<Rightarrow> reset_account_operation \<Rightarrow> database res" where
  "reset_account_do_apply db o1 = Inl (Assert_exception 1810)"

definition set_reset_account_do_apply :: "database \<Rightarrow> set_reset_account_operation \<Rightarrow> database res" where
  "set_reset_account_do_apply db o1 = Inl (Assert_exception 1824)"

definition report_over_production_do_apply :: "database \<Rightarrow> report_over_production_operation \<Rightarrow> database res" where
  "report_over_production_do_apply db o1 = Inr db"

definition apply_operation :: "apply_env \<Rightarrow> database \<Rightarrow> operation \<Rightarrow> database res" where
  "apply_operation env db op1 = (case op1 of
       Op_vote x \<Rightarrow> vote_do_apply db x
     | Op_comment x \<Rightarrow> comment_do_apply (ae_dmp env) db x
     | Op_transfer x \<Rightarrow> transfer_do_apply db x
     | Op_transfer_to_vesting x \<Rightarrow> transfer_to_vesting_do_apply db x
     | Op_withdraw_vesting x \<Rightarrow> withdraw_vesting_do_apply db x
     | Op_limit_order_create x \<Rightarrow> limit_order_create_do_apply db x
     | Op_limit_order_cancel x \<Rightarrow> limit_order_cancel_do_apply db x
     | Op_feed_publish x \<Rightarrow> feed_publish_do_apply db x
     | Op_convert x \<Rightarrow> convert_do_apply db x
     | Op_account_create x \<Rightarrow> account_create_do_apply (ae_producing env) db x
     | Op_account_update x \<Rightarrow> account_update_do_apply db x
     | Op_witness_update x \<Rightarrow> witness_update_do_apply (ae_producing env) db x
     | Op_account_witness_vote x \<Rightarrow> account_witness_vote_do_apply db x
     | Op_account_witness_proxy x \<Rightarrow> account_witness_proxy_do_apply db x
     | Op_custom x \<Rightarrow> custom_do_apply (ae_producing env) db x
     | Op_report_over_production x \<Rightarrow> report_over_production_do_apply db x
     | Op_delete_comment x \<Rightarrow> delete_comment_do_apply db x
     | Op_custom_json x \<Rightarrow> custom_json_do_apply (ae_json env) (ae_producing env) db x
     | Op_comment_options x \<Rightarrow> comment_options_do_apply db x
     | Op_set_withdraw_vesting_route x \<Rightarrow> set_withdraw_vesting_route_do_apply db x
     | Op_limit_order_create2 x \<Rightarrow> limit_order_create2_do_apply db x
     | Op_claim_account x \<Rightarrow> claim_account_do_apply db x
     | Op_create_claimed_account x \<Rightarrow> create_claimed_account_do_apply db x
     | Op_request_account_recovery x \<Rightarrow> request_account_recovery_do_apply db x
     | Op_recover_account x \<Rightarrow> recover_account_do_apply db x
     | Op_change_recovery_account x \<Rightarrow> change_recovery_account_do_apply db x
     | Op_escrow_transfer x \<Rightarrow> escrow_transfer_do_apply db x
     | Op_escrow_dispute x \<Rightarrow> escrow_dispute_do_apply db x
     | Op_escrow_release x \<Rightarrow> escrow_release_do_apply db x
     | Op_escrow_approve x \<Rightarrow> escrow_approve_do_apply db x
     | Op_transfer_to_savings x \<Rightarrow> transfer_to_savings_do_apply db x
     | Op_transfer_from_savings x \<Rightarrow> transfer_from_savings_do_apply db x
     | Op_cancel_transfer_from_savings x \<Rightarrow> cancel_transfer_from_savings_do_apply db x
     | Op_custom_binary x \<Rightarrow> custom_binary_do_apply (ae_binary env) (ae_producing env) db x
     | Op_decline_voting_rights x \<Rightarrow> decline_voting_rights_do_apply db x
     | Op_reset_account x \<Rightarrow> reset_account_do_apply db x
     | Op_set_reset_account x \<Rightarrow> set_reset_account_do_apply db x
     | Op_claim_reward_balance x \<Rightarrow> claim_reward_balance_do_apply db x
     | Op_delegate_vesting_shares x \<Rightarrow> delegate_vesting_shares_do_apply db x
     | Op_account_create_with_delegation x \<Rightarrow> account_create_with_delegation_do_apply (ae_producing env) db x
     | Op_witness_set_properties x \<Rightarrow> witness_set_properties_do_apply db x)"

section \<open>Every operation conserves the supplies\<close>

definition funds_same :: "database \<Rightarrow> database \<Rightarrow> bool" where
  "funds_same db db' \<longleftrightarrow> ledger_same db db' \<and> db_escrows db' = db_escrows db"

lemma funds_same_refl [simp]: "funds_same db db"
  by (simp add: funds_same_def)

text \<open>What is relied on of the interpreters: they keep the ledger and the escrows as they are (they write the
  tables of their own plugin).\<close>

definition interpreters_keep_funds :: "apply_env \<Rightarrow> bool" where
  "interpreters_keep_funds env \<longleftrightarrow>
     (\<forall>i f o1 db db'. ae_json env i = Some f \<longrightarrow> f o1 db = Inr db' \<longrightarrow> funds_same db db') \<and>
     (\<forall>i f o1 db db'. ae_binary env i = Some f \<longrightarrow> f o1 db = Inr db' \<longrightarrow> funds_same db db')"

lemma custom_ops_funds:
  assumes "interpreters_keep_funds env"
  shows "custom_json_do_apply (ae_json env) p db x = Inr db' \<Longrightarrow> funds_same db db'"
    and "custom_binary_do_apply (ae_binary env) p db y = Inr db' \<Longrightarrow> funds_same db db'"
  using assms
  by (auto simp: custom_json_do_apply_def custom_binary_do_apply_def fc_assert_eq_Inr run_interpreter_def interpreters_keep_funds_def
      split: option.splits sum.splits if_splits)

text \<open>The clock of the chain is not theirs to set either.\<close>

definition interpreters_keep_clock :: "apply_env \<Rightarrow> bool" where
  "interpreters_keep_clock env \<longleftrightarrow>
     (\<forall>i f o1 db db'. ae_json env i = Some f \<longrightarrow> f o1 db = Inr db' \<longrightarrow> clock db' = clock db) \<and>
     (\<forall>i f o1 db db'. ae_binary env i = Some f \<longrightarrow> f o1 db = Inr db' \<longrightarrow> clock db' = clock db)"

lemma custom_ops_clock:
  assumes "interpreters_keep_clock env"
  shows "custom_json_do_apply (ae_json env) p db x = Inr db' \<Longrightarrow> clock db' = clock db"
    and "custom_binary_do_apply (ae_binary env) p db y = Inr db' \<Longrightarrow> clock db' = clock db"
  using assms
  by (auto simp: custom_json_do_apply_def custom_binary_do_apply_def fc_assert_eq_Inr run_interpreter_def interpreters_keep_clock_def
      split: option.splits sum.splits if_splits)

lemma fee_nonneg:
  "account_create_validate oenv x = Inr () \<Longrightarrow> 0 \<le> amount (acr_fee x)"
  "account_create_with_delegation_validate oenv y = Inr () \<Longrightarrow> 0 \<le> amount (acd_fee y)"
  by (auto simp: account_create_validate_def account_create_with_delegation_validate_def bindE_eq_Inr fc_assert_eq_Inr
      asset_ge_def asset_lt_def split: if_splits)

lemmas operation_ledgers =
  post_ledger.vote_keeps post_ledger.comment_keeps post_ledger.comment_options_keeps post_ledger.delete_comment_keeps
  transfer_same transfer_to_vesting_same withdraw_vesting_same limit_order_create_same
  limit_order_cancel_same feed_publish_same convert_same account_create_same account_update_same witness_update_same
  account_witness_vote_same account_witness_proxy_same set_withdraw_vesting_route_same limit_order_create2_same
  claim_account_same create_claimed_same recovery_requests_same recover_account_same escrow_transfer_same
  escrow_dispute_same escrow_release_same transfer_to_savings_same transfer_from_savings_same
  cancel_transfer_from_savings_same decline_voting_rights_same claim_reward_balance_same
  delegate_vesting_shares_same account_create_with_delegation_same witness_set_properties_same

lemmas apply_defs = apply_operation_def operation_validate_def custom_do_apply_def reset_account_do_apply_def
  set_reset_account_do_apply_def report_over_production_do_apply_def

lemma apply_operation_same:
  assumes "apply_operation env db op1 = Inr db'" "operation_validate oenv op1 = Inr ()" "interpreters_keep_funds env" "escrows_settled db"
  shows "ledger_same db db'"
  using assms
  by (cases op1) (auto simp: apply_defs fc_assert_eq_Inr funds_same_def
      dest: operation_ledgers fee_nonneg escrow_approve_keeps custom_ops_funds)

lemma escrows_settled_kept: "db_escrows db' = db_escrows db \<Longrightarrow> escrows_settled db \<Longrightarrow> escrows_settled db'"
  by (simp add: escrows_settled_def)

lemmas custom_ops_settled =
  custom_ops_funds[unfolded funds_same_def, THEN conjunct2, THEN escrows_settled_kept]

lemmas escrows_kept =
  escrow_part.post_part.vote_keeps escrow_part.post_part.comment_keeps escrow_part.post_part.comment_options_keeps
  escrow_part.post_part.delete_comment_keeps escrow_part.transfer_part escrow_part.market_part
  escrow_part.withdraw_vesting_part escrow_part.vesting_part escrow_part.witness_part escrow_part.account_part
  escrow_part.account_update_part escrow_part.recovery_part escrow_part.claim_reward_part

lemma apply_operation_settled:
  assumes "apply_operation env db op1 = Inr db'" "interpreters_keep_funds env" "escrows_settled db"
  shows "escrows_settled db'"
  using assms
  by (cases op1) (auto simp: apply_defs fc_assert_eq_Inr funds_same_def
      dest: escrows_kept[THEN escrows_settled_kept] escrow_transfer_settled escrow_dispute_settled escrow_release_settled
        escrow_approve_keeps custom_ops_settled)

lemmas clock_kept =
  clock_part.post_part.vote_keeps clock_part.post_part.comment_keeps clock_part.post_part.comment_options_keeps
  clock_part.post_part.delete_comment_keeps clock_part.transfer_part clock_part.market_part
  clock_part.withdraw_vesting_part clock_part.vesting_part clock_part.witness_part clock_part.account_part
  clock_part.account_update_part clock_part.recovery_part clock_part.claim_reward_part
  clock_part.escrow_ops_part clock_part.escrow_approve_part clock_part.escrow_release_part

lemma apply_operation_clock:
  assumes "apply_operation env db op1 = Inr db'" "interpreters_keep_clock env"
  shows "clock db' = clock db"
  using assms by (cases op1) (auto simp: apply_defs fc_assert_eq_Inr dest: clock_kept custom_ops_clock)

lemma apply_all_same:
  assumes "foldE (\<lambda>op1 db. apply_operation env db op1) ops db = Inr db'"
    and "list_all (\<lambda>op1. operation_validate oenv op1 = Inr ()) ops" "interpreters_keep_funds env" "escrows_settled db"
  shows "ledger_same db db' \<and> escrows_settled db'"
  using assms
proof (induction ops arbitrary: db)
  case (Cons op1 ops)
  then obtain db1 where 1: "apply_operation env db op1 = Inr db1" and 2: "foldE (\<lambda>op1 db. apply_operation env db op1) ops db1 = Inr db'"
    by (auto simp: bindE_eq_Inr)
  from 1 Cons.prems have "ledger_same db db1" "escrows_settled db1"
    by (auto intro: apply_operation_same apply_operation_settled)
  with Cons.IH[OF 2] Cons.prems show ?case by (auto intro: ledger_same_trans)
qed simp

section \<open>The operations of a transaction\<close>

definition transaction_validate :: "op_env \<Rightarrow> operation list \<Rightarrow> unit res" where
  "transaction_validate oenv ops =
     fc_assert 37 (length ops > 0) (foldE (\<lambda>op1 _. operation_validate oenv op1) ops ())"

definition process_operations :: "apply_env \<Rightarrow> operation list \<Rightarrow> database \<Rightarrow> database res" where
  "process_operations env ops db = foldE (\<lambda>op1 db. apply_operation env db op1) ops db"

lemma validated_all:
  assumes "transaction_validate oenv ops = Inr ()"
  shows "list_all (\<lambda>op1. operation_validate oenv op1 = Inr ()) ops"
proof -
  have "foldE (\<lambda>op1 _. operation_validate oenv op1) ops () = Inr ()"
    using assms by (simp add: transaction_validate_def fc_assert_eq_Inr)
  then show ?thesis by (induction ops) (auto simp: bindE_eq_Inr)
qed

lemma process_operations_same:
  assumes "process_operations env ops db = Inr db'" "transaction_validate oenv ops = Inr ()"
    and "interpreters_keep_funds env" "escrows_settled db"
  shows "ledger_same db db' \<and> escrows_settled db'"
  using apply_all_same[OF assms(1)[unfolded process_operations_def] validated_all[OF assms(2)] assms(3,4)] .

lemma process_operations_clock:
  assumes "process_operations env ops db = Inr db'" "interpreters_keep_clock env"
  shows "clock db' = clock db"
  using assms(1) unfolding process_operations_def
  by (rule foldE_rel) (use assms(2) in \<open>auto dest: apply_operation_clock\<close>)

section \<open>Properties\<close>

text \<open>C1. No operation creates or destroys funds: when the operations of a transaction pass their stateless checks and
  all of them apply, whatever operations they are, then the books that were balanced are balanced afterwards, for
  STEEM, SBD, VESTS and the STEEM behind pending vesting rewards.  It is relied on that the plugins' interpreters of
  custom operations do not touch balances or escrows, and that an escrow that both parties approved has no pending fee,
  which the operations keep.\<close>

theorem operations_conserve_funds:
  assumes "transaction_validate oenv ops = Inr ()" "process_operations env ops db = Inr db'"
    and "interpreters_keep_funds env" "escrows_settled db" "ledger_balanced db"
  shows "ledger_balanced db' \<and> escrows_settled db'"
  using process_operations_same[OF assms(2,1,3,4)] assms(5) by (blast dest: ledger_same_balanced)

definition sample_op_env :: op_env where
  "sample_op_env = \<lparr> env_json_is_valid = (\<lambda>_. True), env_signee = (\<lambda>_. ''block-carol''), env_block_id = (\<lambda>_. 101) \<rparr>"

definition sample_apply_env :: apply_env where
  "sample_apply_env = \<lparr> ae_producing = True, ae_dmp = (\<lambda>_ _. None), ae_json = (\<lambda>_. None), ae_binary = (\<lambda>_. None) \<rparr>"

definition sample_operations :: "operation list" where
  "sample_operations =
    [Op_transfer \<lparr> tr_from = ''alice'', tr_to = ''bob'', tr_amount = mk_asset 1500 STEEM_SYMBOL, tr_memo = [] \<rparr>,
     Op_transfer_to_vesting \<lparr> tv_from = ''bob'', tv_to = [], tv_amount = mk_asset 1000 STEEM_SYMBOL \<rparr>,
     Op_escrow_transfer \<lparr> et_from = ''alice'', et_to = ''bob'', et_agent = ''carol'', et_escrow_id = 7,
       et_sbd_amount = mk_asset 300 SBD_SYMBOL, et_steem_amount = mk_asset 0 STEEM_SYMBOL,
       et_fee = mk_asset 10 STEEM_SYMBOL, et_ratification_deadline = 1500000100, et_escrow_expiration = 1500000200,
       et_json_meta = [] \<rparr>,
     Op_limit_order_create \<lparr> loc_owner = ''alice'', loc_orderid = 1, loc_amount_to_sell = mk_asset 500 SBD_SYMBOL,
       loc_min_to_receive = mk_asset 900 STEEM_SYMBOL, loc_fill_or_kill = False, loc_expiration = 1500000300 \<rparr>]"

definition sample_applied :: database where
  "sample_applied = res_or sample_db (process_operations sample_apply_env sample_operations sample_db)"

theorem operations_conserve_funds_witness:
  "transaction_validate sample_op_env sample_operations = Inr () \<and>
   process_operations sample_apply_env sample_operations sample_db = Inr sample_applied \<and>
   interpreters_keep_funds sample_apply_env \<and> escrows_settled sample_db \<and> ledger_balanced sample_db \<and>
   length (rows (db_escrows sample_applied)) = 1 \<and> ledger_balanced sample_applied \<and> escrows_settled sample_applied"
proof -
  have v: "transaction_validate sample_op_env sample_operations = Inr ()" by code_simp
  have "case process_operations sample_apply_env sample_operations sample_db of
    Inr d \<Rightarrow> length (rows (db_escrows d)) = 1 | Inl e \<Rightarrow> False" by code_simp
  note r = res_or_run[OF this, of sample_db, folded sample_applied_def]
  have i: "interpreters_keep_funds sample_apply_env" by (simp add: interpreters_keep_funds_def sample_apply_env_def)
  have e: "escrows_settled sample_db" by code_simp
  have b: "ledger_balanced sample_db" by code_simp
  from operations_conserve_funds[OF v r(1) i e b] v r i e b show ?thesis by blast
qed

end
