(* ===== verification/Sign_State.thy ===== *)
theory Sign_State
  imports Operations "HOL-Library.AList" "HOL-Library.Sublist"
begin

text \<open>
  The check of signatures: src/src/core/protocol/sign_state.cpp, \<open>verify_authority\<close> of transaction_util.hpp and the
  signature functions of transaction.cpp.

  A \<open>sign_state\<close> walks an authority: keys first, then accounts, whose own authority it looks up and walks in turn.
  It remembers which of the given signatures it has met and which accounts it has approved.  The depth, the number
  of members and the number of accounts walked are limited.  A lookup may fail, since it throws for an account that
  does not exist.
\<close>

section \<open>The state\<close>

record sign_state =
  ss_get_active :: "account_name_type \<Rightarrow> authority res"
  ss_available_keys :: "public_key_type list"
  ss_provided_signatures :: "(public_key_type \<times> bool) list"
  ss_approved_by :: "account_name_type list"
  ss_max_recursion :: nat
  ss_max_membership :: nat
  ss_max_account_auths :: nat

definition new_sign_state ::
  "public_key_type list \<Rightarrow> (account_name_type \<Rightarrow> authority res) \<Rightarrow> public_key_type list \<Rightarrow> nat \<Rightarrow> nat \<Rightarrow> nat \<Rightarrow> sign_state" where
  "new_sign_state sigs a keys max_recursion max_membership max_account_auths =
     \<lparr> ss_get_active = a, ss_available_keys = keys, ss_provided_signatures = map (\<lambda>k. (k, False)) sigs,
       ss_approved_by = [STEEM_TEMP_ACCOUNT], ss_max_recursion = max_recursion, ss_max_membership = max_membership,
       ss_max_account_auths = max_account_auths \<rparr>"

definition mark_signed :: "public_key_type \<Rightarrow> sign_state \<Rightarrow> sign_state" where
  "mark_signed k s = s\<lparr> ss_provided_signatures := AList.update k True (ss_provided_signatures s) \<rparr>"

definition approve :: "account_name_type \<Rightarrow> sign_state \<Rightarrow> sign_state" where
  "approve n s = s\<lparr> ss_approved_by := List.insert n (ss_approved_by s) \<rparr>"

definition signed_by :: "sign_state \<Rightarrow> public_key_type \<Rightarrow> sign_state \<times> bool" where
  "signed_by s k =
     (case map_of (ss_provided_signatures s) k of
        None \<Rightarrow> if k \<in> set (ss_available_keys s) then (mark_signed k s, True) else (s, False)
      | Some _ \<Rightarrow> (mark_signed k s, True))"

section \<open>Walking an authority\<close>

text \<open>A loop over members either returns or falls through with the weight and the number of members so far.\<close>

datatype walk = Return bool | Fall int nat

definition too_many :: "sign_state \<Rightarrow> nat \<Rightarrow> bool" where
  "too_many s membership \<longleftrightarrow> ss_max_membership s > 0 \<and> membership \<ge> ss_max_membership s"

fun check_keys :: "int \<Rightarrow> (public_key_type \<times> int) list \<Rightarrow> int \<Rightarrow> nat \<Rightarrow> sign_state \<Rightarrow> sign_state \<times> walk" where
  "check_keys threshold [] total_weight membership s = (s, Fall total_weight membership)"
| "check_keys threshold ((k, weight) # ks) total_weight membership s =
     (let (s, signed) = signed_by s k;
          total_weight = (if signed then to_uint32 (total_weight + weight) else total_weight) in
      if signed \<and> total_weight \<ge> threshold then (s, Return True)
      else if too_many s (membership + 1) then (s, Return False)
      else check_keys threshold ks total_weight (membership + 1) s)"

text \<open>\<open>rec\<close> is the recursive call, which is not made at the maximal depth; the second component of the state is the
  counter \<open>account_auth_count\<close>.\<close>

fun check_accounts ::
  "(authority \<Rightarrow> sign_state \<times> nat \<Rightarrow> ((sign_state \<times> nat) \<times> bool) res) option \<Rightarrow> int \<Rightarrow> (account_name_type \<times> int) list \<Rightarrow>
   int \<Rightarrow> nat \<Rightarrow> sign_state \<times> nat \<Rightarrow> ((sign_state \<times> nat) \<times> bool) res" where
  "check_accounts rec threshold [] total_weight membership st = Inr (st, total_weight \<ge> threshold)"
| "check_accounts rec threshold ((a, weight) # as) total_weight membership (s, auth_count) =
     (let more = (\<lambda>approved st.
            let total_weight = (if approved then to_uint32 (total_weight + weight) else total_weight) in
            if approved \<and> total_weight \<ge> threshold then Inr (st, True)
            else if too_many s (membership + 1) then Inr (st, False)
            else check_accounts rec threshold as total_weight (membership + 1) st) in
      if a \<in> set (ss_approved_by s) then more True (s, auth_count)
      else
        case rec of
          None \<Rightarrow> check_accounts rec threshold as total_weight membership (s, auth_count)
        | Some check \<Rightarrow>
            if ss_max_account_auths s > 0 \<and> auth_count \<ge> ss_max_account_auths s then Inr ((s, auth_count), False)
            else
              bindE (ss_get_active s a) (\<lambda>auth.
              bindE (check auth (s, auth_count + 1)) (\<lambda>((s, auth_count), ok).
              more ok ((if ok then approve a s else s), auth_count))))"

definition check_members ::
  "(authority \<Rightarrow> sign_state \<times> nat \<Rightarrow> ((sign_state \<times> nat) \<times> bool) res) option \<Rightarrow> authority \<Rightarrow> sign_state \<times> nat \<Rightarrow>
   ((sign_state \<times> nat) \<times> bool) res" where
  "check_members rec auth = (\<lambda>(s, auth_count).
     (case check_keys (weight_threshold auth) (key_auths auth) 0 0 s of
        (s, Return b) \<Rightarrow> Inr ((s, auth_count), b)
      | (s, Fall total_weight membership) \<Rightarrow>
          check_accounts rec (weight_threshold auth) (account_auths auth) total_weight membership (s, auth_count)))"

text \<open>The first argument is \<open>max_recursion - depth\<close>.\<close>

primrec check_authority_impl :: "nat \<Rightarrow> authority \<Rightarrow> sign_state \<times> nat \<Rightarrow> ((sign_state \<times> nat) \<times> bool) res" where
  "check_authority_impl 0 = check_members None"
| "check_authority_impl (Suc left) = check_members (Some (check_authority_impl left))"

definition check_authority :: "sign_state \<Rightarrow> authority \<Rightarrow> (sign_state \<times> bool) res" where
  "check_authority s auth =
     bindE (check_authority_impl (ss_max_recursion s) auth (s, 0)) (\<lambda>((s, _), b). Inr (s, b))"

definition check_authority_id :: "sign_state \<Rightarrow> account_name_type \<Rightarrow> (sign_state \<times> bool) res" where
  "check_authority_id s id1 =
     (if id1 \<in> set (ss_approved_by s) then Inr (s, True)
      else
        bindE (ss_get_active s id1) (\<lambda>auth.
        bindE (check_authority_impl (ss_max_recursion s) auth (s, 1)) (\<lambda>((s, _), b). Inr (s, b))))"

definition remove_unused_signatures :: "sign_state \<Rightarrow> sign_state \<times> bool" where
  "remove_unused_signatures s =
     (s\<lparr> ss_provided_signatures := filter snd (ss_provided_signatures s) \<rparr>,
      filter (\<lambda>sig. \<not> snd sig) (ss_provided_signatures s) \<noteq> [])"

section \<open>Verifying the authorities of a list of operations\<close>

definition flat_set :: "string list \<Rightarrow> string list" where
  "flat_set xs = sort (remdups xs)"

definition collect_authorities :: "operation list \<Rightarrow> authority list res" where
  "collect_authorities ops =
     foldE (\<lambda>op1 other. bindE (required_authorities op1) (\<lambda>auths. Inr (other @ auths))) ops []"

definition or_else ::
  "(sign_state \<times> bool) res \<Rightarrow> (sign_state \<Rightarrow> (sign_state \<times> bool) res) \<Rightarrow> (sign_state \<times> bool) res" where
  "or_else m f = bindE m (\<lambda>(s, b). if b then Inr (s, True) else f s)"

definition steem_assert :: "exn \<Rightarrow> (sign_state \<times> bool) res \<Rightarrow> sign_state res" where
  "steem_assert e m = bindE m (\<lambda>(s, b). if b then Inr s else Inl e)"

definition check_fetched :: "(account_name_type \<Rightarrow> authority res) \<Rightarrow> account_name_type \<Rightarrow> sign_state \<Rightarrow> (sign_state \<times> bool) res" where
  "check_fetched get n s = bindE (get n) (check_authority s)"

definition no_unused :: "sign_state \<Rightarrow> unit res" where
  "no_unused s = (if snd (remove_unused_signatures s) then Inl Tx_irrelevant_sig else Inr ())"

record getters =
  get_active :: "account_name_type \<Rightarrow> authority res"
  get_owner :: "account_name_type \<Rightarrow> authority res"
  get_posting :: "account_name_type \<Rightarrow> authority res"

record limits =
  max_recursion :: nat
  max_membership :: nat
  max_account_auths :: nat

definition sign_state_for :: "limits \<Rightarrow> public_key_type list \<Rightarrow> (account_name_type \<Rightarrow> authority res) \<Rightarrow> public_key_type list \<Rightarrow> sign_state" where
  "sign_state_for l sigs get avail = new_sign_state sigs get avail (max_recursion l) (max_membership l) (max_account_auths l)"

text \<open>The callers give no approvals of their own, so the sets of approvals are left out.\<close>

definition verify_authority :: "operation list \<Rightarrow> public_key_type list \<Rightarrow> getters \<Rightarrow> limits \<Rightarrow> unit res" where
  "verify_authority ops sigs g l =
     (let required_active = flat_set (concat (map required_active_authorities ops));
          required_owner = flat_set (concat (map required_owner_authorities ops));
          required_posting = flat_set (concat (map required_posting_authorities ops)) in
      bindE (collect_authorities ops) (\<lambda>other.
      if required_posting \<noteq> [] then
        fc_assert 38 (required_active = [])
        (fc_assert 39 (required_owner = [])
        (fc_assert 40 (other = [])
        (bindE (foldE (\<lambda>n s. steem_assert Tx_missing_posting_auth
             (or_else (check_authority_id s n) (\<lambda>s.
              or_else (check_fetched (get_active g) n s) (check_fetched (get_owner g) n))))
           required_posting (sign_state_for l sigs (get_posting g) [])) no_unused)))
      else
        bindE (foldE (\<lambda>auth s. steem_assert Tx_missing_other_auth (check_authority s auth)) other
          (sign_state_for l sigs (get_active g) [])) (\<lambda>s.
        bindE (foldE (\<lambda>n s. steem_assert Tx_missing_active_auth
             (or_else (check_authority_id s n) (check_fetched (get_owner g) n))) required_active s) (\<lambda>s.
        bindE (foldE (\<lambda>n s. steem_assert Tx_missing_owner_auth (check_fetched (get_owner g) n s)) required_owner s)
          no_unused))))"

section \<open>Signatures of a transaction\<close>

text \<open>The recovery of a key from a signature is a parameter.\<close>

definition get_signature_keys :: "('sig \<Rightarrow> public_key_type) \<Rightarrow> 'sig list \<Rightarrow> public_key_type list res" where
  "get_signature_keys recover sigs =
     bindE (foldE (\<lambda>sig result. if recover sig \<in> set result then Inl Tx_duplicate_sig else Inr (recover sig # result)) sigs [])
       (\<lambda>keys. Inr (sort keys))"

definition used_keys :: "public_key_type list \<Rightarrow> sign_state \<Rightarrow> public_key_type list" where
  "used_keys available s =
     flat_set (filter (\<lambda>k. k \<in> set available) (map fst (ss_provided_signatures (fst (remove_unused_signatures s)))))"

definition get_required_signatures ::
  "operation list \<Rightarrow> public_key_type list res \<Rightarrow> public_key_type list \<Rightarrow> getters \<Rightarrow> limits \<Rightarrow> public_key_type list res" where
  "get_required_signatures ops sigs available g l =
     (let required_active = flat_set (concat (map required_active_authorities ops));
          required_owner = flat_set (concat (map required_owner_authorities ops));
          required_posting = flat_set (concat (map required_posting_authorities ops)) in
      bindE (collect_authorities ops) (\<lambda>other.
      if required_posting \<noteq> [] then
        bindE sigs (\<lambda>sigs.
        fc_assert 124 (required_owner = [])
        (fc_assert 125 (required_active = [])
        (bindE (foldE (\<lambda>n s. bindE (check_authority_id s n) (\<lambda>(s, _). Inr s)) required_posting
           (sign_state_for l sigs (get_posting g) available)) (\<lambda>s.
         Inr (used_keys available s)))))
      else
        bindE sigs (\<lambda>sigs.
        bindE (foldE (\<lambda>auth s. bindE (check_authority s auth) (\<lambda>(s, _). Inr s)) other
          (sign_state_for l sigs (get_active g) available)) (\<lambda>s.
        bindE (foldE (\<lambda>n s. bindE (check_fetched (get_owner g) n s) (\<lambda>(s, _). Inr s)) required_owner s) (\<lambda>s.
        bindE (foldE (\<lambda>n s. bindE (check_authority_id s n) (\<lambda>(s, _). Inr s)) required_active s) (\<lambda>s.
        Inr (used_keys available s)))))))"

definition is_missing_auth :: "exn \<Rightarrow> bool" where
  "is_missing_auth e \<longleftrightarrow> e \<in> {Tx_missing_owner_auth, Tx_missing_active_auth, Tx_missing_posting_auth, Tx_missing_other_auth}"

text \<open>The other limits are not passed on to \<open>get_required_signatures\<close>, which then uses its defaults.\<close>

definition minimize_required_signatures ::
  "operation list \<Rightarrow> public_key_type list res \<Rightarrow> public_key_type list \<Rightarrow> getters \<Rightarrow> limits \<Rightarrow> public_key_type list res" where
  "minimize_required_signatures ops sigs available g l =
     bindE (get_required_signatures ops sigs available g
       \<lparr> max_recursion = max_recursion l, max_membership = STEEM_MAX_AUTHORITY_MEMBERSHIP,
         max_account_auths = STEEM_MAX_SIG_CHECK_ACCOUNTS \<rparr>) (\<lambda>s.
     foldE (\<lambda>k result.
       case verify_authority ops (removeAll k result) g l of
         Inr _ \<Rightarrow> Inr (removeAll k result)
       | Inl e \<Rightarrow> if is_missing_auth e then Inr result else Inl e) s s)"

section \<open>What an authority grants\<close>

text \<open>The reference: signers \<open>K\<close> and pre-approved accounts \<open>A\<close> satisfy an authority when some of its members, each
  a signing key or an account that is approved or whose own authority is satisfied, have enough weight together.\<close>

inductive authorized :: "(account_name_type \<Rightarrow> authority res) \<Rightarrow> public_key_type set \<Rightarrow> account_name_type set \<Rightarrow> authority \<Rightarrow> bool"
  for G K A where
  enough: "\<lbrakk> subseq ks (key_auths au); subseq as (account_auths au); \<forall>k\<in>set ks. fst k \<in> K;
     \<forall>a\<in>set as. fst a \<in> A \<or> (\<exists>b. G (fst a) = Inr b \<and> authorized G K A b);
     weight_threshold au \<le> sum_list (map snd ks) + sum_list (map snd as) \<rbrakk> \<Longrightarrow> authorized G K A au"

definition trusted :: "(account_name_type \<Rightarrow> authority res) \<Rightarrow> public_key_type set \<Rightarrow> account_name_type set \<Rightarrow> account_name_type \<Rightarrow> bool" where
  "trusted G K A n \<longleftrightarrow> n \<in> A \<or> (\<exists>b. G n = Inr b \<and> authorized G K A b)"

text \<open>The authorities met when walking from some roots.\<close>

inductive met :: "(account_name_type \<Rightarrow> authority res) \<Rightarrow> authority set \<Rightarrow> authority \<Rightarrow> bool" for G roots where
  root: "au \<in> roots \<Longrightarrow> met G roots au"
| member: "met G roots au \<Longrightarrow> (a, w) \<in> set (account_auths au) \<Longrightarrow> G a = Inr b \<Longrightarrow> met G roots b"

definition relevant :: "(account_name_type \<Rightarrow> authority res) \<Rightarrow> authority set \<Rightarrow> public_key_type \<Rightarrow> bool" where
  "relevant G roots k \<longleftrightarrow> (\<exists>au. met G roots au \<and> k \<in> fst ` set (key_auths au))"

definition weights_typed :: "authority \<Rightarrow> bool" where
  "weights_typed au \<longleftrightarrow> list_all (\<lambda>k. 0 \<le> snd k) (key_auths au) \<and> list_all (\<lambda>a. 0 \<le> snd a) (account_auths au)"

section \<open>The walk is sound\<close>

definition walk_inv ::
  "(account_name_type \<Rightarrow> authority res) \<Rightarrow> public_key_type set \<Rightarrow> account_name_type set \<Rightarrow> authority set \<Rightarrow> sign_state \<Rightarrow> bool" where
  "walk_inv G K A S s \<longleftrightarrow> ss_get_active s = G \<and> ss_available_keys s = [] \<and>
     (\<forall>k. k \<in> K \<longleftrightarrow> (\<exists>b. (k, b) \<in> set (ss_provided_signatures s))) \<and>
     (\<forall>n\<in>set (ss_approved_by s). trusted G K A n) \<and>
     (\<forall>k. (k, True) \<in> set (ss_provided_signatures s) \<longrightarrow> relevant G S k)"

lemma update_members: "p \<in> set (AList.update k v xs) \<Longrightarrow> p = (k, v) \<or> p \<in> set xs"
  by (induction xs) (auto split: if_splits)

lemma update_keys_iff: "(\<exists>b. (j, b) \<in> set (AList.update k v xs)) \<longleftrightarrow> j = k \<or> (\<exists>b. (j, b) \<in> set xs)"
  by (induction xs) auto

lemma mark_signed_inv:
  assumes "walk_inv G K A S s" "k \<in> K" "relevant G S k"
  shows "walk_inv G K A S (mark_signed k s)"
  using assms unfolding walk_inv_def mark_signed_def
  by (simp add: update_keys_iff) (blast dest: update_members)

lemma signed_by_inv:
  assumes "signed_by s k = (s', b)" "walk_inv G K A S s" "relevant G S k"
  shows "walk_inv G K A S s'" and "b \<Longrightarrow> k \<in> K"
proof -
  have "k \<in> K" if b
    using assms(1,2) that by (auto simp: signed_by_def walk_inv_def split: option.splits if_splits dest!: map_of_SomeD)
  then show "b \<Longrightarrow> k \<in> K" .
  show "walk_inv G K A S s'"
    using assms \<open>b \<Longrightarrow> k \<in> K\<close> by (auto simp: signed_by_def split: option.splits if_splits intro: mark_signed_inv)
qed

lemma approve_inv: "walk_inv G K A S s \<Longrightarrow> trusted G K A n \<Longrightarrow> walk_inv G K A S (approve n s)"
  by (auto simp: walk_inv_def approve_def)

lemma to_uint32_bounds: "0 \<le> x \<Longrightarrow> 0 \<le> to_uint32 x \<and> to_uint32 x \<le> x"
  by (simp add: to_uint32_def zmod_le_nonneg_dividend)

lemma if_chain_cases:
  assumes "(if P then x else if Q then y else z) = r"
  obtains "P" "x = r" | "y = r" | "z = r"
  using assms by (auto split: if_splits)

lemma subseq_maybe: "subseq gs ks \<Longrightarrow> subseq (if b then p # gs else gs) (p # ks)"
  by (cases b) (simp_all add: list_emb_Cons)

lemma counted_weight:
  assumes "0 \<le> (x :: int)" "0 \<le> w"
  shows "0 \<le> (if b then to_uint32 (w + x) else w)" and "(if b then to_uint32 (w + x) else w) \<le> w + (if b then x else 0)"
  using assms to_uint32_bounds[OF add_nonneg_nonneg[OF assms(2,1)]] by (cases b; simp only: if_True if_False; linarith)+

lemma check_keys_sound:
  assumes "check_keys th ks w m s = (s', r)" "walk_inv G K A S s" "\<forall>k\<in>set ks. relevant G S (fst k) \<and> 0 \<le> snd k" "0 \<le> w"
  shows "walk_inv G K A S s' \<and>
    (\<exists>gs. subseq gs ks \<and> (\<forall>k\<in>set gs. fst k \<in> K) \<and>
      (case r of Return b \<Rightarrow> b \<longrightarrow> th \<le> w + sum_list (map snd gs)
       | Fall w' m' \<Rightarrow> 0 \<le> w' \<and> w' \<le> w + sum_list (map snd gs)))"
  using assms
proof (induction ks arbitrary: w m s)
  case (Cons p ks)
  obtain k x where p: "p = (k, x)" by fastforce
  obtain s1 b where sb: "signed_by s k = (s1, b)" by fastforce
  let ?w = "if b then to_uint32 (w + x) else w"
  have rel: "relevant G S k" "0 \<le> x" using Cons.prems(3) p by auto
  have inv: "walk_inv G K A S s1" and bk: "b \<Longrightarrow> k \<in> K" using signed_by_inv[OF sb Cons.prems(2) rel(1)] by auto
  have w: "0 \<le> ?w" "?w \<le> w + (if b then x else 0)"
    by (rule counted_weight[OF rel(2) Cons.prems(4)])+
  have sub: "subseq (if b then p # gs else gs) (p # ks)" if "subseq gs ks" for gs
    using that by (rule subseq_maybe)
  have step: "(if b \<and> ?w \<ge> th then (s1, Return True) else if too_many s1 (m + 1) then (s1, Return False)
     else check_keys th ks ?w (m + 1) s1) = (s', r)"
    using Cons.prems(1) by (simp only: p sb check_keys.simps Let_def case_prod_conv)
  consider (hit) "b" "?w \<ge> th" "s' = s1" "r = Return True" | (stop) "s' = s1" "r = Return False"
    | (go) "check_keys th ks ?w (m + 1) s1 = (s', r)"
    using step by (rule if_chain_cases) blast+
  then show ?case
  proof cases
    case hit
    with inv bk w show ?thesis by (intro conjI exI[of _ "[p]"]) (auto simp: p)
  next
    case stop
    with inv show ?thesis by (intro conjI exI[of _ "[]"]) auto
  next
    case go
    from Cons.IH[OF go inv _ w(1)] Cons.prems(3) obtain gs where
      g: "walk_inv G K A S s'" "subseq gs ks" "\<forall>k\<in>set gs. fst k \<in> K"
        "case r of Return b \<Rightarrow> b \<longrightarrow> th \<le> ?w + sum_list (map snd gs)
         | Fall w' m' \<Rightarrow> 0 \<le> w' \<and> w' \<le> ?w + sum_list (map snd gs)" by auto
    have "sum_list (map snd (if b then p # gs else gs)) = (if b then x else 0) + sum_list (map snd gs)" by (simp add: p)
    with g w(2) bk sub[OF g(2)] show ?thesis
      by (intro conjI exI[of _ "if b then p # gs else gs"]) (auto simp: p split: walk.splits if_splits)
  qed
qed auto

definition rec_sound ::
  "(account_name_type \<Rightarrow> authority res) \<Rightarrow> public_key_type set \<Rightarrow> account_name_type set \<Rightarrow> authority set \<Rightarrow>
   (authority \<Rightarrow> sign_state \<times> nat \<Rightarrow> ((sign_state \<times> nat) \<times> bool) res) \<Rightarrow> bool" where
  "rec_sound G K A S check \<longleftrightarrow> (\<forall>au s c s' c' b. check au (s, c) = Inr ((s', c'), b) \<longrightarrow> met G S au \<longrightarrow> walk_inv G K A S s \<longrightarrow>
     walk_inv G K A S s' \<and> (b \<longrightarrow> authorized G K A au))"

definition grants ::
  "(account_name_type \<Rightarrow> authority res) \<Rightarrow> public_key_type set \<Rightarrow> account_name_type set \<Rightarrow> int \<Rightarrow> (account_name_type \<times> int) list \<Rightarrow>
   int \<Rightarrow> bool" where
  "grants G K A th as w \<longleftrightarrow> (\<exists>gs. subseq gs as \<and> (\<forall>a\<in>set gs. trusted G K A (fst a)) \<and> th \<le> w + sum_list (map snd gs))"

lemma grants_skip: "grants G K A th as w \<Longrightarrow> grants G K A th (p # as) w"
  unfolding grants_def by (blast intro: list_emb_Cons)

lemma grants_count:
  assumes "grants G K A th as w'" "w' \<le> w + (if ok then x else 0)" "ok \<Longrightarrow> trusted G K A a"
  shows "grants G K A th ((a, x) # as) w"
proof -
  from assms(1) obtain gs where "subseq gs as" "\<forall>a\<in>set gs. trusted G K A (fst a)" "th \<le> w' + sum_list (map snd gs)"
    unfolding grants_def by blast
  with subseq_maybe[OF this(1), of ok "(a, x)"] assms(2,3) show ?thesis
    unfolding grants_def by (intro exI[of _ "if ok then (a, x) # gs else gs"]) (cases ok; simp)
qed

lemma counted_member_sound:
  assumes run: "(if ok \<and> (if ok then to_uint32 (w + x) else w) \<ge> th then Inr ((s1, c1), True) else if Q then Inr ((s1, c1), False)
      else k (if ok then to_uint32 (w + x) else w)) = Inr ((s', c'), b)"
    and inv: "walk_inv G K A S s1" and ok: "ok \<Longrightarrow> trusted G K A a" and nonneg: "0 \<le> x" "0 \<le> w"
    and IH: "\<And>w'. 0 \<le> w' \<Longrightarrow> k w' = Inr ((s', c'), b) \<Longrightarrow> walk_inv G K A S s' \<and> (b \<longrightarrow> grants G K A th as w')"
  shows "walk_inv G K A S s' \<and> (b \<longrightarrow> grants G K A th ((a, x) # as) w)"
proof -
  let ?w = "if ok then to_uint32 (w + x) else w"
  have w: "0 \<le> ?w" "?w \<le> w + (if ok then x else 0)" by (rule counted_weight[OF nonneg])+
  consider (hit) "ok" "?w \<ge> th" "s' = s1" | (stop) "s' = s1" "\<not> b" | (go) "k ?w = Inr ((s', c'), b)"
    using run by (rule if_chain_cases) blast+
  then show ?thesis
  proof cases
    case hit
    then have "grants G K A th as ?w" unfolding grants_def by (intro exI[of _ "[]"]) simp
    with grants_count[OF this w(2)] ok inv hit(3) show ?thesis by blast
  next
    case stop
    with inv show ?thesis by simp
  next
    case go
    from IH[OF w(1) go] grants_count[OF _ w(2)] ok show ?thesis by blast
  qed
qed

lemma check_accounts_sound:
  assumes "check_accounts rec th as w m (s, c) = Inr ((s', c'), b)" "walk_inv G K A S s" "0 \<le> w"
    and "\<forall>a\<in>set as. 0 \<le> snd a \<and> (\<forall>au. G (fst a) = Inr au \<longrightarrow> met G S au)"
    and rec: "\<And>check. rec = Some check \<Longrightarrow> rec_sound G K A S check"
  shows "walk_inv G K A S s' \<and> (b \<longrightarrow> grants G K A th as w)"
  using assms(1-4)
proof (induction as arbitrary: w m s c)
  case Nil
  then show ?case by (auto simp: grants_def)
next
  case (Cons p as)
  obtain a x where p: "p = (a, x)" by fastforce
  have ax: "0 \<le> x" "\<And>au. G a = Inr au \<Longrightarrow> met G S au" using Cons.prems(4) p by auto
  have G: "ss_get_active s = G" using Cons.prems(2) by (simp add: walk_inv_def)
  note run = Cons.prems(1)[unfolded p check_accounts.simps Let_def]
  have more: "walk_inv G K A S s' \<and> (b \<longrightarrow> grants G K A th ((a, x) # as) w)"
    if "(if ok \<and> (if ok then to_uint32 (w + x) else w) \<ge> th then Inr ((s1, c1), True)
      else if too_many s (m + 1) then Inr ((s1, c1), False)
      else check_accounts rec th as (if ok then to_uint32 (w + x) else w) (m + 1) (s1, c1)) = Inr ((s', c'), b)"
      "walk_inv G K A S s1" "ok \<Longrightarrow> trusted G K A a" for ok s1 c1
    using that(1,2,3) ax(1) Cons.prems(3)
    by (rule counted_member_sound) (use Cons.IH[OF _ that(2)] Cons.prems(4) in auto)
  show ?case unfolding p
  proof (cases "a \<in> set (ss_approved_by s)")
    case True
    with Cons.prems(2) have "trusted G K A a" by (auto simp: walk_inv_def)
    from more[OF run[unfolded if_P[OF True]] Cons.prems(2) this] show "walk_inv G K A S s' \<and> (b \<longrightarrow> grants G K A th ((a, x) # as) w)" .
  next
    case False
    show "walk_inv G K A S s' \<and> (b \<longrightarrow> grants G K A th ((a, x) # as) w)"
    proof (cases rec)
      case None
      with run False have "check_accounts rec th as w m (s, c) = Inr ((s', c'), b)" by simp
      from Cons.IH[OF this Cons.prems(2,3)] Cons.prems(4) show ?thesis by (auto intro: grants_skip)
    next
      case (Some check)
      show ?thesis
      proof (cases "ss_max_account_auths s > 0 \<and> c \<ge> ss_max_account_auths s")
        case True
        with run False Some Cons.prems(2) show ?thesis by auto
      next
        case limit: False
        obtain au s1 c1 ok where 1: "G a = Inr au" "check au (s, c + 1) = Inr ((s1, c1), ok)" and
          2: "(if ok \<and> (if ok then to_uint32 (w + x) else w) \<ge> th then Inr ((if ok then approve a s1 else s1, c1), True)
            else if too_many s (m + 1) then Inr ((if ok then approve a s1 else s1, c1), False)
            else check_accounts rec th as (if ok then to_uint32 (w + x) else w) (m + 1) (if ok then approve a s1 else s1, c1))
            = Inr ((s', c'), b)"
          using run unfolding if_not_P[OF False] if_not_P[OF limit] Some option.case bindE_eq_Inr G
          by (elim exE conjE, case_tac xa) (auto split: prod.splits)
        have r: "walk_inv G K A S s1" "ok \<Longrightarrow> trusted G K A a"
          using rec[OF Some] 1(2) ax(2)[OF 1(1)] Cons.prems(2) 1(1) unfolding rec_sound_def trusted_def by blast+
        then have "walk_inv G K A S (if ok then approve a s1 else s1)" by (auto intro: approve_inv)
        then show ?thesis by (rule more[OF 2 _ r(2)])
      qed
    qed
  qed
qed

lemma authorizedI:
  assumes "subseq gs (key_auths au)" "\<forall>k\<in>set gs. fst k \<in> K" "grants G K A (weight_threshold au) (account_auths au) w"
    and "w \<le> sum_list (map snd gs)"
  shows "authorized G K A au"
proof -
  from assms(3) obtain as where "subseq as (account_auths au)" "\<forall>a\<in>set as. trusted G K A (fst a)"
    "weight_threshold au \<le> w + sum_list (map snd as)" unfolding grants_def by blast
  with assms show ?thesis unfolding trusted_def by (intro enough[where ks = gs and as = as]) auto
qed

lemma check_members_sound:
  assumes "\<And>check. rec = Some check \<Longrightarrow> rec_sound G K A S check" and W: "\<And>au. met G S au \<Longrightarrow> weights_typed au"
  shows "rec_sound G K A S (check_members rec)"
  unfolding rec_sound_def
proof (intro allI impI)
  fix au s c s' c' b
  assume run: "check_members rec au (s, c) = Inr ((s', c'), b)" and m: "met G S au" and inv: "walk_inv G K A S s"
  obtain s1 r where ck: "check_keys (weight_threshold au) (key_auths au) 0 0 s = (s1, r)" by fastforce
  have ks: "\<forall>k\<in>set (key_auths au). relevant G S (fst k) \<and> 0 \<le> snd k"
    using m W[OF m] by (auto simp: relevant_def weights_typed_def list_all_iff)
  have as: "\<forall>a\<in>set (account_auths au). 0 \<le> snd a \<and> (\<forall>b. G (fst a) = Inr b \<longrightarrow> met G S b)"
    using W[OF m] met.member[OF m] by (force simp: weights_typed_def list_all_iff)
  from check_keys_sound[OF ck inv ks, unfolded add_0] obtain gs where g: "walk_inv G K A S s1" "subseq gs (key_auths au)" "\<forall>k\<in>set gs. fst k \<in> K"
    "case r of Return b \<Rightarrow> b \<longrightarrow> weight_threshold au \<le> sum_list (map snd gs) | Fall w' m' \<Rightarrow> 0 \<le> w' \<and> w' \<le> sum_list (map snd gs)"
    by blast
  show "walk_inv G K A S s' \<and> (b \<longrightarrow> authorized G K A au)"
  proof (cases r)
    case (Return b')
    have "grants G K A (weight_threshold au) (account_auths au) (sum_list (map snd gs))" if b'
      using g(4) that Return unfolding grants_def by (intro exI[of _ "[]"]) simp
    with run g Return ck show ?thesis by (auto simp: check_members_def intro: authorizedI)
  next
    case (Fall w' m')
    with run ck have "check_accounts rec (weight_threshold au) (account_auths au) w' m' (s1, c) = Inr ((s', c'), b)"
      by (simp add: check_members_def)
    from check_accounts_sound[OF this g(1) _ as assms(1)] g Fall show ?thesis by (auto intro: authorizedI)
  qed
qed

lemma check_authority_impl_sound:
  assumes "\<And>au. met G S au \<Longrightarrow> weights_typed au"
  shows "rec_sound G K A S (check_authority_impl n)"
  by (induction n) (auto intro: check_members_sound assms)

lemma check_authority_sound:
  assumes W: "\<And>au. met G S au \<Longrightarrow> weights_typed au" and inv: "walk_inv G K A S s"
  shows "check_authority s au = Inr (s', b) \<Longrightarrow> met G S au \<Longrightarrow> walk_inv G K A S s' \<and> (b \<longrightarrow> authorized G K A au)"
    and "check_authority_id s n = Inr (s', b) \<Longrightarrow> (\<And>au. G n = Inr au \<Longrightarrow> met G S au) \<Longrightarrow>
      walk_inv G K A S s' \<and> (b \<longrightarrow> trusted G K A n)"
proof -
  have r: "walk_inv G K A S s' \<and> (b \<longrightarrow> authorized G K A au)"
    if "check_authority_impl n au (s, c) = Inr ((s', c'), b)" "met G S au" for n au c s' c' b
    using check_authority_impl_sound[where G = G and S = S and K = K and A = A and n = n, OF W] inv that unfolding rec_sound_def by blast
  show "check_authority s au = Inr (s', b) \<Longrightarrow> met G S au \<Longrightarrow> walk_inv G K A S s' \<and> (b \<longrightarrow> authorized G K A au)"
    unfolding check_authority_def bindE_eq_Inr by (auto dest: r)
  have "ss_get_active s = G" "\<forall>n\<in>set (ss_approved_by s). trusted G K A n" using inv by (simp_all add: walk_inv_def)
  then show "check_authority_id s n = Inr (s', b) \<Longrightarrow> (\<And>au. G n = Inr au \<Longrightarrow> met G S au) \<Longrightarrow>
      walk_inv G K A S s' \<and> (b \<longrightarrow> trusted G K A n)"
    using inv unfolding check_authority_id_def
    by (auto simp: bindE_eq_Inr trusted_def split: if_splits dest: r)
qed

section \<open>A verified transaction is authorised\<close>

lemma assert_fold:
  assumes "foldE (\<lambda>x s. steem_assert e (f x s)) xs s = Inr s'" and "I s"
    and "\<And>x s s' b. x \<in> set xs \<Longrightarrow> I s \<Longrightarrow> f x s = Inr (s', b) \<Longrightarrow> I s' \<and> (b \<longrightarrow> P x)"
  shows "I s'" and "list_all P xs"
proof -
  have "I s' \<and> list_all P xs" using assms
  proof (induction xs arbitrary: s)
    case (Cons x xs)
    from Cons.prems(1) obtain s1 where 1: "f x s = Inr (s1, True)" and 2: "foldE (\<lambda>x s. steem_assert e (f x s)) xs s1 = Inr s'"
      by (auto simp: steem_assert_def bindE_eq_Inr split: if_splits)
    from Cons.prems(3)[OF _ Cons.prems(2) 1] have "I s1" "P x" by auto
    with Cons.IH[OF 2 \<open>I s1\<close> Cons.prems(3)] show ?case by simp
  qed simp
  then show "I s'" "list_all P xs" by auto
qed

lemma or_else_sound:
  assumes "or_else m f = Inr (s', b)" and "\<And>s b. m = Inr (s, b) \<Longrightarrow> I s \<and> (b \<longrightarrow> P)"
    and "\<And>s s' b. I s \<Longrightarrow> f s = Inr (s', b) \<Longrightarrow> I s' \<and> (b \<longrightarrow> Q)"
  shows "I s' \<and> (b \<longrightarrow> P \<or> Q)"
proof -
  from assms(1) obtain s1 b1 where 1: "m = Inr (s1, b1)" "(if b1 then Inr (s1, True) else f s1) = Inr (s', b)"
    by (auto simp: or_else_def bindE_eq_Inr)
  with assms(2)[OF 1(1)] assms(3)[of s1 s' b] show ?thesis by (cases b1) auto
qed

definition vouched ::
  "(account_name_type \<Rightarrow> authority res) \<Rightarrow> public_key_type list \<Rightarrow> (account_name_type \<Rightarrow> authority res) \<Rightarrow> account_name_type \<Rightarrow> bool" where
  "vouched G sigs get n \<longleftrightarrow> (\<exists>au. get n = Inr au \<and> authorized G (set sigs) {STEEM_TEMP_ACCOUNT} au)"

definition posting_roots :: "getters \<Rightarrow> account_name_type list \<Rightarrow> authority set" where
  "posting_roots g ns = {au. \<exists>n\<in>set ns. get_posting g n = Inr au \<or> get_active g n = Inr au \<or> get_owner g n = Inr au}"

definition active_roots :: "getters \<Rightarrow> account_name_type list \<Rightarrow> account_name_type list \<Rightarrow> authority list \<Rightarrow> authority set" where
  "active_roots g actives owners other =
     {au. (\<exists>n\<in>set actives. get_active g n = Inr au \<or> get_owner g n = Inr au) \<or> (\<exists>n\<in>set owners. get_owner g n = Inr au)} \<union> set other"

definition getters_typed :: "getters \<Rightarrow> bool" where
  "getters_typed g \<longleftrightarrow> (\<forall>n au. get_active g n = Inr au \<or> get_owner g n = Inr au \<or> get_posting g n = Inr au \<longrightarrow> weights_typed au)"

lemma met_typed:
  assumes "met G S au" "\<And>au. au \<in> S \<Longrightarrow> weights_typed au" "\<And>n au. G n = Inr au \<Longrightarrow> weights_typed au"
  shows "weights_typed au"
  using assms by (induction) auto

lemma new_state_inv: "walk_inv get (set sigs) {STEEM_TEMP_ACCOUNT} S (sign_state_for l sigs get [])"
  by (auto simp: walk_inv_def sign_state_for_def new_sign_state_def trusted_def)

lemma all_used:
  assumes "no_unused s = Inr u" "walk_inv G (set sigs) A S s"
  shows "list_all (relevant G S) sigs"
  using assms by (fastforce simp: no_unused_def remove_unused_signatures_def walk_inv_def list_all_iff filter_empty_conv split: if_splits)

lemma check_fetched_sound:
  assumes "check_fetched get n s = Inr (s', b)" "walk_inv G (set sigs) {STEEM_TEMP_ACCOUNT} S s"
    and "\<And>au. met G S au \<Longrightarrow> weights_typed au" "\<And>au. get n = Inr au \<Longrightarrow> au \<in> S"
  shows "walk_inv G (set sigs) {STEEM_TEMP_ACCOUNT} S s' \<and> (b \<longrightarrow> vouched G sigs get n)"
proof -
  from assms(1) obtain au where au: "get n = Inr au" "check_authority s au = Inr (s', b)"
    by (auto simp: check_fetched_def bindE_eq_Inr)
  from check_authority_sound(1)[OF assms(3,2) au(2) met.root[OF assms(4)[OF au(1)]]] au(1) show ?thesis
    by (auto simp: vouched_def)
qed

lemma posting_sound:
  assumes run: "foldE (\<lambda>n s. steem_assert Tx_missing_posting_auth
             (or_else (check_authority_id s n) (\<lambda>s.
              or_else (check_fetched (get_active g) n s) (check_fetched (get_owner g) n))))
           ns (sign_state_for l sigs (get_posting g) []) = Inr s" and u: "no_unused s = Inr ()" and g: "getters_typed g"
  shows "list_all (\<lambda>n. trusted (get_posting g) (set sigs) {STEEM_TEMP_ACCOUNT} n \<or>
      vouched (get_posting g) sigs (get_active g) n \<or> vouched (get_posting g) sigs (get_owner g) n) ns"
    and "list_all (relevant (get_posting g) (posting_roots g ns)) sigs"
proof -
  let ?S = "posting_roots g ns" let ?I = "walk_inv (get_posting g) (set sigs) {STEEM_TEMP_ACCOUNT} ?S"
  have W: "weights_typed au" if "met (get_posting g) ?S au" for au
    using that by (rule met_typed) (use g in \<open>auto simp: getters_typed_def posting_roots_def\<close>)
  have one: "?I s' \<and> (b \<longrightarrow> trusted (get_posting g) (set sigs) {STEEM_TEMP_ACCOUNT} n \<or>
      vouched (get_posting g) sigs (get_active g) n \<or> vouched (get_posting g) sigs (get_owner g) n)"
    if "n \<in> set ns" "?I s" "or_else (check_authority_id s n) (\<lambda>s.
        or_else (check_fetched (get_active g) n s) (check_fetched (get_owner g) n)) = Inr (s', b)" for n s s' b
    using that(3)
  proof (rule or_else_sound, goal_cases)
    case (1 s1 b1)
    from check_authority_sound(2)[OF W that(2) 1] that(1) show ?case by (auto simp: posting_roots_def intro: met.root)
  next
    case (2 s1 s2 b2)
    have A: "get_active g n = Inr au \<Longrightarrow> au \<in> ?S" and O: "get_owner g n = Inr au \<Longrightarrow> au \<in> ?S" for au
      using that(1) by (auto simp: posting_roots_def)
    show ?case
      by (rule or_else_sound[OF 2(2)], rule check_fetched_sound[OF _ 2(1) W A], assumption+,
          rule check_fetched_sound[OF _ _ W O], assumption+)
  qed
  note f = assert_fold[where I = ?I, OF run new_state_inv one]
  show "list_all (\<lambda>n. trusted (get_posting g) (set sigs) {STEEM_TEMP_ACCOUNT} n \<or>
      vouched (get_posting g) sigs (get_active g) n \<or> vouched (get_posting g) sigs (get_owner g) n) ns" by (rule f(2))
  show "list_all (relevant (get_posting g) ?S) sigs" by (rule all_used[OF u f(1)])
qed

lemma active_sound:
  assumes o: "foldE (\<lambda>auth s. steem_assert Tx_missing_other_auth (check_authority s auth)) other
          (sign_state_for l sigs (get_active g) []) = Inr s1"
    and a: "foldE (\<lambda>n s. steem_assert Tx_missing_active_auth
             (or_else (check_authority_id s n) (check_fetched (get_owner g) n))) as s1 = Inr s2"
    and w: "foldE (\<lambda>n s. steem_assert Tx_missing_owner_auth (check_fetched (get_owner g) n s)) ow s2 = Inr s3"
    and u: "no_unused s3 = Inr ()" and g: "getters_typed g" and t: "list_all weights_typed other"
  shows "list_all (authorized (get_active g) (set sigs) {STEEM_TEMP_ACCOUNT}) other"
    and "list_all (\<lambda>n. trusted (get_active g) (set sigs) {STEEM_TEMP_ACCOUNT} n \<or> vouched (get_active g) sigs (get_owner g) n) as"
    and "list_all (vouched (get_active g) sigs (get_owner g)) ow"
    and "list_all (relevant (get_active g) (active_roots g as ow other)) sigs"
proof -
  let ?S = "active_roots g as ow other" let ?I = "walk_inv (get_active g) (set sigs) {STEEM_TEMP_ACCOUNT} ?S"
  have W: "weights_typed au" if "met (get_active g) ?S au" for au
    using that by (rule met_typed) (use g t in \<open>auto simp: getters_typed_def active_roots_def list_all_iff\<close>)
  have A: "get_active g n = Inr au \<Longrightarrow> n \<in> set as \<Longrightarrow> au \<in> ?S" and O: "get_owner g n = Inr au \<Longrightarrow> n \<in> set as \<union> set ow \<Longrightarrow> au \<in> ?S"
    and T: "au \<in> set other \<Longrightarrow> au \<in> ?S" for au n by (auto simp: active_roots_def)
  note f1 = assert_fold[where I = ?I, OF o new_state_inv check_authority_sound(1)[OF W _ _ met.root[OF T]]]
  show "list_all (authorized (get_active g) (set sigs) {STEEM_TEMP_ACCOUNT}) other" by (rule f1(2)) auto
  have one: "?I s' \<and> (b \<longrightarrow> trusted (get_active g) (set sigs) {STEEM_TEMP_ACCOUNT} n \<or> vouched (get_active g) sigs (get_owner g) n)"
    if n: "n \<in> set as" and s: "?I s" and r: "or_else (check_authority_id s n) (check_fetched (get_owner g) n) = Inr (s', b)" for n s s' b
    using n by (intro or_else_sound[OF r] check_authority_sound(2)[OF W s] check_fetched_sound[OF _ _ W]) (auto intro: met.root A O)
  have I1: "?I s1" by (rule f1(1)) auto
  note f2 = assert_fold[where I = ?I, OF a I1 one]
  show "list_all (\<lambda>n. trusted (get_active g) (set sigs) {STEEM_TEMP_ACCOUNT} n \<or> vouched (get_active g) sigs (get_owner g) n) as"
    by (rule f2(2))
  note f3 = assert_fold[where I = ?I, OF w f2(1) check_fetched_sound[OF _ _ W O]]
  show "list_all (vouched (get_active g) sigs (get_owner g)) ow" by (rule f3(2)) auto
  have "?I s3" by (rule f3(1)) auto
  from all_used[OF u this] show "list_all (relevant (get_active g) ?S) sigs" .
qed

definition posting_signed :: "getters \<Rightarrow> public_key_type list \<Rightarrow> operation list \<Rightarrow> bool" where
  "posting_signed g sigs ops \<longleftrightarrow>
     (let names = concat (map required_posting_authorities ops); G = get_posting g in
      concat (map required_active_authorities ops) = [] \<and> concat (map required_owner_authorities ops) = [] \<and>
      list_all (\<lambda>n. trusted G (set sigs) {STEEM_TEMP_ACCOUNT} n \<or> vouched G sigs (get_active g) n \<or> vouched G sigs (get_owner g) n) names \<and>
      list_all (relevant G (posting_roots g names)) sigs)"

definition active_signed :: "getters \<Rightarrow> public_key_type list \<Rightarrow> operation list \<Rightarrow> authority list \<Rightarrow> bool" where
  "active_signed g sigs ops other \<longleftrightarrow>
     (let actives = concat (map required_active_authorities ops); owners = concat (map required_owner_authorities ops);
          G = get_active g in
      list_all (authorized G (set sigs) {STEEM_TEMP_ACCOUNT}) other \<and>
      list_all (\<lambda>n. trusted G (set sigs) {STEEM_TEMP_ACCOUNT} n \<or> vouched G sigs (get_owner g) n) actives \<and>
      list_all (vouched G sigs (get_owner g)) owners \<and>
      list_all (relevant G (active_roots g actives owners other)) sigs)"

lemma flat_set_simps:
  "set (flat_set xs) = set xs" "flat_set xs = [] \<longleftrightarrow> xs = []" "list_all P (flat_set xs) = list_all P xs"
  by (auto simp: flat_set_def list_all_iff) (metis set_remdups set_sort set_empty)

lemma roots_flat_set:
  "posting_roots g (flat_set ns) = posting_roots g ns" "active_roots g (flat_set as) (flat_set ow) other = active_roots g as ow other"
  by (simp_all add: posting_roots_def active_roots_def flat_set_simps)

section \<open>Properties\<close>

text \<open>C0. A transaction that passes \<open>verify_authority\<close> carries the consent of everyone it needs.  For each account named
  by an operation some members of its authority (of the required kind, or of a stronger one) have together at least
  the threshold's weight, and each of them is a key with a signature or an account for which the same holds in turn;
  an account's weight is never counted on the strength of anything else, at any depth and in spite of 32-bit wrap-around.
  Posting authority is not mixed with the others, an owner authority is never replaced by a weaker one, and every
  signature is of a key in an authority that was consulted.\<close>

theorem authorities_are_signed:
  assumes "verify_authority ops sigs g l = Inr ()" "collect_authorities ops = Inr other"
    and "getters_typed g" "list_all weights_typed other"
  shows "if concat (map required_posting_authorities ops) \<noteq> [] then posting_signed g sigs ops \<and> other = []
    else active_signed g sigs ops other"
proof (cases "concat (map required_posting_authorities ops) = []")
  case False
  with assms(1,2) obtain s where
    c: "concat (map required_active_authorities ops) = []" "concat (map required_owner_authorities ops) = []" "other = []" and
    f: "foldE (\<lambda>n s. steem_assert Tx_missing_posting_auth (or_else (check_authority_id s n) (\<lambda>s.
          or_else (check_fetched (get_active g) n s) (check_fetched (get_owner g) n))))
        (flat_set (concat (map required_posting_authorities ops))) (sign_state_for l sigs (get_posting g) []) = Inr s"
      "no_unused s = Inr ()"
    unfolding verify_authority_def Let_def
    by (auto simp: flat_set_simps bindE_eq_Inr fc_assert_eq_Inr simp del: concat_eq_Nil_conv)
  from posting_sound[OF f assms(3)] c False show ?thesis
    by (simp add: posting_signed_def Let_def flat_set_simps roots_flat_set del: concat_eq_Nil_conv)
next
  case True
  with assms(1,2) obtain s1 s2 s3 where
    "foldE (\<lambda>auth s. steem_assert Tx_missing_other_auth (check_authority s auth)) other
          (sign_state_for l sigs (get_active g) []) = Inr s1"
    "foldE (\<lambda>n s. steem_assert Tx_missing_active_auth (or_else (check_authority_id s n) (check_fetched (get_owner g) n)))
       (flat_set (concat (map required_active_authorities ops))) s1 = Inr s2"
    "foldE (\<lambda>n s. steem_assert Tx_missing_owner_auth (check_fetched (get_owner g) n s))
       (flat_set (concat (map required_owner_authorities ops))) s2 = Inr s3" "no_unused s3 = Inr ()"
    unfolding verify_authority_def Let_def by (auto simp: flat_set_simps bindE_eq_Inr simp del: concat_eq_Nil_conv)
  from active_sound[OF this assms(3,4)] True show ?thesis
    by (simp add: active_signed_def Let_def flat_set_simps roots_flat_set del: concat_eq_Nil_conv)
qed

definition shared_authority :: authority where
  "shared_authority = \<lparr> weight_threshold = 2, account_auths = [(''bob'', 1)], key_auths = [(''alice-key'', 1)] \<rparr>"

definition single_authority :: "public_key_type \<Rightarrow> authority" where
  "single_authority k = \<lparr> weight_threshold = 1, account_auths = [], key_auths = [(k, 1)] \<rparr>"

definition shared_getters :: getters where
  "shared_getters =
     (let get = (\<lambda>n. if n = ''alice'' then Inr shared_authority else if n = ''bob'' then Inr (single_authority ''bob-key'')
        else Inl Out_of_range)
      in \<lparr> get_active = get, get_owner = (\<lambda>n. Inr (single_authority (''owner-'' @ n))), get_posting = get \<rparr>)"

definition shared_transfer :: operation where
  "shared_transfer = Op_transfer \<lparr> tr_from = ''alice'', tr_to = ''bob'', tr_amount = mk_asset 1 STEEM_SYMBOL, tr_memo = [] \<rparr>"

definition sample_limits :: limits where
  "sample_limits = \<lparr> max_recursion = STEEM_MAX_SIG_CHECK_DEPTH, max_membership = STEEM_MAX_AUTHORITY_MEMBERSHIP,
     max_account_auths = STEEM_MAX_SIG_CHECK_ACCOUNTS \<rparr>"

theorem authorities_are_signed_witness:
  "verify_authority [shared_transfer] [''alice-key'', ''bob-key''] shared_getters sample_limits = Inr () \<and>
   verify_authority [shared_transfer] [''alice-key''] shared_getters sample_limits = Inl Tx_missing_active_auth \<and>
   collect_authorities [shared_transfer] = Inr [] \<and> getters_typed shared_getters \<and>
   active_signed shared_getters [''alice-key'', ''bob-key''] [shared_transfer] []"
proof -
  have v: "verify_authority [shared_transfer] [''alice-key'', ''bob-key''] shared_getters sample_limits = Inr ()" by code_simp
  have n: "verify_authority [shared_transfer] [''alice-key''] shared_getters sample_limits = Inl Tx_missing_active_auth" by code_simp
  have c: "collect_authorities [shared_transfer] = Inr []" by code_simp
  have t: "getters_typed shared_getters"
    by (auto simp: getters_typed_def shared_getters_def shared_authority_def single_authority_def weights_typed_def Let_def split: if_splits)
  have "concat (map required_posting_authorities [shared_transfer]) = []" by code_simp
  with authorities_are_signed[OF v c t] v n c t show ?thesis by simp
qed

end
