(* ===== verification/Spec2Isabelle.thy ===== *)
theory Spec2Isabelle
  imports Voting Uint128 Accounts Curation Apply Sign_State
begin

text \<open>
  A verification development of the Steem blockchain node (src/src/core).
\<close>

end
